(* ===== verification/Prelude.thy ===== *)
theory Prelude
  imports Main "HOL-Library.Word" "HOL-Library.AList"
begin

section \<open>Shared vocabulary of the development\<close>

text \<open>
  What every component uses: the Go types the sources compute with, the functions of Go's
  \<open>strings\<close> package they call, association lists for Go maps that the code iterates over,
  big-endian byte strings, and the generic transition systems whose invariants the
  stateful components establish.

  A Go string is a sequence of bytes, so it is a \<^typ>\<open>string\<close> here (a \<^typ>\<open>char\<close> is a
  byte) and \<open>len\<close> is \<^const>\<open>length\<close>; a \<open>[]byte\<close> has the same type. An instant
  \<open>time.Time\<close> and a \<open>time.Duration\<close> are integers in nanoseconds.
\<close>

subsection \<open>Types\<close>

type_synonym u32 = "32 word"
type_synonym u64 = "64 word"
type_synonym bytes = string
type_synonym gotime = int

abbreviation second :: gotime where
  "second \<equiv> 1000000000"

abbreviation millisecond :: gotime where
  "millisecond \<equiv> 1000000"

abbreviation max_int64 :: int where
  "max_int64 \<equiv> 9223372036854775807"

text \<open>
  A timestamp field of a control-plane message is a string of which the code observes only
  whether it is empty, whether \<open>time.Parse(time.RFC3339Nano, _)\<close> accepts it, and the
  instant it denotes. \<open>Stamp t\<close> is a string that parses to \<open>t\<close>, \<open>BadStamp\<close> a
  non-empty string that does not parse. (The empty string does not parse either.)
\<close>

datatype stamp = NoStamp | BadStamp | Stamp gotime

fun parse_stamp :: "stamp \<Rightarrow> gotime option" where
  "parse_stamp (Stamp t) = Some t"
| "parse_stamp _ = None"

text \<open>A 64-bit counter that is not at its maximum grows.\<close>

lemma u64_less_inc: "(s :: u64) < s + 1" if "s \<noteq> - 1"
proof -
  have 1: "unat (s + 1) = (unat s + 1) mod 2 ^ 64" by (simp add: unat_word_ariths)
  have lt: "unat s < 2 ^ 64" using unsigned_less [of s] by simp
  have "unat s \<noteq> 2 ^ 64 - 1"
  proof
    assume "unat s = 2 ^ 64 - 1"
    then have "unat s = unat (- 1 :: 64 word)" by (simp add: unsigned_minus_1_eq_mask mask_eq_exp_minus_1)
    then show False using that by (simp add: word_unat_eq_iff)
  qed
  then have "unat (s + 1) = unat s + 1" using 1 lt by simp
  then show ?thesis by (simp add: word_less_nat_alt)
qed

subsection \<open>Named theorem collections\<close>

named_theorems go_map \<open>how Go map operations on association lists act\<close>
named_theorems inv_intro \<open>preservation of component invariants\<close>

subsection \<open>Results\<close>

text \<open>A fallible Go function returns an error (\<^const>\<open>Inl\<close>) or a value (\<^const>\<open>Inr\<close>).\<close>

definition is_ok :: "'e + 'a \<Rightarrow> bool" where
  "is_ok r = (case r of Inl _ \<Rightarrow> False | Inr _ \<Rightarrow> True)"

lemma is_ok_simps [simp]: "is_ok (Inr x)" "\<not> is_ok (Inl e)"
  by (simp_all add: is_ok_def)

lemma is_ok_iff: "is_ok r \<longleftrightarrow> (\<exists>x. r = Inr x)"
  by (cases r) auto

subsection \<open>Go maps as association lists\<close>

text \<open>
  \<open>m[k]\<close> on a map with string values yields the empty string for a missing key; the code
  often relies on that.
\<close>

definition get_str :: "('k \<times> string) list \<Rightarrow> 'k \<Rightarrow> string" where
  "get_str m k = (case map_of m k of None \<Rightarrow> [] | Some v \<Rightarrow> v)"

abbreviation keys :: "('k \<times> 'v) list \<Rightarrow> 'k set" where
  "keys m \<equiv> fst ` set m"

definition wf_map :: "('k \<times> 'v) list \<Rightarrow> bool" where
  "wf_map m = distinct (map fst m)"

definition put :: "'k \<Rightarrow> 'v \<Rightarrow> ('k \<times> 'v) list \<Rightarrow> ('k \<times> 'v) list" where
  "put k v m = AList.update k v m"

definition del :: "'k \<Rightarrow> ('k \<times> 'v) list \<Rightarrow> ('k \<times> 'v) list" where
  "del k m = filter (\<lambda>p. fst p \<noteq> k) m"

lemma wf_map_Nil [simp]: "wf_map []"
  by (simp add: wf_map_def)

lemma wf_map_put [simp, go_map]: "wf_map m \<Longrightarrow> wf_map (put k v m)"
  by (simp add: wf_map_def put_def distinct_update)

lemma wf_map_filter [simp, go_map]: "wf_map m \<Longrightarrow> wf_map (filter P m)"
  by (simp add: wf_map_def distinct_map_filter)

lemma wf_map_del [simp, go_map]: "wf_map m \<Longrightarrow> wf_map (del k m)"
  by (simp add: del_def)

lemma map_of_put [simp, go_map]: "map_of (put k v m) = (map_of m)(k \<mapsto> v)"
  by (simp add: put_def update_conv')

lemma map_of_del [simp, go_map]: "map_of (del k m) = (map_of m)(k := None)"
  by (rule ext, induction m) (auto simp: del_def)

lemma map_of_filter_wf:
  "wf_map m \<Longrightarrow> map_of (filter P m) k =
     (case map_of m k of None \<Rightarrow> None | Some v \<Rightarrow> if P (k, v) then Some v else None)"
proof (induction m)
  case Nil
  then show ?case by simp
next
  case (Cons p m)
  obtain k' v' where p: "p = (k', v')" by (cases p)
  have notin: "k' \<notin> fst ` set m" and wf: "wf_map m"
    using Cons.prems by (auto simp: wf_map_def p)
  have none: "map_of m k' = None" "map_of (filter P m) k' = None"
    using notin by (auto simp: map_of_eq_None_iff)
  show ?case
    using Cons.IH [OF wf] none by (cases "k = k'") (auto simp: p)
qed

lemma wf_map_set: "wf_map m \<Longrightarrow> (k, v) \<in> set m \<longleftrightarrow> map_of m k = Some v"
  by (simp add: wf_map_def)

lemma in_keys_iff: "k \<in> keys m \<longleftrightarrow> map_of m k \<noteq> None"
  by (simp add: map_of_eq_None_iff)

lemma in_keys_Some: "k \<in> keys m \<longleftrightarrow> (\<exists>v. map_of m k = Some v)"
  by (auto simp: in_keys_iff)

lemma keys_del [simp]: "keys (del k m) = keys m - {k}"
  by (intro set_eqI) (simp add: in_keys_iff)

lemma keys_put [simp]: "keys (put k v m) = insert k (keys m)"
  by (intro set_eqI) (simp add: in_keys_iff)

lemma length_filter_filter_le: "length (filter P (filter Q xs)) \<le> length (filter P xs)"
  by (induction xs) auto

lemma set_del: "set (del k m) = {p \<in> set m. fst p \<noteq> k}"
  by (auto simp: del_def)

lemma del_absent: "map_of m k = None \<Longrightarrow> del k m = m"
  unfolding del_def filter_id_conv map_of_eq_None_iff by auto

lemma length_filter_del_le: "length (filter P (del k m)) \<le> length (filter P m)"
proof -
  have "filter P (del k m) = filter (\<lambda>p. fst p \<noteq> k) (filter P m)"
    by (simp add: del_def conj_commute)
  then show ?thesis by (simp del: filter_filter)
qed

lemma get_str_put [simp]: "get_str (put k v m) k' = (if k' = k then v else get_str m k')"
  by (simp add: get_str_def)

lemma get_str_del [simp]: "get_str (del k m) k' = (if k' = k then [] else get_str m k')"
  by (simp add: get_str_def)

lemma get_str_Nil [simp]: "get_str [] k = []"
  by (simp add: get_str_def)

lemma get_str_nonempty: "get_str m k = v \<Longrightarrow> v \<noteq> [] \<Longrightarrow> map_of m k = Some v"
  by (auto simp: get_str_def split: option.splits)

subsection \<open>Updating one entry of a map in place\<close>

text \<open>
  A Go map of pointers: \<open>m[k].f = v\<close> changes the object the map holds under \<open>k\<close>.
\<close>

definition adjust :: "'k \<Rightarrow> ('v \<Rightarrow> 'v) \<Rightarrow> ('k \<times> 'v) list \<Rightarrow> ('k \<times> 'v) list" where
  "adjust k f m = map (\<lambda>(k', v). (k', if k' = k then f v else v)) m"

lemma map_fst_adjust [simp, go_map]: "map fst (adjust k f m) = map fst m"
  by (induction m) (auto simp: adjust_def)

lemma wf_map_adjust [simp, go_map]: "wf_map (adjust k f m) = wf_map m"
  by (simp add: wf_map_def)

lemma keys_adjust [simp, go_map]: "keys (adjust k f m) = keys m"
  by (metis list.set_map map_fst_adjust)

lemma map_of_adjust [simp, go_map]:
  "map_of (adjust k f m) k' = (if k' = k then map_option f (map_of m k) else map_of m k')"
  by (induction m) (auto simp: adjust_def)

subsection \<open>The \<open>strings\<close> package\<close>

definition has_prefix :: "string \<Rightarrow> string \<Rightarrow> bool" where
  "has_prefix p s = (take (length p) s = p)"

definition trim_prefix :: "string \<Rightarrow> string \<Rightarrow> string" where
  "trim_prefix p s = (if has_prefix p s then drop (length p) s else s)"

definition contains_any :: "string \<Rightarrow> char list \<Rightarrow> bool" where
  "contains_any s cs = list_ex (\<lambda>c. c \<in> set cs) s"

text \<open>\<open>strings.Contains\<close>: some suffix starts with the pattern.\<close>

fun contains_str :: "string \<Rightarrow> string \<Rightarrow> bool" where
  "contains_str [] p = has_prefix p []"
| "contains_str (c # s) p = (has_prefix p (c # s) \<or> contains_str s p)"

text \<open>\<open>strings.Split\<close> with a one-byte separator, and \<open>strings.Join\<close>.\<close>

fun split_on :: "char \<Rightarrow> string \<Rightarrow> string list" where
  "split_on c [] = [[]]"
| "split_on c (x # xs) =
     (if x = c then [] # split_on c xs
      else (case split_on c xs of [] \<Rightarrow> [[x]] | p # ps \<Rightarrow> (x # p) # ps))"

fun join_with :: "char \<Rightarrow> string list \<Rightarrow> string" where
  "join_with c [] = []"
| "join_with c [p] = p"
| "join_with c (p # q # ps) = p @ c # join_with c (q # ps)"

text \<open>
  \<open>strings.TrimSpace\<close> removes Unicode white space at both ends: the UTF-8 encodings of the
  code points \<open>unicode.IsSpace\<close> accepts.
\<close>

definition white_space :: "string list" where
  "white_space =
     [[CHR 0x09], [CHR 0x0A], [CHR 0x0B], [CHR 0x0C], [CHR 0x0D], [CHR 0x20],
      [CHR 0xC2, CHR 0x85], [CHR 0xC2, CHR 0xA0], [CHR 0xE1, CHR 0x9A, CHR 0x80]]
     @ map (\<lambda>n. [CHR 0xE2, CHR 0x80, char_of n]) ([128..<139] @ [168, 169, 175 :: nat])
     @ [[CHR 0xE2, CHR 0x81, CHR 0x9F], [CHR 0xE3, CHR 0x80, CHR 0x80]]"

function trim_start :: "string list \<Rightarrow> string \<Rightarrow> string" where
  "trim_start ws s =
     (case find (\<lambda>w. w \<noteq> [] \<and> has_prefix w s) ws of
        None \<Rightarrow> s | Some w \<Rightarrow> trim_start ws (drop (length w) s))"
  by pat_completeness auto
termination
proof (relation "measure (\<lambda>(ws, s). length s)")
  fix ws s w
  assume "find (\<lambda>w. w \<noteq> [] \<and> has_prefix w s) ws = Some w"
  then have "w \<noteq> []" "has_prefix w s" by (auto simp: find_Some_iff)
  then have "s \<noteq> []" by (auto simp: has_prefix_def)
  then show "((ws, drop (length w) s), ws, s) \<in> measure (\<lambda>(ws, s). length s)"
    using \<open>w \<noteq> []\<close> by simp
qed simp

declare trim_start.simps [simp del]

definition trimSpace :: "string \<Rightarrow> string" where
  "trimSpace s = rev (trim_start (map rev white_space) (rev (trim_start white_space s)))"

lemma has_prefix_iff: "has_prefix p s \<longleftrightarrow> (\<exists>r. s = p @ r)"
  by (metis append_eq_conv_conj append_take_drop_id has_prefix_def)

lemma has_prefix_append [simp]: "has_prefix p (p @ r)"
  by (auto simp: has_prefix_iff)

lemma trim_prefix_append [simp]: "trim_prefix p (p @ s) = s"
  by (simp add: trim_prefix_def)

lemma trim_start_kept: "\<forall>w \<in> set ws. w \<noteq> [] \<longrightarrow> hd w \<noteq> c \<Longrightarrow> trim_start ws (c # s) = c # s"
proof -
  assume "\<forall>w \<in> set ws. w \<noteq> [] \<longrightarrow> hd w \<noteq> c"
  then have "find (\<lambda>w. w \<noteq> [] \<and> has_prefix w (c # s)) ws = None"
    by (auto simp: find_None_iff has_prefix_iff Cons_eq_append_conv)
  then show ?thesis by (subst trim_start.simps) simp
qed

lemma contains_any_iff: "contains_any s cs \<longleftrightarrow> (\<exists>c\<in>set s. c \<in> set cs)"
  by (auto simp: contains_any_def list_ex_iff)

lemma contains_str_iff: "contains_str s p \<longleftrightarrow> (\<exists>a b. s = a @ p @ b)"
proof (induction s)
  case Nil
  then show ?case by (auto simp: has_prefix_def)
next
  case (Cons c s)
  show ?case
  proof
    assume "contains_str (c # s) p"
    then consider "has_prefix p (c # s)" | "contains_str s p" by auto
    then show "\<exists>a b. c # s = a @ p @ b"
    proof cases
      case 1
      then show ?thesis by (metis append_Nil has_prefix_iff)
    next
      case 2
      then show ?thesis using Cons.IH by (metis append_Cons)
    qed
  next
    assume "\<exists>a b. c # s = a @ p @ b"
    then obtain a b where ab: "c # s = a @ p @ b" by blast
    show "contains_str (c # s) p"
    proof (cases a)
      case Nil
      then have "has_prefix p (c # s)" using ab by simp
      then show ?thesis by simp
    next
      case (Cons d a')
      then have "s = a' @ p @ b" using ab by simp
      then show ?thesis using Cons.IH by auto
    qed
  qed
qed

lemma append_eq_lengthD: "a @ x = b @ y \<Longrightarrow> length a = length b \<Longrightarrow> a = b \<and> x = y"
  by simp

lemma split_on_neq_Nil [simp]: "split_on c s \<noteq> []"
  by (induction s) (auto split: list.splits)

lemma split_on_no_sep: "p \<in> set (split_on c s) \<Longrightarrow> c \<notin> set p"
proof (induction s arbitrary: p)
  case Nil
  then show ?case by simp
next
  case (Cons x xs)
  then show ?case
    by (cases "split_on c xs") (auto split: if_splits)
qed

lemma join_with_Cons: "ps \<noteq> [] \<Longrightarrow> join_with c (p # ps) = p @ c # join_with c ps"
  by (cases ps) auto

lemma join_split [simp]: "join_with c (split_on c s) = s"
proof (induction s)
  case Nil
  then show ?case by simp
next
  case (Cons x xs)
  obtain p ps where split: "split_on c xs = p # ps"
    by (cases "split_on c xs") auto
  with Cons.IH show ?case by (cases ps) auto
qed

lemma split_on_single: "c \<notin> set p \<Longrightarrow> split_on c p = [p]"
  by (induction p) auto

lemma split_on_append_sep: "c \<notin> set p \<Longrightarrow> split_on c (p @ c # s) = p # split_on c s"
  by (induction p) auto

lemma split_join:
  "ps \<noteq> [] \<Longrightarrow> (\<And>p. p \<in> set ps \<Longrightarrow> c \<notin> set p) \<Longrightarrow> split_on c (join_with c ps) = ps"
proof (induction ps rule: induct_list012)
  case 1
  then show ?case by simp
next
  case (2 p)
  then show ?case by (simp add: split_on_single)
next
  case (3 p q ps)
  then show ?case by (simp add: split_on_append_sep)
qed

lemma split_on_inj: "split_on c s = split_on c t \<Longrightarrow> s = t"
  by (metis join_split)

lemma join_with_inj:
  assumes "join_with c ps = join_with c qs" "ps \<noteq> []" "qs \<noteq> []"
    and "\<And>p. p \<in> set ps \<Longrightarrow> c \<notin> set p" and "\<And>q. q \<in> set qs \<Longrightarrow> c \<notin> set q"
  shows "ps = qs"
  using assms split_join by metis

subsection \<open>The \<open>strconv\<close> package\<close>

text \<open>\<open>strconv.FormatUint\<close> and \<open>FormatInt\<close> in base ten.\<close>

fun format_nat :: "nat \<Rightarrow> string" where
  "format_nat n = (if n < 10 then [char_of (48 + n)] else format_nat (n div 10) @ [char_of (48 + n mod 10)])"

declare format_nat.simps [simp del]

definition format_int :: "int \<Rightarrow> string" where
  "format_int i = (if i < 0 then CHR ''-'' # format_nat (nat (- i)) else format_nat (nat i))"

abbreviation NUL :: char where
  "NUL \<equiv> CHR 0x00"

abbreviation LF :: char where
  "LF \<equiv> CHR 0x0A"

definition read_nat :: "string \<Rightarrow> nat" where
  "read_nat s = foldl (\<lambda>n c. 10 * n + (of_char c - 48)) 0 s"

lemma read_format [simp]: "read_nat (format_nat n) = n"
proof (induction n rule: format_nat.induct)
  case (1 n)
  show ?case
  proof (cases "n < 10")
    case True
    then show ?thesis by (simp add: format_nat.simps [of n] read_nat_def)
  next
    case False
    have "n mod 10 < 10" by simp
    then have "of_char (char_of (48 + n mod 10) :: char) = 48 + n mod 10" by simp
    then show ?thesis using 1 [OF False] False by (simp add: format_nat.simps [of n] read_nat_def)
  qed
qed

lemma format_nat_inj: "format_nat a = format_nat b \<longleftrightarrow> a = b"
  by (metis read_format)

lemma format_nat_digits: "c \<in> set (format_nat n) \<Longrightarrow> 48 \<le> (of_char c :: nat)"
proof (induction n rule: format_nat.induct)
  case (1 n)
  have "n mod 10 < 10" by simp
  then have "of_char (char_of (48 + n mod 10) :: char) = 48 + n mod 10" by simp
  then show ?case using 1 by (cases "n < 10") (auto simp: format_nat.simps [of n])
qed

lemma format_nat_NUL [simp]: "NUL \<notin> set (format_nat n)"
  using format_nat_digits [of NUL n] by auto

subsection \<open>Transition systems\<close>

text \<open>
  A component's atomic steps are a relation \<open>step s e t\<close>: from \<open>s\<close>, the event \<open>e\<close>
  leads to \<open>t\<close>. The event carries what the environment chose and what the step
  returned. A run is a finite sequence of steps.
\<close>

inductive runs :: "('s \<Rightarrow> 'e \<Rightarrow> 's \<Rightarrow> bool) \<Rightarrow> 's \<Rightarrow> 'e list \<Rightarrow> 's \<Rightarrow> bool" for step where
  runs_Nil [intro]: "runs step s [] s"
| runs_Cons [intro]: "step s e t \<Longrightarrow> runs step t es u \<Longrightarrow> runs step s (e # es) u"

inductive_cases runs_NilE [elim!]: "runs step s [] t"
inductive_cases runs_ConsE [elim!]: "runs step s (e # es) u"

lemma runs_append:
  "runs step s (es @ fs) u \<longleftrightarrow> (\<exists>t. runs step s es t \<and> runs step t fs u)"
proof (induction es arbitrary: s)
  case Nil
  then show ?case by auto
next
  case (Cons e es)
  show ?case
  proof
    assume "runs step s ((e # es) @ fs) u"
    then obtain t where "step s e t" "runs step t (es @ fs) u" by auto
    then show "\<exists>t. runs step s (e # es) t \<and> runs step t fs u"
      using Cons.IH by blast
  next
    assume "\<exists>t. runs step s (e # es) t \<and> runs step t fs u"
    then obtain t t' where "step s e t'" "runs step t' es t" "runs step t fs u" by auto
    then show "runs step s ((e # es) @ fs) u" using Cons.IH by auto
  qed
qed

text \<open>
  The contract behind every safety proof of the development: an invariant that each step
  keeps.
\<close>

locale invariant_system =
  fixes step :: "'s \<Rightarrow> 'e \<Rightarrow> 's \<Rightarrow> bool"
    and inv :: "'s \<Rightarrow> bool"
  assumes step_inv: "step s e t \<Longrightarrow> inv s \<Longrightarrow> inv t"
begin

lemma runs_inv: "runs step s es t \<Longrightarrow> inv s \<Longrightarrow> inv t"
  by (induction rule: runs.induct) (auto intro: step_inv)

lemma runs_event: "runs step s es t \<Longrightarrow> inv s \<Longrightarrow> e \<in> set es \<Longrightarrow> \<exists>s' t'. inv s' \<and> step s' e t'"
  by (induction rule: runs.induct) (auto intro: step_inv)

end

text \<open>
  A system that hands out keys which may be used at most once: \<open>uses e\<close> are the keys an
  event uses up, \<open>spent s k\<close> says that \<open>k\<close> can never be used from \<open>s\<close> on.
\<close>

locale single_use_system = invariant_system step inv
  for step :: "'s \<Rightarrow> 'e \<Rightarrow> 's \<Rightarrow> bool" and inv :: "'s \<Rightarrow> bool" +
  fixes uses :: "'e \<Rightarrow> 'k list"
    and spent :: "'s \<Rightarrow> 'k \<Rightarrow> bool"
  assumes uses_once: "step s e t \<Longrightarrow> inv s \<Longrightarrow> distinct (uses e)"
    and use_unspent: "step s e t \<Longrightarrow> inv s \<Longrightarrow> k \<in> set (uses e) \<Longrightarrow> \<not> spent s k"
    and use_spends: "step s e t \<Longrightarrow> inv s \<Longrightarrow> k \<in> set (uses e) \<Longrightarrow> spent t k"
    and spent_stays: "step s e t \<Longrightarrow> inv s \<Longrightarrow> spent s k \<Longrightarrow> spent t k"
begin

lemma spent_not_used:
  "runs step s es t \<Longrightarrow> inv s \<Longrightarrow> spent s k \<Longrightarrow> k \<notin> set (concat (map uses es))"
proof (induction rule: runs.induct)
  case (runs_Nil s)
  then show ?case by simp
next
  case (runs_Cons s e t es u)
  have "spent t k" "inv t"
    using runs_Cons.hyps(1) runs_Cons.prems spent_stays step_inv by blast+
  then have "k \<notin> set (concat (map uses es))" by (rule runs_Cons.IH [rotated])
  moreover have "k \<notin> set (uses e)"
    using use_unspent [OF runs_Cons.hyps(1) runs_Cons.prems(1)] runs_Cons.prems(2) by blast
  ultimately show ?case by simp
qed

lemma uses_distinct: "runs step s es t \<Longrightarrow> inv s \<Longrightarrow> distinct (concat (map uses es))"
proof (induction rule: runs.induct)
  case (runs_Nil s)
  then show ?case by simp
next
  case (runs_Cons s e t es u)
  have inv: "inv t" using runs_Cons.hyps(1) runs_Cons.prems by (rule step_inv)
  then have rest: "distinct (concat (map uses es))" by (rule runs_Cons.IH)
  have "set (uses e) \<inter> set (concat (map uses es)) = {}"
    using use_spends [OF runs_Cons.hyps(1) runs_Cons.prems]
      spent_not_used [OF runs_Cons.hyps(2) inv] by blast
  then show ?case
    using rest uses_once [OF runs_Cons.hyps(1) runs_Cons.prems] by simp
qed

end

text \<open>
  A system that hands out numbers in increasing order: \<open>issued e\<close> are the numbers an event
  hands out, all above the level before it and none above the level after it.
\<close>

locale counter_system = invariant_system step inv
  for step :: "'s \<Rightarrow> 'e \<Rightarrow> 's \<Rightarrow> bool" and inv :: "'s \<Rightarrow> bool" +
  fixes level :: "'s \<Rightarrow> 'n :: linorder"
    and issued :: "'e \<Rightarrow> 'n list"
  assumes level_mono: "step s e t \<Longrightarrow> inv s \<Longrightarrow> level s \<le> level t"
    and issued_above: "step s e t \<Longrightarrow> inv s \<Longrightarrow> n \<in> set (issued e) \<Longrightarrow> level s < n \<and> n \<le> level t"
    and issued_sorted: "step s e t \<Longrightarrow> inv s \<Longrightarrow> sorted_wrt (<) (issued e)"
begin

lemma runs_issued:
  "runs step s es t \<Longrightarrow> inv s \<Longrightarrow>
     sorted_wrt (<) (concat (map issued es)) \<and> (\<forall>n \<in> set (concat (map issued es)). level s < n)"
proof (induction rule: runs.induct)
  case (runs_Nil s)
  then show ?case by simp
next
  case (runs_Cons s e t es u)
  have inv: "inv t" using runs_Cons.hyps(1) runs_Cons.prems by (rule step_inv)
  have le: "level s \<le> level t" using runs_Cons.hyps(1) runs_Cons.prems by (rule level_mono)
  note IH = runs_Cons.IH [OF inv]
  have "m < n" if "m \<in> set (issued e)" "n \<in> set (concat (map issued es))" for m n
    using issued_above [OF runs_Cons.hyps(1) runs_Cons.prems that(1)] IH that(2) by fastforce
  moreover have "level s < n" if "n \<in> set (concat (map issued es))" for n
    using IH that le by fastforce
  ultimately show ?case
    using IH issued_sorted [OF runs_Cons.hyps(1) runs_Cons.prems]
      issued_above [OF runs_Cons.hyps(1) runs_Cons.prems]
    by (auto simp: sorted_wrt_append)
qed

end

end
