(* ===== verification/Wire.thy ===== *)
theory Wire
  imports Prelude
begin

section \<open>Byte-level encodings\<close>

text \<open>
  The encodings the program writes and reads: big-endian integers
  (\<open>encoding/binary\<close>), unpadded base64url (\<open>base64.RawURLEncoding\<close>), the broker's IPC
  frames (\<open>internal/egobrowser/framing.go\<close>), the control frames of the device bridge
  (\<open>internal/devicecontrol/bridge.go\<close>), the handshake of the port-forward tunnel
  (\<open>internal/portforward/tunnel.go\<close>) and the key-wrap transcript of the broker.
  Each frame format is an instance of the locale \<open>framed_codec\<close>, where it is shown that a
  stream of frames decodes back to the frames that were written.
\<close>

subsection \<open>Big-endian integers\<close>

fun be_bytes :: "nat \<Rightarrow> nat \<Rightarrow> bytes" where
  "be_bytes 0 n = []"
| "be_bytes (Suc k) n = be_bytes k (n div 256) @ [char_of n]"

definition be_nat :: "bytes \<Rightarrow> nat" where
  "be_nat bs = foldl (\<lambda>a c. a * 256 + of_char c) 0 bs"

lemma length_be_bytes [simp]: "length (be_bytes k n) = k"
  by (induction k arbitrary: n) auto

lemma be_nat_snoc: "be_nat (bs @ [c]) = be_nat bs * 256 + of_char c"
  by (simp add: be_nat_def)

lemma be_nat_be_bytes: "n < 256 ^ k \<Longrightarrow> be_nat (be_bytes k n) = n"
proof (induction k arbitrary: n)
  case 0
  then show ?case by (simp add: be_nat_def)
next
  case (Suc k)
  have "n div 256 < 256 ^ k"
    using Suc.prems by (simp add: less_mult_imp_div_less mult.commute)
  then have "be_nat (be_bytes k (n div 256)) = n div 256"
    by (rule Suc.IH)
  then show ?case by (simp add: be_nat_snoc)
qed

lemma be_bytes_inj: "be_bytes k m = be_bytes k n \<Longrightarrow> m < 256 ^ k \<Longrightarrow> n < 256 ^ k \<Longrightarrow> m = n"
  by (metis be_nat_be_bytes)

lemma unat_u64_lt: "unat (g :: u64) < 256 ^ 8"
proof -
  have "unat g < 2 ^ LENGTH(64)" by (rule unsigned_less)
  then show ?thesis by simp
qed

lemma be_u64_inj: "be_bytes 8 (unat (g :: u64)) = be_bytes 8 (unat h) \<Longrightarrow> g = h"
  using be_bytes_inj [of 8 "unat g" "unat h"] unat_u64_lt [of g] unat_u64_lt [of h]
  by (simp only: word_unat_eq_iff)

subsection \<open>Reading from a byte stream\<close>

datatype io_error = EOF | UnexpectedEOF | ErrShortWrite | FrameTooLarge | FrameInvalid
  | WriteError string

text \<open>\<open>io.ReadFull\<close> on a stream whose remaining bytes are given.\<close>

definition read_full :: "nat \<Rightarrow> bytes \<Rightarrow> io_error + (bytes \<times> bytes)" where
  "read_full n s =
     (if n \<le> length s then Inr (take n s, drop n s)
      else if s = [] then Inl EOF
      else Inl UnexpectedEOF)"

lemma read_full_append [simp]: "length a = n \<Longrightarrow> read_full n (a @ b) = Inr (a, b)"
  by (auto simp: read_full_def)

lemma read_full_ok: "read_full n s = Inr (a, b) \<longleftrightarrow> s = a @ b \<and> length a = n"
  by (auto simp: read_full_def)

subsection \<open>Broker IPC frames\<close>

definition maxIPCFrameBytes :: nat where
  "maxIPCFrameBytes = 16 * 1024 * 1024"

definition readFrame :: "bytes \<Rightarrow> io_error + (bytes \<times> bytes)" where
  "readFrame s =
     (case read_full 4 s of Inl e \<Rightarrow> Inl e
      | Inr (header, s1) \<Rightarrow>
          (let len = be_nat header in
           if len > maxIPCFrameBytes then Inl FrameTooLarge else read_full len s1))"

text \<open>
  An \<open>io.Writer\<close> is its answers: \<open>w i data\<close> is what the \<open>i\<close>-th call returns when it is
  offered \<open>data\<close>, a byte count and possibly an error. \<open>writeAll\<close> returns its error, the
  bytes the writer took, and the number of calls made so far. It retries short writes and
  ends because each accepted write shortens the data.
\<close>

type_synonym go_writer = "nat \<Rightarrow> bytes \<Rightarrow> int \<times> io_error option"

function writeAll :: "go_writer \<Rightarrow> nat \<Rightarrow> bytes \<Rightarrow> io_error option \<times> bytes \<times> nat" where
  "writeAll w i data =
     (if data = [] then (None, [], i)
      else (case w i data of
              (n, Some e) \<Rightarrow> (Some e, take (nat n) data, Suc i)
            | (n, None) \<Rightarrow>
                if n \<le> 0 \<or> n > int (length data) then (Some ErrShortWrite, take (nat n) data, Suc i)
                else (case writeAll w (Suc i) (drop (nat n) data) of
                        (r, out, j) \<Rightarrow> (r, take (nat n) data @ out, j))))"
  by pat_completeness auto
termination
  by (relation "measure (\<lambda>(w, i, data). length data)") auto

declare writeAll.simps [simp del]

definition writeFrame :: "go_writer \<Rightarrow> bytes \<Rightarrow> io_error option \<times> bytes" where
  "writeFrame w frame =
     (if length frame > maxIPCFrameBytes \<or> length frame > 2 ^ 32 - 1 then (Some FrameTooLarge, [])
      else (case writeAll w 0 (be_bytes 4 (length frame)) of
              (Some e, out, _) \<Rightarrow> (Some e, out)
            | (None, out, i) \<Rightarrow>
                (case writeAll w i frame of (r, out', _) \<Rightarrow> (r, out @ out'))))"

lemma writeAll_spec:
  "writeAll w i data = (r, out, j) \<Longrightarrow> (\<exists>rest. data = out @ rest) \<and> (r = None \<longrightarrow> out = data)"
proof (induction w i data arbitrary: r out j rule: writeAll.induct)
  case (1 w i data)
  show ?case
  proof (cases "data = []")
    case True
    then have "writeAll w i data = (None, [], i)" by (subst writeAll.simps) simp
    then show ?thesis using "1.prems" True by simp
  next
    case False
    obtain n e where call: "w i data = (n, e)" by (cases "w i data")
    have pre: "\<exists>rest. data = take (nat n) data @ rest"
      by (metis append_take_drop_id)
    show ?thesis
    proof (cases "e \<noteq> None \<or> n \<le> 0 \<or> n > int (length data)")
      case True
      then have "r \<noteq> None \<and> out = take (nat n) data"
        using "1.prems" False call
        by (auto simp: writeAll.simps [of w i data] split: option.splits if_splits)
      then show ?thesis using pre by blast
    next
      case go: False
      obtain r' out' j' where rec: "writeAll w (Suc i) (drop (nat n) data) = (r', out', j')"
        by (cases "writeAll w (Suc i) (drop (nat n) data)")
      have eqs: "r = r'" "out = take (nat n) data @ out'"
        using "1.prems" False call go rec by (auto simp: writeAll.simps [of w i data])
      have "(\<exists>rest. drop (nat n) data = out' @ rest) \<and> (r' = None \<longrightarrow> out' = drop (nat n) data)"
        by (rule "1.IH" [OF False call [symmetric] _ _ rec]) (use go in auto)
      then obtain rest where rest: "drop (nat n) data = out' @ rest" "r' = None \<longrightarrow> rest = []"
        by auto
      have "data = take (nat n) data @ drop (nat n) data" by simp
      then have "data = out @ rest" unfolding eqs rest(1) by simp
      then show ?thesis using rest(2) eqs(1) by auto
    qed
  qed
qed

subsection \<open>Device bridge control frames\<close>

definition maximumBridgeFrame :: nat where
  "maximumBridgeFrame = 4096"

definition readBridgeFrame :: "bytes \<Rightarrow> io_error + (bytes \<times> bytes)" where
  "readBridgeFrame s =
     (case read_full 4 s of Inl e \<Rightarrow> Inl e
      | Inr (header, s1) \<Rightarrow>
          (let len = be_nat header in
           if len = 0 \<or> len > maximumBridgeFrame then Inl FrameInvalid else read_full len s1))"

definition writeBridgeFrame :: "bytes \<Rightarrow> io_error + bytes" where
  "writeBridgeFrame data =
     (if length data = 0 \<or> length data > maximumBridgeFrame then Inl FrameInvalid
      else Inr (be_bytes 4 (length data) @ data))"

subsection \<open>Port-forward handshake frames\<close>

definition protocolMagic :: bytes where
  "protocolMagic = ''ARPF'' @ [CHR 0x00, CHR 0x01]"

definition maxHandshakePayload :: nat where
  "maxHandshakePayload = 8192"

definition readHandshakePayload :: "bytes \<Rightarrow> io_error + (bytes \<times> bytes)" where
  "readHandshakePayload s =
     (case read_full (length protocolMagic) s of Inl e \<Rightarrow> Inl FrameInvalid
      | Inr (magic, s1) \<Rightarrow>
          if magic \<noteq> protocolMagic then Inl FrameInvalid
          else (case read_full 4 s1 of Inl e \<Rightarrow> Inl FrameInvalid
                | Inr (header, s2) \<Rightarrow>
                    (let len = be_nat header in
                     if len = 0 \<or> len > maxHandshakePayload then Inl FrameInvalid
                     else (case read_full len s2 of Inl e \<Rightarrow> Inl FrameInvalid
                           | Inr r \<Rightarrow> Inr r))))"

definition writeHandshakePayload :: "bytes \<Rightarrow> io_error + bytes" where
  "writeHandshakePayload payload =
     (if length payload > maxHandshakePayload then Inl FrameTooLarge
      else Inr (protocolMagic @ be_bytes 4 (length payload) @ payload))"

subsection \<open>The contract of a frame format\<close>

locale framed_codec =
  fixes encode :: "bytes \<Rightarrow> bytes"
    and decode :: "bytes \<Rightarrow> io_error + (bytes \<times> bytes)"
    and sendable :: "bytes \<Rightarrow> bool"
  assumes decode_encode: "sendable f \<Longrightarrow> decode (encode f @ rest) = Inr (f, rest)"
begin

fun decode_many :: "nat \<Rightarrow> bytes \<Rightarrow> io_error + (bytes list \<times> bytes)" where
  "decode_many 0 s = Inr ([], s)"
| "decode_many (Suc n) s =
     (case decode s of Inl e \<Rightarrow> Inl e
      | Inr (f, s') \<Rightarrow> (case decode_many n s' of Inl e \<Rightarrow> Inl e
                       | Inr (fs, r) \<Rightarrow> Inr (f # fs, r)))"

lemma decode_stream:
  "list_all sendable fs \<Longrightarrow>
     decode_many (length fs) (concat (map encode fs) @ rest) = Inr (fs, rest)"
proof (induction fs)
  case Nil
  then show ?case by simp
next
  case (Cons f fs)
  then have "decode (encode f @ concat (map encode fs) @ rest) = Inr (f, concat (map encode fs) @ rest)"
    by (intro decode_encode) simp
  then show ?case using Cons by simp
qed

lemma encode_prefix_free:
  assumes "sendable f" "sendable g" "encode f @ r = encode g @ s"
  shows "f = g \<and> r = s"
proof -
  have "decode (encode g @ s) = Inr (f, r)"
    using decode_encode [OF assms(1), of r] unfolding assms(3) .
  then show ?thesis
    unfolding decode_encode [OF assms(2)] by simp
qed

end

definition ipc_encode :: "bytes \<Rightarrow> bytes" where
  "ipc_encode f = be_bytes 4 (length f) @ f"

definition ipc_sendable :: "bytes \<Rightarrow> bool" where
  "ipc_sendable f = (length f \<le> maxIPCFrameBytes)"

definition bridge_sendable :: "bytes \<Rightarrow> bool" where
  "bridge_sendable f = (0 < length f \<and> length f \<le> maximumBridgeFrame)"

definition handshake_sendable :: "bytes \<Rightarrow> bool" where
  "handshake_sendable f = (0 < length f \<and> length f \<le> maxHandshakePayload)"

lemma be_nat_len4: "n \<le> maxIPCFrameBytes \<Longrightarrow> be_nat (be_bytes 4 n) = n"
  by (rule be_nat_be_bytes) (simp add: maxIPCFrameBytes_def)

interpretation ipc: framed_codec ipc_encode readFrame ipc_sendable
  by unfold_locales (simp add: ipc_encode_def readFrame_def ipc_sendable_def be_nat_len4)

interpretation bridge: framed_codec ipc_encode readBridgeFrame bridge_sendable
proof
  fix f rest
  assume "bridge_sendable f"
  then have "0 < length f" "length f \<le> maximumBridgeFrame" by (auto simp: bridge_sendable_def)
  then show "readBridgeFrame (ipc_encode f @ rest) = Inr (f, rest)"
    by (simp add: ipc_encode_def readBridgeFrame_def be_nat_len4 maximumBridgeFrame_def
        maxIPCFrameBytes_def)
qed

interpretation handshake: framed_codec "\<lambda>f. protocolMagic @ ipc_encode f"
  readHandshakePayload handshake_sendable
proof
  fix f rest
  assume "handshake_sendable f"
  then have "0 < length f" "length f \<le> maxHandshakePayload" by (auto simp: handshake_sendable_def)
  then show "readHandshakePayload ((protocolMagic @ ipc_encode f) @ rest) = Inr (f, rest)"
    by (simp add: ipc_encode_def readHandshakePayload_def be_nat_len4 maxHandshakePayload_def
        maxIPCFrameBytes_def)
qed

lemma writeFrame_emits:
  assumes "writeFrame w f = (r, out)" "ipc_sendable f"
  shows "\<exists>rest. ipc_encode f = out @ rest" and "r = None \<Longrightarrow> out = ipc_encode f"
proof -
  obtain r1 out1 i where h: "writeAll w 0 (be_bytes 4 (length f)) = (r1, out1, i)"
    by (cases "writeAll w 0 (be_bytes 4 (length f))")
  obtain r2 out2 j where b: "writeAll w i f = (r2, out2, j)"
    by (cases "writeAll w i f")
  note specs = writeAll_spec [OF h] writeAll_spec [OF b]
  have le: "length f \<le> maxIPCFrameBytes" "length f \<le> 2 ^ 32 - 1"
    using assms(2) by (simp_all add: ipc_sendable_def maxIPCFrameBytes_def)
  have cases: "r1 \<noteq> None \<and> r = r1 \<and> out = out1 \<or> r1 = None \<and> r = r2 \<and> out = out1 @ out2"
    using assms(1) le h b by (cases r1) (auto simp: writeFrame_def)
  show "\<exists>rest. ipc_encode f = out @ rest"
    using cases specs by (auto simp: ipc_encode_def)
  show "r = None \<Longrightarrow> out = ipc_encode f"
    using cases specs by (auto simp: ipc_encode_def)
qed

subsection \<open>Unpadded base64url\<close>

text \<open>
  \<open>base64.RawURLEncoding\<close>: three bytes become four characters, a rest of one or two bytes
  becomes two or three characters. Go's decoder skips carriage returns and line feeds,
  refuses padding and every character outside the alphabet, and does not check the unused
  low bits of the last character; the code therefore compares the re-encoding.
\<close>

definition b64_char :: "nat \<Rightarrow> char" where
  "b64_char n =
     (if n < 26 then char_of (65 + n)
      else if n < 52 then char_of (71 + n)
      else if n < 62 then char_of (n - 4)
      else if n = 62 then CHR ''-''
      else CHR ''_'')"

definition b64_val :: "char \<Rightarrow> nat option" where
  "b64_val c =
     (let n = of_char c in
      if 65 \<le> n \<and> n \<le> 90 then Some (n - 65)
      else if 97 \<le> n \<and> n \<le> 122 then Some (n - 71)
      else if 48 \<le> n \<and> n \<le> 57 then Some (n + 4)
      else if c = CHR ''-'' then Some 62
      else if c = CHR ''_'' then Some 63
      else None)"

fun sextets :: "nat list \<Rightarrow> nat list" where
  "sextets [] = []"
| "sextets [a] = [a div 4, a mod 4 * 16]"
| "sextets [a, b] = [a div 4, a mod 4 * 16 + b div 16, b mod 16 * 4]"
| "sextets (a # b # c # r) =
     a div 4 # (a mod 4 * 16 + b div 16) # (b mod 16 * 4 + c div 64) # c mod 64 # sextets r"

fun unsextets :: "nat list \<Rightarrow> nat list option" where
  "unsextets [] = Some []"
| "unsextets [x] = None"
| "unsextets [x, y] = Some [x * 4 + y div 16]"
| "unsextets [x, y, z] = Some [x * 4 + y div 16, y mod 16 * 16 + z div 4]"
| "unsextets (x # y # z # w # r) =
     map_option (\<lambda>bs. (x * 4 + y div 16) # (y mod 16 * 16 + z div 4) # (z mod 4 * 64 + w) # bs)
       (unsextets r)"

definition b64_encode :: "bytes \<Rightarrow> string" where
  "b64_encode bs = map b64_char (sextets (map of_char bs))"

definition b64_decode :: "string \<Rightarrow> bytes option" where
  "b64_decode s =
     (let vs = map b64_val (filter (\<lambda>c. c \<noteq> CHR 0x0A \<and> c \<noteq> CHR 0x0D) s) in
      if None \<in> set vs then None
      else map_option (map char_of) (unsextets (map the vs)))"

lemma of_char_b64_char:
  assumes "n < 64"
  shows "(of_char (b64_char n) :: nat) =
     (if n < 26 then 65 + n else if n < 52 then 71 + n else if n < 62 then n - 4
      else if n = 62 then 45 else 95)"
  using assms by (simp add: b64_char_def)

lemma b64_char_range:
  assumes "n < 64"
  shows "b64_val (b64_char n) = Some n" and "b64_char n \<noteq> CHR 0x0A" and "b64_char n \<noteq> CHR 0x0D"
proof -
  have no: "c \<noteq> d" if "(of_char c :: nat) \<noteq> of_char d" for c d
    using that by auto
  have "45 \<le> (of_char (b64_char n) :: nat)"
    unfolding of_char_b64_char [OF assms] by arith
  then show "b64_char n \<noteq> CHR 0x0A" "b64_char n \<noteq> CHR 0x0D"
    by (intro no; simp)+
  have tail: "n = 62 \<Longrightarrow> b64_char n = CHR ''-''" "n = 63 \<Longrightarrow> b64_char n = CHR ''_''"
    by (simp_all add: b64_char_def)
  consider "n < 26" | "26 \<le> n" "n < 52" | k where "n = k + 52" "k < 10" | "n = 62" | "n = 63"
  proof -
    have "n < 26 \<or> 26 \<le> n \<and> n < 52 \<or> (n = (n - 52) + 52 \<and> n - 52 < 10) \<or> n = 62 \<or> n = 63"
      using assms by arith
    then show thesis using that by blast
  qed
  then show "b64_val (b64_char n) = Some n"
  proof cases
    case 4
    then show ?thesis using tail(1) by (simp add: b64_val_def)
  next
    case 5
    then show ?thesis using tail(2) by (simp add: b64_val_def)
  qed (simp_all add: b64_val_def of_char_b64_char Let_def)
qed

lemma sextets_lt: "\<forall>b\<in>set bs. b < 256 \<Longrightarrow> n \<in> set (sextets bs) \<Longrightarrow> n < 64"
  by (induction bs arbitrary: n rule: sextets.induct) auto

lemma sextet_first:
  assumes "(b::nat) < 256"
  shows "a div 4 * 4 + (a mod 4 * 16 + b div 16) div 16 = a"
proof -
  have "b div 16 < 16" using assms by (simp add: less_mult_imp_div_less)
  then have "(a mod 4 * 16 + b div 16) div 16 = a mod 4"
    by simp
  then show ?thesis by simp
qed

lemma sextet_second:
  assumes "(b::nat) < 256" "c < 256"
  shows "(a mod 4 * 16 + b div 16) mod 16 * 16 + (b mod 16 * 4 + c div 64) div 4 = b"
proof -
  have "b div 16 < 16" using assms(1) by (simp add: less_mult_imp_div_less)
  then have 1: "(a mod 4 * 16 + b div 16) mod 16 = b div 16" by simp
  have "c div 64 < 4" using assms(2) by (simp add: less_mult_imp_div_less)
  then have 2: "(b mod 16 * 4 + c div 64) div 4 = b mod 16" by simp
  show ?thesis unfolding 1 2 by simp
qed

lemma sextet_third:
  assumes "(c::nat) < 256"
  shows "(b mod 16 * 4 + c div 64) mod 4 * 64 + c mod 64 = c"
proof -
  have "c div 64 < 4" using assms by (simp add: less_mult_imp_div_less)
  then have "(b mod 16 * 4 + c div 64) mod 4 = c div 64" by simp
  then show ?thesis by simp
qed

lemma unsextets_sextets: "\<forall>b\<in>set bs. b < 256 \<Longrightarrow> unsextets (sextets bs) = Some bs"
proof (induction bs rule: sextets.induct)
  case 1
  then show ?case by simp
next
  case (2 a)
  then show ?case using sextet_first [of 0 a] by simp
next
  case (3 a b)
  then show ?case using sextet_first [of b a] sextet_second [of b 0 a] by simp
next
  case (4 a b c r)
  then show ?case
    using sextet_first [of b a] sextet_second [of b c a] sextet_third [of c b] by simp
qed

lemma b64_decode_encode: "b64_decode (b64_encode bs) = Some bs"
proof -
  let ?ns = "map of_char bs :: nat list"
  have lt: "\<forall>b\<in>set ?ns. b < 256" by auto
  have filt: "filter (\<lambda>c. c \<noteq> CHR 0x0A \<and> c \<noteq> CHR 0x0D) (b64_encode bs) = b64_encode bs"
    using sextets_lt [OF lt] b64_char_range(2,3) by (auto simp: b64_encode_def filter_id_conv)
  have vals: "map b64_val (b64_encode bs) = map Some (sextets ?ns)"
    using sextets_lt [OF lt] b64_char_range(1) by (auto simp: b64_encode_def)
  have "map (char_of \<circ> of_char) bs = bs" by (rule map_idI) simp
  then show ?thesis
    unfolding b64_decode_def Let_def filt vals
    using unsextets_sextets [OF lt] by (auto simp: comp_def)
qed

definition validCanonicalBase64URL :: "string \<Rightarrow> int \<Rightarrow> bool" where
  "validCanonicalBase64URL value decodedLength =
     (if value = [] \<or> decodedLength < 0 then False
      else (case b64_decode value of None \<Rightarrow> False
            | Some decoded \<Rightarrow> int (length decoded) = decodedLength \<and> b64_encode decoded = value))"

lemma validCanonicalBase64URL_iff:
  "validCanonicalBase64URL v n \<longleftrightarrow> v \<noteq> [] \<and> (\<exists>bs. int (length bs) = n \<and> v = b64_encode bs)"
  by (auto simp: validCanonicalBase64URL_def b64_decode_encode split: option.splits)

lemma b64_encode_inj: "b64_encode a = b64_encode b \<Longrightarrow> a = b"
  by (metis b64_decode_encode option.inject)

lemma b64_encode_nonempty: "bs \<noteq> [] \<Longrightarrow> b64_encode bs \<noteq> []"
  using b64_encode_inj [of bs "[]"] by (auto simp: b64_encode_def)

subsection \<open>The key-wrap transcript\<close>

text \<open>
  The bytes that bind a wrapped session key to one request: the domain label, the binding,
  a zero byte, generation and sequence, and the request.
\<close>

definition keyWrapTranscript :: "string \<Rightarrow> u64 \<Rightarrow> u64 \<Rightarrow> string \<Rightarrow> bytes" where
  "keyWrapTranscript bindingID generation sequence requestID =
     ''agent-remote/ego-browser/key-wrap/v1'' @ [CHR 0x00] @ bindingID @ [CHR 0x00] @
     be_bytes 8 (unat generation) @ be_bytes 8 (unat sequence) @ requestID"

lemma split_at_sep:
  "x @ c # a = y @ c # b \<Longrightarrow> c \<notin> set x \<Longrightarrow> c \<notin> set y \<Longrightarrow> x = y \<and> a = b"
proof (induction x arbitrary: y)
  case Nil
  then show ?case by (cases y) auto
next
  case (Cons d x)
  then show ?case by (cases y) auto
qed

lemma keyWrapTranscript_inj:
  assumes "keyWrapTranscript b g s r = keyWrapTranscript b' g' s' r'"
    and "CHR 0x00 \<notin> set b" "CHR 0x00 \<notin> set b'"
  shows "b = b' \<and> g = g' \<and> s = s' \<and> r = r'"
proof -
  have eq: "b @ CHR 0x00 # (be_bytes 8 (unat g) @ be_bytes 8 (unat s) @ r) =
        b' @ CHR 0x00 # (be_bytes 8 (unat g') @ be_bytes 8 (unat s') @ r')"
    using assms(1) by (simp add: keyWrapTranscript_def)
  note parts = split_at_sep [OF eq assms(2,3)]
  have g: "be_bytes 8 (unat g) = be_bytes 8 (unat g')"
    and rest: "be_bytes 8 (unat s) @ r = be_bytes 8 (unat s') @ r'"
    using append_eq_lengthD [OF conjunct2 [OF parts]] by simp_all
  have "be_bytes 8 (unat s) = be_bytes 8 (unat s')" "r = r'"
    using append_eq_lengthD [OF rest] by simp_all
  then show ?thesis
    using parts be_u64_inj [OF g] be_u64_inj [of s s'] by simp
qed

subsection \<open>Properties\<close>

text \<open>
  C17: Whatever the connection does with a broker IPC frame (short writes, an error at any
  point), \<open>writeFrame\<close> reports success only when the reader on the other side gets back
  exactly that frame and the bytes that follow it, and a frame above the limit is refused
  before a byte is sent.
\<close>

theorem ipc_frame_round_trip:
  assumes "writeFrame w f = (r, out)"
  shows "(r = None \<longrightarrow> readFrame (out @ rest) = Inr (f, rest)) \<and>
         (length f > maxIPCFrameBytes \<longrightarrow> r = Some FrameTooLarge \<and> out = [])"
proof (cases "ipc_sendable f")
  case True
  then show ?thesis
    using writeFrame_emits(2) [OF assms True] ipc.decode_encode [OF True, of rest]
    by (auto simp: ipc_sendable_def)
next
  case False
  then show ?thesis using assms by (auto simp: writeFrame_def ipc_sendable_def)
qed

text \<open>A writer that takes one byte per call.\<close>

lemma writeAll_bytewise: "writeAll (\<lambda>i d. (1, None)) i data = (None, data, i + length data)"
proof (induction data arbitrary: i)
  case Nil
  show ?case by (subst writeAll.simps) simp
next
  case (Cons c data)
  then show ?case by (subst writeAll.simps) simp
qed

theorem ipc_frame_round_trip_witness:
  "writeFrame (\<lambda>i d. (1, None)) ''ab'' = (None, be_bytes 4 (length ''ab'') @ ''ab'') \<and>
   readFrame ((be_bytes 4 (length ''ab'') @ ''ab'') @ ''c'') = Inr (''ab'', ''c'')"
proof -
  have run: "writeFrame (\<lambda>i d. (1, None)) ''ab'' = (None, be_bytes 4 (length ''ab'') @ ''ab'')"
    by (simp add: writeFrame_def maxIPCFrameBytes_def writeAll_bytewise)
  show ?thesis using run ipc_frame_round_trip [OF run, of "''c''"] by simp
qed

text \<open>
  The device bridge and the port-forward tunnel speak length-prefixed frames that are
  read back exactly: what \<open>writeBridgeFrame\<close> sends, \<open>readBridgeFrame\<close> returns, and every
  non-empty handshake payload the tunnel writes is accepted by its reader; two different
  streams of broker frames never have the same bytes.
\<close>

theorem control_frames_round_trip:
  "(writeBridgeFrame f = Inr out \<longrightarrow> readBridgeFrame (out @ rest) = Inr (f, rest)) \<and>
   (f \<noteq> [] \<and> writeHandshakePayload f = Inr out \<longrightarrow> readHandshakePayload (out @ rest) = Inr (f, rest)) \<and>
   (list_all ipc_sendable fs \<and> list_all ipc_sendable gs \<and> length fs = length gs \<and>
      concat (map ipc_encode fs) = concat (map ipc_encode gs) \<longrightarrow> fs = gs)"
proof (intro conjI impI)
  assume "writeBridgeFrame f = Inr out"
  then have "bridge_sendable f" "out = ipc_encode f"
    by (auto simp: writeBridgeFrame_def bridge_sendable_def ipc_encode_def split: if_splits)
  then show "readBridgeFrame (out @ rest) = Inr (f, rest)"
    using bridge.decode_encode by simp
next
  assume "f \<noteq> [] \<and> writeHandshakePayload f = Inr out"
  then have "handshake_sendable f" "out = protocolMagic @ ipc_encode f"
    by (auto simp: writeHandshakePayload_def handshake_sendable_def ipc_encode_def split: if_splits)
  then show "readHandshakePayload (out @ rest) = Inr (f, rest)"
    using handshake.decode_encode by simp
next
  assume "list_all ipc_sendable fs \<and> list_all ipc_sendable gs \<and> length fs = length gs \<and>
      concat (map ipc_encode fs) = concat (map ipc_encode gs)"
  then show "fs = gs"
    using ipc.decode_stream [of fs "[]"] ipc.decode_stream [of gs "[]"] by simp
qed

theorem control_frames_round_trip_witness:
  "readBridgeFrame ((be_bytes 4 (length ''ok'') @ ''ok'') @ ''x'') = Inr (''ok'', ''x'')"
proof -
  have "writeBridgeFrame ''ok'' = Inr (be_bytes 4 (length ''ok'') @ ''ok'')"
    by (simp add: writeBridgeFrame_def maximumBridgeFrame_def)
  then show ?thesis
    using control_frames_round_trip [of "''ok''" "be_bytes 4 (length ''ok'') @ ''ok''" "''x''" "[]" "[]"] by blast
qed

text \<open>
  A base64url field is accepted by \<open>validCanonicalBase64URL\<close> exactly when it is the
  encoding of some byte string of the required length: aliases with line breaks, padding or
  stray low bits are refused although Go's decoder takes some of them.
\<close>

theorem validCanonicalBase64URL_spec:
  "validCanonicalBase64URL v n = (v \<noteq> [] \<and> v \<in> b64_encode ` {bs. int (length bs) = n})"
  by (auto simp: validCanonicalBase64URL_iff)

end
