(* ===== verification/Ego_Contract.thy ===== *)
theory Ego_Contract
  imports Wire
begin

section \<open>The browser bridge contract\<close>

text \<open>
  The pure part of \<open>internal/egobrowser/broker.go\<close>: the broker's errors, the metadata of a
  binding (\<open>api.EgoBrowserBinding\<close>) and its validation, the validation of identifiers,
  scopes and relay envelopes, and the wrapping of a session key. Cryptographic primitives
  are arguments.
\<close>

subsection \<open>Errors\<close>

text \<open>
  \<open>fmt.Errorf("%w: detail", ErrProtocol)\<close> is \<open>ErrProtocol ''detail''\<close>; an error of another
  package is \<open>ErrForeign\<close>.
\<close>

datatype ego_error =
    ErrDisabled | ErrUnavailable | ErrLeaseRenewalRequired | ErrLeaseExpired | ErrRevoked
  | ErrReplay | ErrConcurrency | ErrProtocol string | DeadlineExceeded | Canceled
  | ErrForeign string

fun egoBrowserBrokerLogCode :: "ego_error \<Rightarrow> string" where
  "egoBrowserBrokerLogCode ErrDisabled = ''disabled''"
| "egoBrowserBrokerLogCode ErrUnavailable = ''unavailable''"
| "egoBrowserBrokerLogCode ErrLeaseRenewalRequired = ''lease_renewal_required''"
| "egoBrowserBrokerLogCode ErrLeaseExpired = ''lease_expired''"
| "egoBrowserBrokerLogCode ErrRevoked = ''binding_revoked''"
| "egoBrowserBrokerLogCode ErrReplay = ''replay''"
| "egoBrowserBrokerLogCode ErrConcurrency = ''concurrency_conflict''"
| "egoBrowserBrokerLogCode (ErrProtocol _) = ''protocol_error''"
| "egoBrowserBrokerLogCode _ = ''broker_error''"

fun executeMetricStatus :: "ego_error \<Rightarrow> string" where
  "executeMetricStatus ErrConcurrency = ''concurrency_conflict''"
| "executeMetricStatus ErrLeaseRenewalRequired = ''renewal_required''"
| "executeMetricStatus ErrLeaseExpired = ''lease_expired''"
| "executeMetricStatus ErrRevoked = ''unavailable''"
| "executeMetricStatus ErrUnavailable = ''unavailable''"
| "executeMetricStatus ErrDisabled = ''unavailable''"
| "executeMetricStatus DeadlineExceeded = ''timeout''"
| "executeMetricStatus (ErrProtocol _) = ''rejected''"
| "executeMetricStatus _ = ''unknown_result''"

fun writeErrorCode :: "ego_error \<Rightarrow> string" where
  "writeErrorCode ErrLeaseRenewalRequired = ''lease_renewal_required''"
| "writeErrorCode ErrLeaseExpired = ''lease_expired''"
| "writeErrorCode ErrRevoked = ''binding_revoked''"
| "writeErrorCode ErrReplay = ''protocol_error''"
| "writeErrorCode ErrConcurrency = ''concurrency_conflict''"
| "writeErrorCode (ErrProtocol _) = ''protocol_error''"
| "writeErrorCode _ = ''bridge_unavailable''"

subsection \<open>Identifiers\<close>

definition validOpaqueText :: "string \<Rightarrow> nat \<Rightarrow> bool" where
  "validOpaqueText value maximum =
     (value \<noteq> [] \<and> length value \<le> maximum \<and> \<not> contains_any value [CHR 0x00, CHR 0x0D, CHR 0x0A])"

definition lower_hex :: "char \<Rightarrow> bool" where
  "lower_hex c = (let n = (of_char c :: nat) in (48 \<le> n \<and> n \<le> 57) \<or> (97 \<le> n \<and> n \<le> 102))"

definition validSHA256 :: "string \<Rightarrow> bool" where
  "validSHA256 value =
     (length value = 71 \<and> has_prefix ''sha256:'' value \<and> list_all lower_hex (drop 7 value))"

text \<open>
  The label loops range over runes; a byte of a multi-byte rune and the replacement rune
  are outside the ASCII classes, so testing every byte decides the same.
\<close>

definition label_char :: "char \<Rightarrow> bool" where
  "label_char c = (let n = (of_char c :: nat) in
     (97 \<le> n \<and> n \<le> 122) \<or> (65 \<le> n \<and> n \<le> 90) \<or> (48 \<le> n \<and> n \<le> 57) \<or> c \<in> set ''-_:'')"

definition dedicatedTaskSpace :: "string \<Rightarrow> ego_error + string" where
  "dedicatedTaskSpace toolSessionID =
     (let value = ''agent-remote:'' @ toolSessionID in
      if length value > 256 then Inl (ErrProtocol ''dedicated task space identity'')
      else if \<not> list_all label_char value then Inl (ErrProtocol ''dedicated task space identity'')
      else Inr value)"

definition validTaskSpaceLabel :: "string \<Rightarrow> bool" where
  "validTaskSpaceLabel value = (value \<noteq> [] \<and> length value \<le> 128 \<and> list_all label_char value)"

record scope =
  sc_mode :: string
  sc_taskSpace :: string
  sc_tab :: string

definition normalizeScope :: "string \<Rightarrow> string \<Rightarrow> string \<Rightarrow> ego_error + scope" where
  "normalizeScope mode0 taskSpace0 tab0 =
     (let mode = trimSpace mode0; taskSpace = trimSpace taskSpace0; tab = trimSpace tab0;
          whole = \<lparr>sc_mode = ''binding'', sc_taskSpace = [], sc_tab = []\<rparr> in
      if mode = [] \<or> mode = ''binding'' then Inr whole
      else if (mode \<noteq> ''task_space'' \<and> mode \<noteq> ''task_space_tab'') \<or> taskSpace = []
              \<or> contains_any taskSpace [CHR ''*'', CHR 0x0D, CHR 0x0A] then Inr whole
      else if mode = ''task_space_tab'' \<and> (tab = [] \<or> contains_any tab [CHR ''*'', CHR 0x0D, CHR 0x0A])
        then Inr whole
      else if \<not> validOpaqueText taskSpace 256 \<or> (tab \<noteq> [] \<and> \<not> validOpaqueText tab 256)
        then Inl (ErrProtocol ''scope'')
      else Inr \<lparr>sc_mode = mode, sc_taskSpace = taskSpace, sc_tab = tab\<rparr>)"

subsection \<open>Binding metadata\<close>

record ego_binding =
  BindingID :: string
  EgoBrowserDeviceID :: string
  EncryptionPublicKey :: string
  ToolSessionID :: string
  NodeID :: string
  Status :: string
  ControlChannel :: string
  RelayBindingKind :: string
  AuthorizationMode :: string
  AuthorizationPolicyVersion :: int
  BindingGeneration :: u64
  Generation :: u64
  ReleaseProfile :: string
  SignerCertificateSHA256 :: string
  CredentialProfile :: string
  RemotePlatform :: string
  LocalPlatform :: string
  BridgeProtocolVersion :: string
  LocalRuntimeVersion :: "string option"
  EgoLiteRuntimeVersion :: "string option"
  SkillVersion :: "string option"
  TaskSpaceLabel :: "string option"
  AllowlistRevision :: u64
  AllowlistRootsDigest :: "string option"
  LearningBundleDigest :: "string option"
  ConcurrencyMode :: string
  MaxParallelRequests :: int
  Capabilities :: "string list"
  LeaseUntil :: "stamp option"
  LeaseHealth :: string
  LeaseGraceUntil :: "stamp option"
  LeaseRenewIntervalSeconds :: int
  LeaseRenewFailureGraceSeconds :: int
  AbsoluteTTLUntil :: stamp

definition normalizeGeneration :: "u64 \<Rightarrow> u64 \<Rightarrow> string + u64" where
  "normalizeGeneration explicit legacy =
     (if explicit \<noteq> 0 \<and> legacy \<noteq> 0 \<and> explicit \<noteq> legacy
      then Inl ''binding_generation and generation disagree''
      else if explicit \<noteq> 0 then Inr explicit else Inr legacy)"

definition NormalizeBindingGeneration :: "ego_binding \<Rightarrow> string + ego_binding" where
  "NormalizeBindingGeneration value =
     (case normalizeGeneration (BindingGeneration value) (Generation value) of
        Inl e \<Rightarrow> Inl e
      | Inr g \<Rightarrow> Inr (if g \<noteq> 0 then value\<lparr>BindingGeneration := g, Generation := g\<rparr> else value))"

definition requiredBridgeCapabilities :: "string list" where
  "requiredBridgeCapabilities =
     [''ego_browser_script_execute_v1'', ''ego_browser_snapshot_v1'',
      ''ego_browser_screenshot_artifact_v1'', ''ego_browser_task_space_v1'',
      ''ego_browser_concurrency_v1'']"

definition optionalBridgeCapabilities :: "string list" where
  "optionalBridgeCapabilities = [''ego_browser_file_allowlist_v1'', ''ego_browser_site_learning_v1'']"

text \<open>The first loop of \<open>validBindingCapabilities\<close>: \<open>None\<close> when it returns false.\<close>

fun capabilities_seen :: "string list \<Rightarrow> string list \<Rightarrow> string list option" where
  "capabilities_seen seen [] = Some seen"
| "capabilities_seen seen (c # cs) =
     (if c \<notin> set (requiredBridgeCapabilities @ optionalBridgeCapabilities) then None
      else if c \<in> set seen then None
      else capabilities_seen (c # seen) cs)"

definition validBindingCapabilities :: "ego_binding \<Rightarrow> bool" where
  "validBindingCapabilities binding =
     (case capabilities_seen [] (Capabilities binding) of None \<Rightarrow> False
      | Some seen \<Rightarrow>
          if list_ex (\<lambda>r. r \<notin> set seen) requiredBridgeCapabilities then False
          else if (case AllowlistRootsDigest binding of None \<Rightarrow> False | Some d \<Rightarrow> \<not> validSHA256 d) then False
          else if (case LearningBundleDigest binding of None \<Rightarrow> False | Some d \<Rightarrow> \<not> validSHA256 d) then False
          else ((''ego_browser_file_allowlist_v1'' \<in> set seen) = (AllowlistRootsDigest binding \<noteq> None))
             \<and> ((''ego_browser_site_learning_v1'' \<in> set seen) = (LearningBundleDigest binding \<noteq> None)))"

lemma capabilities_seen_iff:
  "capabilities_seen seen cs = Some out \<longleftrightarrow>
     set cs \<subseteq> set (requiredBridgeCapabilities @ optionalBridgeCapabilities)
     \<and> distinct cs \<and> set cs \<inter> set seen = {} \<and> out = rev cs @ seen"
  by (induction cs arbitrary: seen) auto

lemma validBindingCapabilities_iff:
  "validBindingCapabilities b \<longleftrightarrow>
     distinct (Capabilities b)
     \<and> set requiredBridgeCapabilities \<subseteq> set (Capabilities b)
     \<and> set (Capabilities b) \<subseteq> set requiredBridgeCapabilities \<union> set optionalBridgeCapabilities
     \<and> (''ego_browser_file_allowlist_v1'' \<in> set (Capabilities b) \<longleftrightarrow> AllowlistRootsDigest b \<noteq> None)
     \<and> (''ego_browser_site_learning_v1'' \<in> set (Capabilities b) \<longleftrightarrow> LearningBundleDigest b \<noteq> None)
     \<and> (\<forall>d. AllowlistRootsDigest b = Some d \<longrightarrow> validSHA256 d)
     \<and> (\<forall>d. LearningBundleDigest b = Some d \<longrightarrow> validSHA256 d)"
proof (cases "capabilities_seen [] (Capabilities b)")
  case None
  then have "\<not> (distinct (Capabilities b) \<and> set (Capabilities b) \<subseteq>
      set requiredBridgeCapabilities \<union> set optionalBridgeCapabilities)"
    using capabilities_seen_iff [of "[]" "Capabilities b" "rev (Capabilities b)"] by auto
  then show ?thesis using None by (auto simp: validBindingCapabilities_def)
next
  case (Some seen)
  note seen = Some [unfolded capabilities_seen_iff]
  have set: "set seen = set (Capabilities b)" using seen by simp
  have req: "list_ex (\<lambda>r. r \<notin> set (Capabilities b)) requiredBridgeCapabilities \<longleftrightarrow>
      \<not> set requiredBridgeCapabilities \<subseteq> set (Capabilities b)"
    by (auto simp: list_ex_iff)
  show ?thesis
    unfolding validBindingCapabilities_def Some option.case set req
    using seen by (auto split: option.splits)
qed

definition ProtocolVersion :: string where
  "ProtocolVersion = ''ego-browser-bridge-v1''"

definition bindingStatuses :: "string list" where
  "bindingStatuses =
     [''active'', ''connecting'', ''pending_device'', ''probing_local_browser'', ''paused'', ''expired'']"

text \<open>\<open>validateBinding\<close> of a broker whose configured node is \<open>nodeID\<close>.\<close>

definition validateBinding :: "string \<Rightarrow> ego_binding \<Rightarrow> ego_error option" where
  "validateBinding nodeID binding =
     (if \<not> validOpaqueText (BindingID binding) 128 \<or> \<not> validOpaqueText (ToolSessionID binding) 128
         \<or> BindingGeneration binding = 0 \<or> \<not> validOpaqueText (NodeID binding) 128
        then Some (ErrProtocol ''binding identity'')
      else if \<not> validCanonicalBase64URL (EncryptionPublicKey binding) 32
        then Some (ErrProtocol ''binding encryption key'')
      else if nodeID \<noteq> [] \<and> NodeID binding \<noteq> nodeID then Some (ErrProtocol ''binding node'')
      else if ControlChannel binding \<noteq> ''ego_browser_bridge'' \<or> RelayBindingKind binding \<noteq> ''ego_browser''
         \<or> AuthorizationMode binding \<noteq> ''ego_browser_script_full_trust''
         \<or> AuthorizationPolicyVersion binding \<noteq> 1
         \<or> RemotePlatform binding \<noteq> ''linux'' \<or> LocalPlatform binding \<noteq> ''macos''
        then Some (ErrProtocol ''binding contract'')
      else if Status binding \<notin> set bindingStatuses then Some (ErrProtocol ''binding status'')
      else if MaxParallelRequests binding < 1 \<or> MaxParallelRequests binding > 4
        then Some (ErrProtocol ''binding parallelism'')
      else if BridgeProtocolVersion binding \<noteq> ProtocolVersion then Some (ErrProtocol ''binding protocol'')
      else if AllowlistRevision binding = 0 \<or> \<not> validBindingCapabilities binding
        then Some (ErrProtocol ''binding capabilities'')
      else if LeaseHealth binding \<noteq> ''healthy'' \<and> LeaseHealth binding \<noteq> ''renewal_grace''
         \<and> LeaseHealth binding \<noteq> ''expired''
        then Some (ErrProtocol ''binding lease health'')
      else if AbsoluteTTLUntil binding \<noteq> NoStamp \<and> parse_stamp (AbsoluteTTLUntil binding) = None
        then Some (ErrProtocol ''binding absolute TTL'')
      else None)"

lemma validateBinding_None:
  assumes "validateBinding nodeID b = None"
  shows "validOpaqueText (BindingID b) 128" and "BindingGeneration b \<noteq> 0"
    and "1 \<le> MaxParallelRequests b" and "MaxParallelRequests b \<le> 4"
    and "Status b \<noteq> ''revoked''" and "validBindingCapabilities b"
    and "nodeID = [] \<or> NodeID b = nodeID"
  using assms
  by (auto simp: validateBinding_def bindingStatuses_def split: if_splits)

subsection \<open>Relay envelopes\<close>

record outerEnvelope =
  oe_Protocol :: string
  oe_Channel :: string
  oe_RelayBindingKind :: string
  oe_Type :: string
  oe_RequestID :: string
  oe_BindingID :: string
  oe_Generation :: u64
  oe_Sequence :: u64
  oe_Direction :: string
  oe_PayloadBytes :: int
  oe_Nonce :: string
  oe_Ciphertext :: string
  oe_AuthTag :: string
  oe_KeyWrap :: string

definition defaultMaxPayloadBytes :: int where
  "defaultMaxPayloadBytes = 16 * 1024 * 1024"

definition keyWrapBytes :: nat where
  "keyWrapBytes = 92"

text \<open>A base64url field that decodes to a given length and is the encoding of what it decodes to.\<close>

definition b64_field :: "string \<Rightarrow> int \<Rightarrow> bool" where
  "b64_field value len =
     (case b64_decode value of None \<Rightarrow> False
      | Some d \<Rightarrow> int (length d) = len \<and> b64_encode d = value)"

definition validateOuter :: "outerEnvelope \<Rightarrow> int \<Rightarrow> ego_error option" where
  "validateOuter outer wireBytes =
     (if oe_Protocol outer \<noteq> ProtocolVersion \<or> oe_Channel outer \<noteq> ''ego_browser_bridge''
         \<or> oe_RelayBindingKind outer \<noteq> ''ego_browser'' \<or> oe_Type outer \<noteq> ''execute''
         \<or> oe_Direction outer \<noteq> ''request'' \<or> \<not> validOpaqueText (oe_RequestID outer) 128
         \<or> \<not> validOpaqueText (oe_BindingID outer) 128 \<or> oe_Generation outer = 0
         \<or> oe_Sequence outer = 0 \<or> oe_PayloadBytes outer \<le> 0 \<or> wireBytes > defaultMaxPayloadBytes
        then Some (ErrProtocol ''outer metadata'')
      else if oe_KeyWrap outer \<noteq> [] then Some (ErrProtocol ''wrapper key wrap'')
      else if \<not> b64_field (oe_Nonce outer) 12 then Some (ErrProtocol ''nonce'')
      else if \<not> b64_field (oe_AuthTag outer) 16 then Some (ErrProtocol ''auth tag'')
      else if \<not> b64_field (oe_Ciphertext outer) (oe_PayloadBytes outer) then Some (ErrProtocol ''ciphertext'')
      else None)"

definition validateOuterPayload :: "outerEnvelope \<Rightarrow> int \<Rightarrow> ego_error option" where
  "validateOuterPayload outer wireBytesLimit =
     (if \<not> validOpaqueText (oe_RequestID outer) 128 \<or> \<not> validOpaqueText (oe_BindingID outer) 128
         \<or> oe_Generation outer = 0 \<or> oe_Sequence outer = 0 \<or> oe_PayloadBytes outer \<le> 0
        then Some (ErrProtocol ''outer payload metadata'')
      else if wireBytesLimit \<le> 0 then Some (ErrProtocol ''outer payload limit'')
      else if oe_KeyWrap outer \<noteq> [] then Some (ErrProtocol ''response key wrap'')
      else if \<not> b64_field (oe_Nonce outer) 12 then Some (ErrProtocol ''nonce'')
      else if \<not> b64_field (oe_AuthTag outer) 16 then Some (ErrProtocol ''auth tag'')
      else if \<not> b64_field (oe_Ciphertext outer) (oe_PayloadBytes outer) then Some (ErrProtocol ''ciphertext'')
      else None)"

definition validateRelayResponse :: "outerEnvelope \<Rightarrow> outerEnvelope \<Rightarrow> ego_error option" where
  "validateRelayResponse response request =
     (if oe_Protocol response \<noteq> ProtocolVersion \<or> oe_Channel response \<noteq> ''ego_browser_bridge''
         \<or> oe_RelayBindingKind response \<noteq> ''ego_browser'' \<or> oe_Type response \<noteq> ''execute_result''
         \<or> oe_Direction response \<noteq> ''response'' \<or> oe_RequestID response \<noteq> oe_RequestID request
         \<or> oe_BindingID response \<noteq> oe_BindingID request
         \<or> oe_Generation response \<noteq> oe_Generation request
         \<or> oe_Sequence response \<noteq> oe_Sequence request
        then Some (ErrProtocol ''relay response identity'')
      else validateOuterPayload response defaultMaxPayloadBytes)"

definition validateRelayResponseShape :: "outerEnvelope \<Rightarrow> ego_error option" where
  "validateRelayResponseShape response =
     (if oe_Protocol response \<noteq> ProtocolVersion \<or> oe_Channel response \<noteq> ''ego_browser_bridge''
         \<or> oe_RelayBindingKind response \<noteq> ''ego_browser'' \<or> oe_Type response \<noteq> ''execute_result''
         \<or> oe_Direction response \<noteq> ''response''
        then Some (ErrProtocol ''relay response metadata'')
      else validateOuterPayload response defaultMaxPayloadBytes)"

definition validateCancelOuter :: "outerEnvelope \<Rightarrow> int \<Rightarrow> ego_error option" where
  "validateCancelOuter cancel wireBytes =
     (if oe_Protocol cancel \<noteq> ProtocolVersion \<or> oe_Channel cancel \<noteq> ''ego_browser_bridge''
         \<or> oe_RelayBindingKind cancel \<noteq> ''ego_browser'' \<or> oe_Type cancel \<noteq> ''cancel''
         \<or> oe_Direction cancel \<noteq> ''request'' \<or> oe_KeyWrap cancel \<noteq> []
         \<or> wireBytes \<le> 0 \<or> wireBytes > defaultMaxPayloadBytes
        then Some (ErrProtocol ''cancel outer metadata'')
      else validateOuterPayload cancel defaultMaxPayloadBytes)"

definition validateWrappedOuter :: "outerEnvelope \<Rightarrow> int \<Rightarrow> ego_error option" where
  "validateWrappedOuter outer wireBytes =
     (if oe_KeyWrap outer = [] then Some (ErrProtocol ''missing key wrap'')
      else if \<not> b64_field (oe_KeyWrap outer) (int keyWrapBytes) then Some (ErrProtocol ''key wrap'')
      else validateOuterPayload (outer\<lparr>oe_KeyWrap := []\<rparr>) wireBytes)"

subsection \<open>Wrapping the session key\<close>

text \<open>
  The primitives \<open>wrapSessionKey\<close> calls: \<open>newPublicKey\<close> and \<open>ecdh\<close> of X25519 (which may
  fail), SHA-256 and the ChaCha20-Poly1305 \<open>Seal\<close>. The ephemeral key pair and the nonce are
  what the random source delivered, \<open>None\<close> when it failed.
\<close>

record wrap_primitives =
  newPublicKey :: "bytes \<Rightarrow> bool"
  ecdh :: "bytes \<Rightarrow> bytes \<Rightarrow> bytes option"
  sha256sum :: "bytes \<Rightarrow> bytes"
  sealBytes :: "bytes \<Rightarrow> bytes \<Rightarrow> bytes \<Rightarrow> bytes \<Rightarrow> bytes"

definition wrapSessionKey ::
  "wrap_primitives \<Rightarrow> (bytes \<times> bytes) option \<Rightarrow> bytes option \<Rightarrow> bytes \<Rightarrow> string \<Rightarrow> string \<Rightarrow> u64 \<Rightarrow>
     string \<Rightarrow> u64 \<Rightarrow> ego_error + string" where
  "wrapSessionKey prim keyPair nonceBytes sessionKey recipientEncoded bindingID generation requestID sequence =
     (if recipientEncoded = [] then Inl (ErrProtocol ''missing Bridge encryption key'')
      else if \<not> b64_field recipientEncoded 32 then Inl (ErrProtocol ''Bridge encryption key'')
      else (case b64_decode recipientEncoded of None \<Rightarrow> Inl (ErrProtocol ''Bridge encryption key'')
        | Some recipient \<Rightarrow>
            if \<not> newPublicKey prim recipient then Inl (ErrProtocol ''Bridge encryption key'')
            else (case keyPair of None \<Rightarrow> Inl (ErrProtocol ''ephemeral key'')
              | Some (secret, public) \<Rightarrow>
                  (case ecdh prim secret recipient of None \<Rightarrow> Inl (ErrProtocol ''key agreement'')
                   | Some shared \<Rightarrow>
                       (case nonceBytes of None \<Rightarrow> Inl (ErrProtocol ''key nonce'')
                        | Some nonce \<Rightarrow>
                            (let transcript = keyWrapTranscript bindingID generation sequence requestID;
                                 wrapKey = sha256sum prim
                                   (''agent-remote/ego-browser/key-wrap-key/v1'' @ [CHR 0x00] @ shared @ transcript);
                                 encrypted = sealBytes prim wrapKey nonce sessionKey transcript
                             in if length encrypted \<noteq> 48 then Inl (ErrProtocol ''key wrap size'')
                                else Inr (b64_encode (public @ nonce @ encrypted))))))))"

lemma b64_field_encode [simp]: "b64_field (b64_encode bs) n \<longleftrightarrow> int (length bs) = n"
  by (auto simp: b64_field_def b64_decode_encode)

lemma wrapSessionKey_ok:
  assumes "wrapSessionKey prim (Some (sk, pk)) (Some nonce) key rcp b g r s = Inr wrapped"
    and "length pk = 32" "length nonce = 12"
  shows "wrapped \<noteq> []" and "b64_field wrapped (int keyWrapBytes)"
proof -
  obtain sealed where w: "wrapped = b64_encode (pk @ nonce @ sealed)" "length sealed = 48"
    using assms(1) by (auto simp: wrapSessionKey_def Let_def split: if_splits option.splits)
  show "b64_field wrapped (int keyWrapBytes)"
    using w assms(2,3) by (simp add: keyWrapBytes_def)
  show "wrapped \<noteq> []"
    unfolding w(1) by (rule b64_encode_nonempty) (use w(2) in auto)
qed

lemma validateWrappedOuter_wrapped:
  assumes "validateOuter outer n = None" "wrapped \<noteq> []" "b64_field wrapped (int keyWrapBytes)" "0 < m"
  shows "validateWrappedOuter (outer\<lparr>oe_KeyWrap := wrapped\<rparr>) m = None"
  using assms
  by (auto simp: validateOuter_def validateWrappedOuter_def validateOuterPayload_def split: if_splits)

lemma validateRelayResponse_None:
  assumes "validateRelayResponse response request = None"
  shows "oe_BindingID response = oe_BindingID request" "oe_Generation response = oe_Generation request"
    "oe_RequestID response = oe_RequestID request" "oe_Sequence response = oe_Sequence request"
    "oe_Type response = ''execute_result''" "oe_Direction response = ''response''"
  using assms by (auto simp: validateRelayResponse_def split: if_splits)

subsection \<open>Properties\<close>

text \<open>
  C16: The transcript a wrapped session key is bound to identifies the request: for bindings
  the broker accepts, two transcripts are equal only for the same binding, generation,
  sequence and request.
\<close>

theorem keyWrapTranscript_identifies:
  assumes "validOpaqueText b 128" and "validOpaqueText b' 128"
  shows "keyWrapTranscript b g s r = keyWrapTranscript b' g' s' r' \<longleftrightarrow>
         b = b' \<and> g = g' \<and> s = s' \<and> r = r'"
proof -
  have "CHR 0x00 \<notin> set b" "CHR 0x00 \<notin> set b'"
    using assms by (auto simp: validOpaqueText_def contains_any_iff)
  then show ?thesis using keyWrapTranscript_inj by blast
qed

theorem keyWrapTranscript_identifies_witness:
  "validOpaqueText ''b1'' 128 \<and> validOpaqueText ''b'' 128 \<and>
   keyWrapTranscript ''b1'' 1 2 ''r'' \<noteq> keyWrapTranscript ''b'' 1 2 ''r''"
proof -
  have "validOpaqueText ''b1'' 128" "validOpaqueText ''b'' 128"
    by (simp_all add: validOpaqueText_def contains_any_def)
  then show ?thesis using keyWrapTranscript_identifies [of "''b1''" "''b''" 1 2 "''r''" 1 2 "''r''"] by simp
qed

text \<open>
  What the broker forwards is well formed: when the envelope the wrapper submitted is
  valid and the session key was wrapped for it, the envelope with that key wrap passes the
  check before sending, and the key wrap is the ephemeral public key, the nonce and 48
  sealed bytes.
\<close>

theorem wrapped_envelope_accepted:
  assumes "validateOuter outer n = None"
    and "wrapSessionKey prim (Some (sk, pk)) (Some nonce) key rcp (oe_BindingID outer)
           (oe_Generation outer) (oe_RequestID outer) (oe_Sequence outer) = Inr wrapped"
    and "length pk = 32" "length nonce = 12" "0 < wireBytes"
  shows "validateWrappedOuter (outer\<lparr>oe_KeyWrap := wrapped\<rparr>) wireBytes = None \<and>
         (\<exists>sealed. b64_decode wrapped = Some (pk @ nonce @ sealed) \<and> length sealed = 48)"
proof
  show "validateWrappedOuter (outer\<lparr>oe_KeyWrap := wrapped\<rparr>) wireBytes = None"
    using validateWrappedOuter_wrapped [OF assms(1) wrapSessionKey_ok [OF assms(2-4)] assms(5)] .
  show "\<exists>sealed. b64_decode wrapped = Some (pk @ nonce @ sealed) \<and> length sealed = 48"
    using assms(2)
    by (auto simp: wrapSessionKey_def Let_def b64_decode_encode split: if_splits option.splits)
qed

definition sample_outer :: outerEnvelope where
  "sample_outer =
     \<lparr>oe_Protocol = ProtocolVersion, oe_Channel = ''ego_browser_bridge'',
      oe_RelayBindingKind = ''ego_browser'', oe_Type = ''execute'', oe_RequestID = ''r1'',
      oe_BindingID = ''b1'', oe_Generation = 1, oe_Sequence = 7, oe_Direction = ''request'',
      oe_PayloadBytes = 3, oe_Nonce = b64_encode (replicate 12 (CHR 0x01)),
      oe_Ciphertext = b64_encode ''abc'', oe_AuthTag = b64_encode (replicate 16 (CHR 0x02)),
      oe_KeyWrap = []\<rparr>"

definition sample_primitives :: wrap_primitives where
  "sample_primitives =
     \<lparr>newPublicKey = (\<lambda>_. True), ecdh = (\<lambda>s p. Some (s @ p)), sha256sum = (\<lambda>bs. take 32 bs),
      sealBytes = (\<lambda>k n m a. m @ replicate 16 (CHR 0x00))\<rparr>"

lemma sample_outer_valid: "validateOuter sample_outer 500 = None"
  by (simp add: validateOuter_def sample_outer_def validOpaqueText_def contains_any_def
      defaultMaxPayloadBytes_def)

theorem wrapped_envelope_accepted_witness:
  "\<exists>wrapped. validateWrappedOuter (sample_outer\<lparr>oe_KeyWrap := wrapped\<rparr>) 700 = None"
proof -
  let ?pk = "replicate 32 (CHR 0x05)" and ?nonce = "replicate 12 (CHR 0x06)"
  let ?key = "replicate 32 (CHR 0x07)" and ?rcp = "b64_encode (replicate 32 (CHR 0x08))"
  have ne: "?rcp \<noteq> []" by (rule b64_encode_nonempty) simp
  obtain wrapped where "wrapSessionKey sample_primitives (Some (''sk'', ?pk)) (Some ?nonce) ?key ?rcp
      (oe_BindingID sample_outer) (oe_Generation sample_outer) (oe_RequestID sample_outer)
      (oe_Sequence sample_outer) = Inr wrapped"
    using ne by (simp add: wrapSessionKey_def sample_primitives_def b64_decode_encode Let_def)
  then show ?thesis
    using wrapped_envelope_accepted [OF sample_outer_valid, of sample_primitives "''sk''" ?pk ?nonce
        ?key ?rcp wrapped 700] by auto
qed

text \<open>
  A binding's capability list is accepted exactly when it has no duplicates, contains
  every required capability, adds only the two optional ones, and each optional capability
  is present exactly when its digest is, the digests being well formed.
\<close>

theorem validBindingCapabilities_spec:
  "validBindingCapabilities b \<longleftrightarrow>
     distinct (Capabilities b)
     \<and> set requiredBridgeCapabilities \<subseteq> set (Capabilities b)
     \<and> set (Capabilities b) \<subseteq> set requiredBridgeCapabilities \<union> set optionalBridgeCapabilities
     \<and> (''ego_browser_file_allowlist_v1'' \<in> set (Capabilities b)) = (AllowlistRootsDigest b \<noteq> None)
     \<and> (''ego_browser_site_learning_v1'' \<in> set (Capabilities b)) = (LearningBundleDigest b \<noteq> None)
     \<and> pred_option validSHA256 (AllowlistRootsDigest b)
     \<and> pred_option validSHA256 (LearningBundleDigest b)"
  unfolding validBindingCapabilities_iff
  by (cases "AllowlistRootsDigest b"; cases "LearningBundleDigest b") simp_all

end
