(* ===== verification/Relay.thy ===== *)
theory Relay
  imports Ego_Contract
begin

section \<open>Relay sessions\<close>

text \<open>
  \<open>relaySession\<close> of \<open>internal/egobrowser/broker.go\<close>: the table that matches the responses
  arriving on one relay connection with the forwarders that wait for them. A forwarder's
  result channel is a number; it has room for one result, so a second send would block the
  sender for ever. Operations that hold \<open>pendingMu\<close> are atomic. \<open>closeWithError\<close> is not:
  it marks the session closed first and drains the table later, with other operations in
  between, and \<open>sync.Once\<close> lets only one caller do so.
\<close>

subsection \<open>State\<close>

record relayRequestKey =
  rk_bindingID :: string
  rk_generation :: u64
  rk_requestID :: string
  rk_sequence :: u64

datatype relayResult = RelayFrame bytes | RelayErr ego_error

record pendingRelayRequest =
  pr_request :: outerEnvelope
  pr_result :: nat

datatype once_state = OnceFresh | OnceRunning | OnceDone

record relaySession =
  rs_pending :: "(relayRequestKey \<times> pendingRelayRequest) list"
  rs_abandoned :: "relayRequestKey list"
  rs_closed :: bool
  rs_closeOnce :: once_state
  rs_nextChan :: nat

definition newRelaySession :: relaySession where
  "newRelaySession =
     \<lparr>rs_pending = [], rs_abandoned = [], rs_closed = False, rs_closeOnce = OnceFresh, rs_nextChan = 0\<rparr>"

definition maximumAbandonedRelayRequests :: nat where
  "maximumAbandonedRelayRequests = 4096"

definition relayKey :: "outerEnvelope \<Rightarrow> relayRequestKey" where
  "relayKey envelope =
     \<lparr>rk_bindingID = oe_BindingID envelope, rk_generation = oe_Generation envelope,
      rk_requestID = oe_RequestID envelope, rk_sequence = oe_Sequence envelope\<rparr>"

subsection \<open>Operations\<close>

definition register_relay :: "relaySession \<Rightarrow> outerEnvelope \<Rightarrow> relaySession \<times> (ego_error + nat)" where
  "register_relay session request =
     (let key = relayKey request; result = rs_nextChan session;
          session = session\<lparr>rs_nextChan := Suc result\<rparr> in
      if rs_closed session then (session, Inl ErrUnavailable)
      else if key \<in> keys (rs_pending session)
        then (session, Inl (ErrProtocol ''duplicate pending relay request''))
      else if key \<in> set (rs_abandoned session)
        then (session, Inl (ErrProtocol ''reused abandoned relay request''))
      else (session\<lparr>rs_pending :=
              put key \<lparr>pr_request = request, pr_result = result\<rparr> (rs_pending session)\<rparr>, Inr result))"

definition abandon :: "relaySession \<Rightarrow> relayRequestKey \<Rightarrow> nat \<Rightarrow> relaySession \<times> ego_error option" where
  "abandon session key result =
     (case map_of (rs_pending session) key of None \<Rightarrow> (session, None)
      | Some pending \<Rightarrow>
          if pr_result pending \<noteq> result then (session, None)
          else (let session = session\<lparr>rs_pending := del key (rs_pending session)\<rparr> in
                if length (rs_abandoned session) \<ge> maximumAbandonedRelayRequests
                  then (session, Some (ErrProtocol ''too many abandoned relay requests''))
                else (session\<lparr>rs_abandoned := key # rs_abandoned session\<rparr>, None)))"

text \<open>\<open>deliver\<close> also returns what it sends on result channels.\<close>

definition deliver :: "relaySession \<Rightarrow> outerEnvelope \<Rightarrow> bytes \<Rightarrow>
    relaySession \<times> ego_error option \<times> (nat \<times> relayResult) list" where
  "deliver session response frame =
     (let key = relayKey response in
      if key \<in> set (rs_abandoned session)
        then (session\<lparr>rs_abandoned := removeAll key (rs_abandoned session)\<rparr>, None, [])
      else (case map_of (rs_pending session) key of
              None \<Rightarrow> (session, Some (ErrProtocol ''unexpected relay response''), [])
            | Some pending \<Rightarrow>
                (case validateRelayResponse response (pr_request pending) of
                   Some err \<Rightarrow> (session, Some err, [])
                 | None \<Rightarrow> (session\<lparr>rs_pending := del key (rs_pending session)\<rparr>, None,
                            [(pr_result pending, RelayFrame frame)]))))"

definition close_begin :: "relaySession \<Rightarrow> relaySession" where
  "close_begin session = session\<lparr>rs_closed := True, rs_closeOnce := OnceRunning\<rparr>"

definition close_drain :: "relaySession \<Rightarrow> ego_error \<Rightarrow> relaySession \<times> (nat \<times> relayResult) list" where
  "close_drain session reason =
     (session\<lparr>rs_pending := [], rs_abandoned := [], rs_closeOnce := OnceDone\<rparr>,
      map (\<lambda>p. (pr_result (snd p), RelayErr reason)) (rs_pending session))"

definition closeWithError :: "relaySession \<Rightarrow> ego_error \<Rightarrow> relaySession \<times> (nat \<times> relayResult) list" where
  "closeWithError session reason =
     (if rs_closeOnce session = OnceFresh then close_drain (close_begin session) reason
      else (session, []))"

text \<open>
  One turn of \<open>readRelay\<close> on a received frame and what \<open>decodeStrictJSON\<close> makes of it:
  the error is what the reader passes to \<open>failRelay\<close>.
\<close>

definition readRelay_turn :: "relaySession \<Rightarrow> bytes \<Rightarrow> outerEnvelope option \<Rightarrow>
    relaySession \<times> ego_error option \<times> (nat \<times> relayResult) list" where
  "readRelay_turn session frame decoded =
     (if length frame = 0 \<or> int (length frame) > defaultMaxPayloadBytes
        then (session, Some (ErrProtocol ''relay response size''), [])
      else (case decoded of None \<Rightarrow> (session, Some (ErrProtocol ''relay response envelope''), [])
            | Some response \<Rightarrow>
                (case validateRelayResponseShape response of
                   Some err \<Rightarrow> (session, Some err, [])
                 | None \<Rightarrow> deliver session response frame)))"

subsection \<open>Steps\<close>

datatype relay_event =
    RRegister outerEnvelope "ego_error + nat"
  | RAbandon relayRequestKey nat
  | RRead bytes "outerEnvelope option" "(nat \<times> relayResult) list"
  | RCloseBegin
  | RCloseDrain ego_error "(nat \<times> relayResult) list"

inductive relay_step :: "relaySession \<Rightarrow> relay_event \<Rightarrow> relaySession \<Rightarrow> bool" where
  "register_relay s request = (t, r) \<Longrightarrow> relay_step s (RRegister request r) t"
| "abandon s key ch = (t, e) \<Longrightarrow> relay_step s (RAbandon key ch) t"
| "readRelay_turn s frame decoded = (t, e, out) \<Longrightarrow> relay_step s (RRead frame decoded out) t"
| "rs_closeOnce s = OnceFresh \<Longrightarrow> t = close_begin s \<Longrightarrow> relay_step s RCloseBegin t"
| "rs_closeOnce s = OnceRunning \<Longrightarrow> close_drain s reason = (t, out) \<Longrightarrow>
     relay_step s (RCloseDrain reason out) t"

inductive_cases relay_stepE: "relay_step s e t"

fun relay_sends :: "relay_event \<Rightarrow> (nat \<times> relayResult) list" where
  "relay_sends (RRead _ _ out) = out"
| "relay_sends (RCloseDrain _ out) = out"
| "relay_sends _ = []"

fun relay_opened :: "relay_event \<Rightarrow> nat list" where
  "relay_opened (RRegister _ (Inr ch)) = [ch]"
| "relay_opened _ = []"

fun relay_given_up :: "relay_event \<Rightarrow> nat list" where
  "relay_given_up (RAbandon _ ch) = [ch]"
| "relay_given_up _ = []"

definition relay_channels :: "relaySession \<Rightarrow> nat list" where
  "relay_channels s = map (\<lambda>p. pr_result (snd p)) (rs_pending s)"

definition relay_inv :: "relaySession \<Rightarrow> bool" where
  "relay_inv s \<longleftrightarrow>
     wf_map (rs_pending s) \<and>
     (\<forall>(k, p) \<in> set (rs_pending s). k = relayKey (pr_request p) \<and> k \<notin> set (rs_abandoned s)) \<and>
     distinct (relay_channels s) \<and> (\<forall>ch \<in> set (relay_channels s). ch < rs_nextChan s) \<and>
     distinct (rs_abandoned s) \<and> length (rs_abandoned s) \<le> maximumAbandonedRelayRequests \<and>
     (rs_closed s \<longleftrightarrow> rs_closeOnce s \<noteq> OnceFresh) \<and>
     (rs_closeOnce s = OnceDone \<longrightarrow> rs_pending s = [] \<and> rs_abandoned s = [])"

subsection \<open>Lemmas\<close>

lemma put_fresh: "k \<notin> keys m \<Longrightarrow> put k v m = m @ [(k, v)]"
  unfolding put_def by (induction m) auto

lemma relay_channels_del:
  "wf_map (rs_pending s) \<Longrightarrow> distinct (relay_channels s) \<Longrightarrow> map_of (rs_pending s) k = Some p \<Longrightarrow>
     set (map (\<lambda>p. pr_result (snd p)) (del k (rs_pending s))) = set (relay_channels s) - {pr_result p}"
proof -
  assume wf: "wf_map (rs_pending s)" and dist: "distinct (relay_channels s)"
    and k: "map_of (rs_pending s) k = Some p"
  have inj: "inj_on (\<lambda>p. pr_result (snd p)) (set (rs_pending s))"
    using dist by (simp add: relay_channels_def distinct_map)
  have mem: "(k, p) \<in> set (rs_pending s)" using wf k by (simp add: wf_map_set)
  have "set (del k (rs_pending s)) = set (rs_pending s) - {(k, p)}"
    using wf mem by (auto simp: set_del wf_map_set)
  then show ?thesis
    using inj_on_image_set_diff [OF inj, of "set (rs_pending s)" "{(k, p)}"] mem
    by (simp add: relay_channels_def Diff_subset)
qed

lemma distinct_map_del: "distinct (map f m) \<Longrightarrow> distinct (map f (del k m))"
  by (simp add: del_def distinct_map_filter)

lemma deliver_ok:
  assumes "deliver s response frame = (t, e, out)"
  shows "(out = [] \<and> rs_pending t = rs_pending s \<and> set (rs_abandoned t) \<subseteq> set (rs_abandoned s)) \<or>
         (\<exists>p. map_of (rs_pending s) (relayKey response) = Some p \<and> e = None \<and>
            validateRelayResponse response (pr_request p) = None \<and>
            out = [(pr_result p, RelayFrame frame)] \<and>
            t = s\<lparr>rs_pending := del (relayKey response) (rs_pending s)\<rparr>)"
  using assms by (auto simp: deliver_def Let_def split: if_splits option.splits)

lemma readRelay_turn_ok:
  assumes "readRelay_turn s frame decoded = (t, e, out)"
  shows "(t = s \<and> out = []) \<or> (\<exists>response. decoded = Some response \<and> deliver s response frame = (t, e, out))"
  using assms by (auto simp: readRelay_turn_def split: if_splits option.splits)

lemma relay_inv_del:
  assumes "relay_inv s" "rs_closeOnce s \<noteq> OnceDone"
    and "set ab \<subseteq> set (rs_abandoned s) \<union> {k}" "distinct ab" "length ab \<le> maximumAbandonedRelayRequests"
  shows "relay_inv (s\<lparr>rs_pending := del k (rs_pending s), rs_abandoned := ab\<rparr>)"
proof -
  have "distinct (map (\<lambda>p. pr_result (snd p)) (del k (rs_pending s)))"
    using assms(1) by (intro distinct_map_del) (simp add: relay_inv_def relay_channels_def)
  moreover have "\<forall>(k', p) \<in> set (del k (rs_pending s)). k' = relayKey (pr_request p) \<and> k' \<notin> set ab"
    using assms(1,3) unfolding relay_inv_def set_del by fastforce
  moreover have "\<forall>ch \<in> set (map (\<lambda>p. pr_result (snd p)) (del k (rs_pending s))). ch < rs_nextChan s"
    using assms(1) unfolding relay_inv_def relay_channels_def set_map set_del by blast
  ultimately show ?thesis
    using assms(1,2,4,5) unfolding relay_inv_def relay_channels_def by simp
qed

lemma relay_inv_abandoned:
  assumes "relay_inv s" "set ab \<subseteq> set (rs_abandoned s)" "distinct ab"
    and "length ab \<le> length (rs_abandoned s)"
  shows "relay_inv (s\<lparr>rs_abandoned := ab\<rparr>)"
proof -
  have "\<forall>(k, p) \<in> set (rs_pending s). k = relayKey (pr_request p) \<and> k \<notin> set ab"
    using assms(1,2) unfolding relay_inv_def by blast
  moreover have "rs_abandoned s = [] \<Longrightarrow> ab = []" using assms(4) by simp
  ultimately show ?thesis
    using assms(1,3,4) unfolding relay_inv_def relay_channels_def by simp
qed

lemma register_inv [inv_intro]:
  assumes "register_relay s request = (t, r)" "relay_inv s"
  shows "relay_inv t"
proof (cases "\<exists>ch. r = Inr ch")
  case False
  then have "t = s\<lparr>rs_nextChan := Suc (rs_nextChan s)\<rparr>"
    using assms(1) by (auto simp: register_relay_def Let_def split: if_splits)
  then show ?thesis using assms(2) by (auto simp: relay_inv_def relay_channels_def)
next
  case True
  let ?k = "relayKey request" and ?p = "\<lparr>pr_request = request, pr_result = rs_nextChan s\<rparr>"
  have new: "?k \<notin> keys (rs_pending s)" "?k \<notin> set (rs_abandoned s)" "\<not> rs_closed s"
    and t: "t = s\<lparr>rs_nextChan := Suc (rs_nextChan s), rs_pending := rs_pending s @ [(?k, ?p)]\<rparr>"
    using assms(1) True by (auto simp: register_relay_def Let_def put_fresh split: if_splits)
  have inv: "wf_map (rs_pending s)" "distinct (relay_channels s)"
    "\<And>ch. ch \<in> set (relay_channels s) \<Longrightarrow> ch < rs_nextChan s"
    "\<And>k p. (k, p) \<in> set (rs_pending s) \<Longrightarrow> k = relayKey (pr_request p) \<and> k \<notin> set (rs_abandoned s)"
    using assms(2) by (auto simp: relay_inv_def)
  have "wf_map (rs_pending t)" using inv(1) new(1) by (simp add: t wf_map_def)
  moreover have "distinct (relay_channels t)"
    using inv(2,3) by (auto simp: t relay_channels_def)
  moreover have "\<forall>ch \<in> set (relay_channels t). ch < rs_nextChan t"
    using inv(3) by (auto simp: t relay_channels_def less_SucI)
  moreover have "\<forall>(k, p) \<in> set (rs_pending t). k = relayKey (pr_request p) \<and> k \<notin> set (rs_abandoned t)"
    using inv(4) new(2) by (auto simp: t)
  ultimately show ?thesis
    using assms(2) new(3) by (simp add: relay_inv_def t)
qed

lemma pending_not_done: "relay_inv s \<Longrightarrow> map_of (rs_pending s) k = Some p \<Longrightarrow> rs_closeOnce s \<noteq> OnceDone"
  by (auto simp: relay_inv_def)

lemma abandon_inv [inv_intro]:
  assumes "abandon s key ch = (t, e)" "relay_inv s"
  shows "relay_inv t"
proof (cases "t = s")
  case False
  then obtain p where p: "map_of (rs_pending s) key = Some p"
    and t: "\<exists>ab. t = s\<lparr>rs_pending := del key (rs_pending s), rs_abandoned := ab\<rparr> \<and>
        (ab = rs_abandoned s \<or>
         ab = key # rs_abandoned s \<and> length (rs_abandoned s) < maximumAbandonedRelayRequests)"
    using assms(1) by (auto simp: abandon_def Let_def split: if_splits option.splits)
  then obtain ab where ab: "t = s\<lparr>rs_pending := del key (rs_pending s), rs_abandoned := ab\<rparr>"
    "ab = rs_abandoned s \<or>
       ab = key # rs_abandoned s \<and> length (rs_abandoned s) < maximumAbandonedRelayRequests"
    by blast
  have "key \<notin> set (rs_abandoned s)"
    using assms(2) map_of_SomeD [OF p] by (auto simp: relay_inv_def)
  then show ?thesis
    unfolding ab(1) using assms(2) pending_not_done [OF assms(2) p] ab(2)
    by (intro relay_inv_del) (auto simp: relay_inv_def)
qed (use assms in simp)

lemma readRelay_inv [inv_intro]:
  assumes "readRelay_turn s frame decoded = (t, e, out)" "relay_inv s"
  shows "relay_inv t"
proof (cases "t = s")
  case False
  then obtain response where d: "deliver s response frame = (t, e, out)"
    using readRelay_turn_ok [OF assms(1)] by blast
  show ?thesis
  proof (cases "out = []")
    case True
    then have "t = s\<lparr>rs_abandoned := removeAll (relayKey response) (rs_abandoned s)\<rparr>"
      using d False by (auto simp: deliver_def Let_def split: if_splits option.splits)
    moreover have "distinct (removeAll (relayKey response) (rs_abandoned s))"
      using assms(2) by (auto simp: relay_inv_def distinct_removeAll)
    ultimately show ?thesis
      using assms(2) length_removeAll_less_eq [of "relayKey response" "rs_abandoned s"]
      by (simp add: relay_inv_abandoned)
  next
    case ne: False
    then obtain p where p: "map_of (rs_pending s) (relayKey response) = Some p"
      and t: "t = s\<lparr>rs_pending := del (relayKey response) (rs_pending s), rs_abandoned := rs_abandoned s\<rparr>"
      using deliver_ok [OF d] by auto
    show ?thesis
      unfolding t using assms(2) pending_not_done [OF assms(2) p]
      by (intro relay_inv_del) (auto simp: relay_inv_def)
  qed
qed (use assms in simp)

lemma close_inv [inv_intro]:
  "relay_inv s \<Longrightarrow> rs_closeOnce s \<noteq> OnceDone \<Longrightarrow> relay_inv (close_begin s)"
  "relay_inv s \<Longrightarrow> rs_closeOnce s = OnceRunning \<Longrightarrow> close_drain s r = (t, out) \<Longrightarrow> relay_inv t"
  by (auto simp: relay_inv_def close_begin_def close_drain_def relay_channels_def)

lemma relay_step_inv: "relay_step s e t \<Longrightarrow> relay_inv s \<Longrightarrow> relay_inv t"
  by (erule relay_stepE) (auto intro: inv_intro)

text \<open>
  Where the result channels go in one step: \<open>opened\<close> are new, each channel that leaves the
  table was answered or given up, and only channels that leave are answered.
\<close>

definition channel_flow :: "relaySession \<Rightarrow> relaySession \<Rightarrow> nat list \<Rightarrow> nat list \<Rightarrow> nat list \<Rightarrow> bool" where
  "channel_flow s t opened sent given_up \<longleftrightarrow>
     set (relay_channels t) \<subseteq> set (relay_channels s) \<union> set opened \<and>
     set (relay_channels s) \<union> set opened \<subseteq> set (relay_channels t) \<union> set sent \<union> set given_up \<and>
     set sent \<subseteq> set (relay_channels s) - set (relay_channels t) \<and> distinct sent \<and>
     rs_nextChan s \<le> rs_nextChan t \<and> (\<forall>ch \<in> set opened. rs_nextChan s \<le> ch \<and> ch < rs_nextChan t)"

lemma register_flow:
  assumes "register_relay s request = (t, r)"
  shows "channel_flow s t (relay_opened (RRegister request r)) [] []"
proof (cases r)
  case (Inl e)
  then show ?thesis
    using assms by (auto simp: channel_flow_def register_relay_def Let_def relay_channels_def split: if_splits)
next
  case (Inr ch)
  then have "ch = rs_nextChan s" "rs_nextChan t = Suc ch" "relay_channels t = relay_channels s @ [ch]"
    using assms by (auto simp: register_relay_def Let_def relay_channels_def put_fresh split: if_splits)
  then show ?thesis by (simp add: channel_flow_def Inr)
qed

lemma flow_removed:
  assumes "relay_inv s" "map_of (rs_pending s) k = Some p"
    and "rs_pending t = del k (rs_pending s)" "rs_nextChan t = rs_nextChan s"
  shows "set (relay_channels t) = set (relay_channels s) - {pr_result p}"
    and "pr_result p \<in> set (relay_channels s)"
proof -
  show "set (relay_channels t) = set (relay_channels s) - {pr_result p}"
    using relay_channels_del [of s k p] assms by (simp add: relay_inv_def relay_channels_def)
  show "pr_result p \<in> set (relay_channels s)"
    using map_of_SomeD [OF assms(2)] by (force simp: relay_channels_def)
qed

lemma abandon_flow:
  assumes "abandon s key ch = (t, e)" "relay_inv s"
  shows "channel_flow s t [] [] [ch]"
proof (cases "t = s")
  case False
  then obtain p where "map_of (rs_pending s) key = Some p" "pr_result p = ch"
    "rs_pending t = del key (rs_pending s)" "rs_nextChan t = rs_nextChan s"
    using assms(1) by (auto simp: abandon_def Let_def split: if_splits option.splits)
  then show ?thesis
    using flow_removed [OF assms(2)] by (auto simp: channel_flow_def)
qed (auto simp: channel_flow_def)

lemma readRelay_flow:
  assumes "readRelay_turn s frame decoded = (t, e, out)" "relay_inv s"
  shows "channel_flow s t [] (map fst out) []"
proof (cases "out = []")
  case True
  then have "rs_pending t = rs_pending s" "rs_nextChan t = rs_nextChan s"
    using readRelay_turn_ok [OF assms(1)]
    by (auto simp: deliver_def Let_def split: if_splits option.splits)
  then show ?thesis by (simp add: channel_flow_def relay_channels_def True)
next
  case False
  then obtain response where d: "deliver s response frame = (t, e, out)"
    using readRelay_turn_ok [OF assms(1)] by blast
  then obtain p where p: "map_of (rs_pending s) (relayKey response) = Some p"
    "out = [(pr_result p, RelayFrame frame)]"
    "t = s\<lparr>rs_pending := del (relayKey response) (rs_pending s)\<rparr>"
    using deliver_ok [OF d] False by blast
  then show ?thesis
    using flow_removed [OF assms(2) p(1), of t] by (auto simp: channel_flow_def)
qed

lemma close_begin_flow: "channel_flow s (close_begin s) [] [] []"
  by (simp add: channel_flow_def close_begin_def relay_channels_def)

lemma close_drain_flow:
  assumes "close_drain s reason = (t, out)" "relay_inv s"
  shows "channel_flow s t [] (map fst out) []"
proof -
  have "map fst out = relay_channels s" "relay_channels t = []" "rs_nextChan t = rs_nextChan s"
    using assms(1) by (auto simp: close_drain_def relay_channels_def)
  then show ?thesis using assms(2) by (simp add: channel_flow_def relay_inv_def)
qed

lemma relay_step_flow:
  assumes "relay_step s e t" "relay_inv s"
  shows "channel_flow s t (relay_opened e) (map fst (relay_sends e)) (relay_given_up e)"
  using assms(1)
  by (rule relay_stepE)
    (use assms(2) in \<open>simp_all add: register_flow abandon_flow readRelay_flow close_begin_flow close_drain_flow\<close>)

definition relay_spent :: "relaySession \<Rightarrow> nat \<Rightarrow> bool" where
  "relay_spent s ch \<longleftrightarrow> ch < rs_nextChan s \<and> ch \<notin> set (relay_channels s)"

interpretation relay: single_use_system relay_step relay_inv "\<lambda>e. map fst (relay_sends e)" relay_spent
proof
  fix s e t and k :: nat
  assume step: "relay_step s e t" and inv: "relay_inv s"
  note flow = relay_step_flow [OF step inv, unfolded channel_flow_def]
  show "relay_inv t" using step inv by (rule relay_step_inv)
  show "distinct (map fst (relay_sends e))" using flow by blast
  have lt: "ch \<in> set (relay_channels s) \<Longrightarrow> ch < rs_nextChan s" for ch
    using inv by (simp add: relay_inv_def)
  show "\<not> relay_spent s k" if "k \<in> set (map fst (relay_sends e))"
    using that flow unfolding relay_spent_def by blast
  show "relay_spent t k" if "k \<in> set (map fst (relay_sends e))"
  proof -
    have "k \<in> set (relay_channels s)" "k \<notin> set (relay_channels t)" using that flow by blast+
    then show ?thesis using lt flow unfolding relay_spent_def by fastforce
  qed
  show "relay_spent t k" if "relay_spent s k"
  proof -
    have "k \<notin> set (relay_opened e)" using that flow unfolding relay_spent_def by fastforce
    then show ?thesis using that flow unfolding relay_spent_def by fastforce
  qed
qed

lemma relay_runs_flow:
  assumes "runs relay_step s es t" "relay_inv s"
  shows "set (relay_channels s) \<union> set (concat (map relay_opened es)) \<subseteq>
    set (relay_channels t) \<union> set (concat (map (\<lambda>e. map fst (relay_sends e)) es))
      \<union> set (concat (map relay_given_up es))"
  using assms
proof (induction rule: runs.induct)
  case (runs_Nil s)
  then show ?case by simp
next
  case (runs_Cons s e t es u)
  note flow = relay_step_flow [OF runs_Cons.hyps(1) runs_Cons.prems, unfolded channel_flow_def]
  show ?case
    using flow runs_Cons.IH [OF relay.step_inv [OF runs_Cons.hyps(1) runs_Cons.prems]] by auto
qed

lemma relay_inv_new: "relay_inv newRelaySession"
  by (simp add: relay_inv_def newRelaySession_def relay_channels_def)

lemma relay_step_pending:
  assumes "relay_step s e t" "(k, p) \<in> set (rs_pending t)"
  shows "(k, p) \<in> set (rs_pending s) \<or> e = RRegister (pr_request p) (Inr (pr_result p))"
  using assms(1)
proof (cases rule: relay_step.cases)
  case (1 request r)
  then show ?thesis
    using assms(2) by (auto simp: register_relay_def Let_def put_fresh split: if_splits)
next
  case (2 key ch e)
  then show ?thesis
    using assms(2) by (auto simp: abandon_def Let_def set_del split: if_splits option.splits)
next
  case (3 frame decoded e out)
  then show ?thesis
    using assms(2) readRelay_turn_ok [OF 3(2)] deliver_ok by (fastforce simp: set_del)
qed (use assms(2) in \<open>auto simp: close_begin_def close_drain_def\<close>)

lemma relay_runs_pending:
  assumes "runs relay_step s es t" "(k, p) \<in> set (rs_pending t)"
  shows "(k, p) \<in> set (rs_pending s) \<or> RRegister (pr_request p) (Inr (pr_result p)) \<in> set es"
  using assms by (induction rule: runs.induct) (auto dest: relay_step_pending)

subsection \<open>Properties\<close>

text \<open>
  C15: In every interleaving of a relay session's operations, no result channel receives two
  results, so no sender blocks on a channel for ever; and once the session is closed, every
  channel handed out was answered or given up by its own forwarder, so no forwarder waits
  for a response that cannot come.
\<close>

theorem relay_answers_exactly_once:
  assumes "runs relay_step newRelaySession es t"
  shows "distinct (concat (map (\<lambda>e. map fst (relay_sends e)) es)) \<and>
         (rs_closeOnce t = OnceDone \<longrightarrow>
            set (concat (map relay_opened es)) \<subseteq>
              set (concat (map (\<lambda>e. map fst (relay_sends e)) es)) \<union> set (concat (map relay_given_up es)))"
proof (intro conjI impI)
  show "distinct (concat (map (\<lambda>e. map fst (relay_sends e)) es))"
    using relay.uses_distinct [OF assms relay_inv_new] .
  assume "rs_closeOnce t = OnceDone"
  moreover have "relay_inv t" using relay.runs_inv [OF assms relay_inv_new] .
  ultimately have "relay_channels t = []" by (simp add: relay_inv_def relay_channels_def)
  then show "set (concat (map relay_opened es)) \<subseteq>
      set (concat (map (\<lambda>e. map fst (relay_sends e)) es)) \<union> set (concat (map relay_given_up es))"
    using relay_runs_flow [OF assms relay_inv_new] by simp
qed

definition sample_response :: outerEnvelope where
  "sample_response = sample_outer\<lparr>oe_Type := ''execute_result'', oe_Direction := ''response''\<rparr>"

lemma sample_response_valid:
  "validateRelayResponseShape sample_response = None"
  "validateRelayResponse sample_response sample_outer = None"
  by (simp_all add: validateRelayResponseShape_def validateRelayResponse_def validateOuterPayload_def
      sample_response_def sample_outer_def validOpaqueText_def contains_any_def
      defaultMaxPayloadBytes_def)

definition sample_session :: relaySession where
  "sample_session = newRelaySession\<lparr>rs_nextChan := 1,
     rs_pending := [(relayKey sample_outer, \<lparr>pr_request = sample_outer, pr_result = 0\<rparr>)]\<rparr>"

lemma sample_register: "relay_step newRelaySession (RRegister sample_outer (Inr 0)) sample_session"
  by (rule relay_step.intros)
    (simp add: register_relay_def Let_def newRelaySession_def sample_session_def put_def)

theorem relay_answers_exactly_once_witness:
  "\<exists>es t. runs relay_step newRelaySession es t \<and> rs_closeOnce t = OnceDone \<and>
     distinct (concat (map (\<lambda>e. map fst (relay_sends e)) es)) \<and>
     set (concat (map (\<lambda>e. map fst (relay_sends e)) es)) = {0}"
proof -
  let ?es = "[RRegister sample_outer (Inr 0), RCloseBegin, RCloseDrain ErrRevoked [(0, RelayErr ErrRevoked)]]"
  let ?t = "fst (close_drain (close_begin sample_session) ErrRevoked)"
  have "relay_step (close_begin sample_session) (RCloseDrain ErrRevoked [(0, RelayErr ErrRevoked)]) ?t"
    by (rule relay_step.intros) (simp_all add: close_begin_def close_drain_def sample_session_def)
  moreover have "relay_step sample_session RCloseBegin (close_begin sample_session)"
    by (rule relay_step.intros) (simp_all add: sample_session_def newRelaySession_def)
  ultimately have run: "runs relay_step newRelaySession ?es ?t"
    using sample_register by blast
  moreover have "rs_closeOnce ?t = OnceDone" by (simp add: close_drain_def)
  ultimately show ?thesis
    using relay_answers_exactly_once [OF run] by (intro exI [of _ ?es] exI [of _ ?t]) simp
qed

text \<open>
  A response frame reaches a forwarder only if that forwarder registered, earlier in the
  same session, the request with the same binding, generation, request and sequence, and
  the envelope has the shape of a response: frames are never delivered across requests.
\<close>

theorem relay_delivers_to_its_request:
  assumes "runs relay_step newRelaySession (es @ RRead frame decoded out # fs) t"
    and "(ch, result) \<in> set out"
  shows "result = RelayFrame frame \<and>
         (\<exists>response request. decoded = Some response \<and> RRegister request (Inr ch) \<in> set es \<and>
            relayKey response = relayKey request \<and> validateRelayResponse response request = None)"
proof -
  obtain s u where run: "runs relay_step newRelaySession es s" and step: "relay_step s (RRead frame decoded out) u"
    using assms(1) by (auto simp: runs_append)
  from step obtain e where "readRelay_turn s frame decoded = (u, e, out)"
    by (auto elim: relay_step.cases)
  then obtain response where d: "decoded = Some response" "deliver s response frame = (u, e, out)"
    using assms(2) readRelay_turn_ok by fastforce
  then obtain p where p: "map_of (rs_pending s) (relayKey response) = Some p"
    "validateRelayResponse response (pr_request p) = None" "out = [(pr_result p, RelayFrame frame)]"
    using deliver_ok [OF d(2)] assms(2) by auto
  have "RRegister (pr_request p) (Inr (pr_result p)) \<in> set es"
    using relay_runs_pending [OF run map_of_SomeD [OF p(1)]] by (simp add: newRelaySession_def)
  moreover have "relayKey response = relayKey (pr_request p)"
    using validateRelayResponse_None [OF p(2)] by (simp add: relayKey_def)
  ultimately show ?thesis using d(1) p(2,3) assms(2) by auto
qed

theorem relay_delivers_to_its_request_witness:
  "\<exists>t. runs relay_step newRelaySession
         ([RRegister sample_outer (Inr 0)] @ RRead ''frame'' (Some sample_response) [(0, RelayFrame ''frame'')] # []) t \<and>
       relayKey sample_response = relayKey sample_outer"
proof -
  have key: "relayKey sample_response = relayKey sample_outer"
    by (simp add: relayKey_def sample_response_def)
  have "relay_step sample_session (RRead ''frame'' (Some sample_response) [(0, RelayFrame ''frame'')])
      (sample_session\<lparr>rs_pending := []\<rparr>)"
    by (rule relay_step.intros)
      (simp add: readRelay_turn_def sample_response_valid deliver_def key sample_session_def
        newRelaySession_def del_def defaultMaxPayloadBytes_def)
  then have run: "runs relay_step newRelaySession
      ([RRegister sample_outer (Inr 0)] @ RRead ''frame'' (Some sample_response) [(0, RelayFrame ''frame'')] # [])
      (sample_session\<lparr>rs_pending := []\<rparr>)"
    using sample_register by auto
  then show ?thesis using relay_delivers_to_its_request [OF run, of 0 "RelayFrame ''frame''"] by auto
qed

end
