(* ===== verification/Broker.thy ===== *)
theory Broker
  imports Relay
begin

section \<open>The browser broker: state and operations\<close>

text \<open>
  The stateful part of \<open>internal/egobrowser/broker.go\<close>. The broker's mutable objects that
  several goroutines share by pointer (\<open>*bindingState\<close>, \<open>*relaySession\<close>) live in stores
  indexed by allocation numbers, so that \<open>current != state\<close> is a comparison of numbers and
  an object that left the registry can still be closed by whoever holds it. Everything done
  while \<open>b.mu\<close> is held is one function on the state, with one reading of the clock. The clock, random bytes, answers of
  the control plane and outcomes of file operations are arguments.
\<close>

subsection \<open>Configuration\<close>

record config =
  c_Enabled :: bool
  c_NodeID :: string
  c_SocketPath :: string
  c_StateRoot :: string
  c_ControlPlaneConfigured :: bool
  c_LeaseSeconds :: int
  c_RenewIntervalSeconds :: int
  c_RenewGraceSeconds :: int
  c_AdmissionMinRemainingSeconds :: int
  c_MaxParallelRequests :: int
  c_MaxScriptBytes :: int
  c_MaxExecuteTimeoutMS :: int
  c_WrapperVersion :: string

definition defaultMaxScriptBytes :: int where
  "defaultMaxScriptBytes = 1048576"

definition defaultMaxExecuteTimeoutMS :: int where
  "defaultMaxExecuteTimeoutMS = 120000"

definition withDefaults :: "config \<Rightarrow> config" where
  "withDefaults c =
     (let positive = (\<lambda>v d :: int. if v \<le> 0 then d else v) in
      c\<lparr>c_SocketPath := (if c_SocketPath c = [] then ''/run/agent-remote-node/ego-browser-broker.sock''
                        else c_SocketPath c),
        c_StateRoot := (if c_StateRoot c = [] then ''/var/lib/agent-remote-node/ego-browser''
                        else c_StateRoot c),
        c_LeaseSeconds := positive (c_LeaseSeconds c) 60,
        c_RenewIntervalSeconds := positive (c_RenewIntervalSeconds c) 20,
        c_RenewGraceSeconds := positive (c_RenewGraceSeconds c) 10,
        c_AdmissionMinRemainingSeconds := positive (c_AdmissionMinRemainingSeconds c) 20,
        c_MaxParallelRequests := positive (c_MaxParallelRequests c) 4,
        c_MaxScriptBytes := positive (c_MaxScriptBytes c) defaultMaxScriptBytes,
        c_MaxExecuteTimeoutMS := positive (c_MaxExecuteTimeoutMS c) defaultMaxExecuteTimeoutMS,
        c_WrapperVersion := (if c_WrapperVersion c = [] then ''0.1.19'' else c_WrapperVersion c)\<rparr>)"

subsection \<open>State\<close>

record PermitRequest =
  q_Protocol :: string
  q_Type :: string
  q_StartupNonce :: string
  q_ScriptBytes :: int
  q_TimeoutMS :: int
  q_CWDLabel :: string
  q_ConcurrencyMode :: string
  q_TaskSpaceScope :: string
  q_TabScope :: string

record Permit =
  p_BindingID :: string
  p_Generation :: u64
  p_RequestID :: string
  p_Sequence :: u64
  p_ExpiresAt :: gotime
  p_MaxPayloadBytes :: int
  p_MaxScriptBytes :: int
  p_DefaultTaskSpace :: string
  p_AllowlistRevision :: u64
  p_LearningBundleDigest :: "string option"
  p_ConcurrencyMode :: string
  p_TaskSpaceScope :: string
  p_TabScope :: string
  p_SessionKey :: bytes

record bindingState =
  bs_metadata :: ego_binding
  bs_relay :: "nat option"
  bs_relayEpoch :: u64
  bs_terminal :: bool
  bs_terminalGeneration :: u64

text \<open>The channels \<open>cancel\<close> and \<open>forwardDone\<close> are only ever closed: a flag each.\<close>

record activeRequest =
  ar_bindingID :: string
  ar_generation :: u64
  ar_requestID :: string
  ar_sequence :: u64
  ar_expiresAt :: gotime
  ar_submitted :: bool
  ar_sent :: bool
  ar_serverTerminalObserved :: bool
  ar_cancel :: bool
  ar_forwardDone :: bool

text \<open>
  \<open>sequence.json\<close>: absent, refused by \<open>loadSequence\<close> with an error, or a version 1 state.
\<close>

datatype sequence_file = NoSequence | BadSequence ego_error | SequenceState u64

text \<open>
  \<open>br_detached\<close> keeps the request objects that left \<open>active\<close>: a waiter may still hold
  them. \<open>br_changed\<close> counts the broadcasts on \<open>changed\<close>. \<open>br_results\<close> is what was sent on
  result channels, as relay, channel and result.
\<close>

record broker =
  br_cfg :: config
  br_heap :: "nat \<Rightarrow> bindingState option"
  br_nextState :: nat
  br_bindings :: "(string \<times> nat) list"
  br_sessions :: "(string \<times> string) list"
  br_nonces :: "(string \<times> string) list"
  br_peerUIDs :: "(string \<times> u32) list"
  br_permits :: "(u64 \<times> Permit) list"
  br_consumed :: "(u64 \<times> gotime) list"
  br_active :: "(u64 \<times> activeRequest) list"
  br_detached :: "(u64 \<times> activeRequest) list"
  br_sequence :: u64
  br_changed :: nat
  br_closed :: bool
  br_relays :: "nat \<Rightarrow> relaySession option"
  br_nextRelay :: nat
  br_results :: "(nat \<times> nat \<times> relayResult) list"
  br_file :: sequence_file

definition loadSequence :: "string \<Rightarrow> sequence_file \<Rightarrow> ego_error + u64" where
  "loadSequence root file =
     (if root = [] then Inr 0
      else (case file of NoSequence \<Rightarrow> Inr 0 | BadSequence e \<Rightarrow> Inl e | SequenceState n \<Rightarrow> Inr n))"

text \<open>
  An attempt to replace the sequence file: it fails before the rename, the rename reports an
  existing file, or it succeeds.
\<close>

datatype attempt = AttemptFails ego_error | RenameExists | RenameOK

fun persist_loop :: "(nat \<Rightarrow> attempt) \<Rightarrow> nat list \<Rightarrow> ego_error option" where
  "persist_loop env [] = Some (ErrProtocol ''sequence persistence collision'')"
| "persist_loop env (attempt # rest) =
     (case env attempt of
        AttemptFails e \<Rightarrow> Some e
      | RenameExists \<Rightarrow> if attempt < 2 then persist_loop env rest else Some (ErrForeign ''rename'')
      | RenameOK \<Rightarrow> None)"

definition persistSequence :: "string \<Rightarrow> u64 \<Rightarrow> (nat \<Rightarrow> attempt) \<Rightarrow> sequence_file \<Rightarrow>
    sequence_file \<times> ego_error option" where
  "persistSequence root sequence env file =
     (if root = [] then (file, None)
      else (case persist_loop env [0, 1, 2] of
              None \<Rightarrow> (SequenceState sequence, None)
            | Some e \<Rightarrow> (file, Some e)))"

definition new_broker :: "config \<Rightarrow> u64 \<Rightarrow> sequence_file \<Rightarrow> broker" where
  "new_broker cfg sequence file =
     \<lparr>br_cfg = cfg, br_heap = (\<lambda>_. None), br_nextState = 0, br_bindings = [], br_sessions = [],
      br_nonces = [], br_peerUIDs = [], br_permits = [], br_consumed = [], br_active = [],
      br_detached = [], br_sequence = sequence, br_changed = 0, br_closed = False,
      br_relays = (\<lambda>_. None), br_nextRelay = 0, br_results = [], br_file = file\<rparr>"

text \<open>\<open>New\<close>, given what \<open>preparePrivateRoot\<close> answered and the sequence file it finds.\<close>

definition New_broker :: "config \<Rightarrow> ego_error option \<Rightarrow> sequence_file \<Rightarrow> ego_error + broker" where
  "New_broker config0 prepared file =
     (let config = withDefaults config0 in
      if c_MaxParallelRequests config < 1 \<or> c_MaxParallelRequests config > 4
         \<or> c_MaxScriptBytes config < 1 \<or> c_MaxScriptBytes config > defaultMaxScriptBytes
         \<or> c_MaxExecuteTimeoutMS config < 1 \<or> c_MaxExecuteTimeoutMS config > defaultMaxExecuteTimeoutMS
         \<or> c_RenewIntervalSeconds config \<ge> c_LeaseSeconds config
        then Inl (ErrProtocol ''broker limits'')
      else (case (if c_StateRoot config \<noteq> [] then prepared else None) of
              Some e \<Rightarrow> Inl e
            | None \<Rightarrow>
                (case loadSequence (c_StateRoot config) file of
                   Inl e \<Rightarrow> Inl e
                 | Inr sequence \<Rightarrow> Inr (new_broker config sequence file))))"

subsection \<open>The object stores\<close>

definition deref :: "broker \<Rightarrow> nat \<Rightarrow> bindingState" where
  "deref b r = the (br_heap b r)"

definition upd_state :: "nat \<Rightarrow> (bindingState \<Rightarrow> bindingState) \<Rightarrow> broker \<Rightarrow> broker" where
  "upd_state r f b = b\<lparr>br_heap := (br_heap b)(r := map_option f (br_heap b r))\<rparr>"

definition upd_metadata :: "nat \<Rightarrow> (ego_binding \<Rightarrow> ego_binding) \<Rightarrow> broker \<Rightarrow> broker" where
  "upd_metadata r f = upd_state r (\<lambda>st. st\<lparr>bs_metadata := f (bs_metadata st)\<rparr>)"

abbreviation metadata_of :: "broker \<Rightarrow> nat \<Rightarrow> ego_binding" where
  "metadata_of b r \<equiv> bs_metadata (deref b r)"

text \<open>
  \<open>current := b.bindings[state.metadata.BindingID]\<close> with the test that \<open>current\<close> is not nil
  and is \<open>state\<close>.
\<close>

definition is_current :: "broker \<Rightarrow> nat \<Rightarrow> bool" where
  "is_current b r = (map_of (br_bindings b) (BindingID (metadata_of b r)) = Some r)"

definition closeRelay :: "nat \<Rightarrow> ego_error \<Rightarrow> broker \<Rightarrow> broker" where
  "closeRelay r reason b =
     (case bs_relay (deref b r) of None \<Rightarrow> b
      | Some q \<Rightarrow>
          (let b = upd_state r (\<lambda>st. st\<lparr>bs_relay := None\<rparr>) b in
           case br_relays b q of None \<Rightarrow> b
           | Some session \<Rightarrow>
               (case closeWithError session reason of (session', sent) \<Rightarrow>
                  b\<lparr>br_relays := (br_relays b)(q \<mapsto> session'),
                    br_results := br_results b @ map (\<lambda>(ch, res). (q, ch, res)) sent\<rparr>)))"

definition failRelay :: "nat \<Rightarrow> nat \<Rightarrow> ego_error \<Rightarrow> broker \<Rightarrow> broker" where
  "failRelay r q reason b =
     (let b = (if bs_relay (deref b r) = Some q then upd_state r (\<lambda>st. st\<lparr>bs_relay := None\<rparr>) b else b) in
      case br_relays b q of None \<Rightarrow> b
      | Some session \<Rightarrow>
          (case closeWithError session reason of (session', sent) \<Rightarrow>
             b\<lparr>br_relays := (br_relays b)(q \<mapsto> session'),
               br_results := br_results b @ map (\<lambda>(ch, res). (q, ch, res)) sent\<rparr>))"

definition close_all :: "nat list \<Rightarrow> ego_error \<Rightarrow> broker \<Rightarrow> broker" where
  "close_all rs reason b = foldl (\<lambda>b r. closeRelay r reason b) b rs"

subsection \<open>Requests, permits and the replay window\<close>

definition notifyRequestChangeLocked :: "broker \<Rightarrow> broker" where
  "notifyRequestChangeLocked b = b\<lparr>br_changed := Suc (br_changed b)\<rparr>"

text \<open>\<open>delete(b.active, sequence)\<close>: the object stays with those who hold it.\<close>

definition drop_active :: "u64 \<Rightarrow> broker \<Rightarrow> broker" where
  "drop_active sequence b =
     (case map_of (br_active b) sequence of None \<Rightarrow> b
      | Some request \<Rightarrow> b\<lparr>br_active := del sequence (br_active b),
                          br_detached := (sequence, request) # br_detached b\<rparr>)"

definition upd_active :: "u64 \<Rightarrow> (activeRequest \<Rightarrow> activeRequest) \<Rightarrow> broker \<Rightarrow> broker" where
  "upd_active sequence f b = b\<lparr>br_active := adjust sequence f (br_active b)\<rparr>"

definition replayWindow :: gotime where
  "replayWindow = 600 * second"

definition maximumReplayEntries :: nat where
  "maximumReplayEntries = 4096"

text \<open>The scan for the oldest entry; clock readings are never the zero time.\<close>

definition oldest_entry :: "(u64 \<times> gotime) list \<Rightarrow> (u64 \<times> gotime) option" where
  "oldest_entry consumed =
     foldl (\<lambda>acc (sequence, consumedAt).
       case acc of None \<Rightarrow> Some (sequence, consumedAt)
       | Some (_, oldest) \<Rightarrow> if consumedAt < oldest then Some (sequence, consumedAt) else acc) None consumed"

lemma oldest_entry_mem: "consumed \<noteq> [] \<Longrightarrow> \<exists>e. oldest_entry consumed = Some e \<and> e \<in> set consumed"
proof (induction consumed rule: rev_induct)
  case (snoc x xs)
  show ?case
  proof (cases "xs = []")
    case True
    then show ?thesis by (cases x) (simp add: oldest_entry_def)
  next
    case False
    then obtain e where "oldest_entry xs = Some e" "e \<in> set xs" using snoc.IH by blast
    then show ?thesis by (cases x; cases e) (simp add: oldest_entry_def)
  qed
qed simp

function evict_oldest :: "nat \<Rightarrow> (u64 \<times> gotime) list \<Rightarrow> (u64 \<times> gotime) list" where
  "evict_oldest limit consumed =
     (if length consumed > limit
      then (case oldest_entry consumed of None \<Rightarrow> consumed
            | Some (oldestSequence, _) \<Rightarrow> evict_oldest limit (del oldestSequence consumed))
      else consumed)"
  by pat_completeness auto
termination
proof (relation "measure (\<lambda>(limit, consumed). length consumed)")
  fix limit and consumed :: "(u64 \<times> gotime) list" and e sequence t
  assume "length consumed > limit" "oldest_entry consumed = Some e" "(sequence, t) = e"
  then have "(sequence, t) \<in> set consumed" using oldest_entry_mem [of consumed] by fastforce
  then have "length (del sequence consumed) < length consumed"
    unfolding del_def by (rule length_filter_less) simp
  then show "((limit, del sequence consumed), limit, consumed) \<in> measure (\<lambda>(limit, consumed). length consumed)"
    by simp
qed simp

declare evict_oldest.simps [simp del]

definition pruneConsumedLocked :: "gotime \<Rightarrow> broker \<Rightarrow> broker" where
  "pruneConsumedLocked now b =
     b\<lparr>br_consumed := evict_oldest maximumReplayEntries
        (filter (\<lambda>(sequence, consumedAt). consumedAt + replayWindow > now) (br_consumed b))\<rparr>"

definition pruneExpiredPermitsLocked :: "gotime \<Rightarrow> broker \<Rightarrow> broker" where
  "pruneExpiredPermitsLocked now b =
     (let expired = map fst (filter (\<lambda>(sequence, permit). \<not> p_ExpiresAt permit > now) (br_permits b));
          gone = filter (\<lambda>(sequence, request). sequence \<in> set expired \<and> \<not> ar_submitted request) (br_active b);
          b = b\<lparr>br_permits := filter (\<lambda>(sequence, permit). p_ExpiresAt permit > now) (br_permits b),
                br_active := filter (\<lambda>(sequence, request). \<not> (sequence \<in> set expired \<and> \<not> ar_submitted request))
                               (br_active b),
                br_detached := gone @ br_detached b\<rparr>
      in if gone \<noteq> [] then notifyRequestChangeLocked b else b)"

definition clearBindingMaterialsLocked :: "gotime \<Rightarrow> string \<Rightarrow> broker \<Rightarrow> broker" where
  "clearBindingMaterialsLocked now bindingID b =
     (let b = b\<lparr>br_permits := filter (\<lambda>(sequence, permit). p_BindingID permit \<noteq> bindingID) (br_permits b)\<rparr>;
          gone = filter (\<lambda>(sequence, request). ar_bindingID request = bindingID) (br_active b);
          b = b\<lparr>br_active := filter (\<lambda>(sequence, request). ar_bindingID request \<noteq> bindingID) (br_active b),
                br_detached := map (\<lambda>(sequence, request). (sequence, request\<lparr>ar_forwardDone := True\<rparr>)) gone
                                 @ br_detached b\<rparr>;
          b = pruneConsumedLocked now b;
          b = (case map_of (br_bindings b) bindingID of None \<Rightarrow> b
               | Some r \<Rightarrow> upd_state r (\<lambda>st. st\<lparr>bs_relayEpoch := bs_relayEpoch st + 1\<rparr>) b)
      in notifyRequestChangeLocked b)"

definition releaseRequest :: "u64 \<Rightarrow> broker \<Rightarrow> broker" where
  "releaseRequest sequence b =
     (let b = b\<lparr>br_permits := del sequence (br_permits b)\<rparr> in
      case map_of (br_active b) sequence of None \<Rightarrow> b
      | Some request \<Rightarrow>
          notifyRequestChangeLocked
            (drop_active sequence (upd_active sequence (\<lambda>r. r\<lparr>ar_forwardDone := True\<rparr>) b)))"

definition activeRequestCountLocked :: "string \<Rightarrow> broker \<Rightarrow> int" where
  "activeRequestCountLocked bindingID b =
     int (length (filter (\<lambda>(sequence, request). ar_bindingID request = bindingID) (br_active b)))"

definition nextSequenceLocked :: "(nat \<Rightarrow> attempt) \<Rightarrow> broker \<Rightarrow> broker \<times> (ego_error + u64)" where
  "nextSequenceLocked env b =
     (if br_sequence b = - 1 then (b, Inl (ErrProtocol ''sequence exhausted''))
      else (let sequence = br_sequence b + 1 in
            case persistSequence (c_StateRoot (br_cfg b)) sequence env (br_file b) of
              (file, Some e) \<Rightarrow> (b\<lparr>br_file := file\<rparr>, Inl e)
            | (file, None) \<Rightarrow> (b\<lparr>br_sequence := sequence, br_file := file\<rparr>, Inr sequence)))"

text \<open>
  Random bytes: what the source delivers, or its failure. \<open>randomToken\<close> encodes the first
  \<open>n\<close> of them.
\<close>

type_synonym random = "(nat \<Rightarrow> char) option"

definition rand_read :: "nat \<Rightarrow> random \<Rightarrow> ego_error + bytes" where
  "rand_read n rnd = (case rnd of None \<Rightarrow> Inl (ErrForeign ''rand'') | Some f \<Rightarrow> Inr (map f [0..<n]))"

definition randomToken :: "nat \<Rightarrow> random \<Rightarrow> ego_error + string" where
  "randomToken n rnd = (case rand_read n rnd of Inl e \<Rightarrow> Inl e | Inr bs \<Rightarrow> Inr (b64_encode bs))"

subsection \<open>Tool sessions\<close>

text \<open>
  The loop of \<open>RegisterToolSession\<close> draws until a token is unused. \<open>draws\<close> are the draws
  the random source delivers, one per turn; \<open>None\<close> means the loop has not returned yet.
\<close>

fun register_loop :: "string \<Rightarrow> random list \<Rightarrow> broker \<Rightarrow> (broker \<times> (ego_error + string \<times> bool)) option" where
  "register_loop toolSessionID [] b = None"
| "register_loop toolSessionID (rnd # draws) b =
     (case randomToken 32 rnd of Inl e \<Rightarrow> Some (b, Inl e)
      | Inr nonce \<Rightarrow>
          if nonce \<in> keys (br_nonces b) then register_loop toolSessionID draws b
          else Some (b\<lparr>br_sessions := put toolSessionID nonce (br_sessions b),
                       br_nonces := put nonce toolSessionID (br_nonces b)\<rparr>, Inr (nonce, True)))"

definition RegisterToolSession :: "string \<Rightarrow> random list \<Rightarrow> broker \<Rightarrow>
    (broker \<times> (ego_error + string \<times> bool)) option" where
  "RegisterToolSession toolSessionID draws b =
     (if \<not> c_Enabled (br_cfg b) then Some (b, Inl ErrDisabled)
      else if \<not> validOpaqueText toolSessionID 128 then Some (b, Inl (ErrProtocol ''tool session identity''))
      else (case dedicatedTaskSpace toolSessionID of Inl e \<Rightarrow> Some (b, Inl e)
            | Inr _ \<Rightarrow>
                if br_closed b then Some (b, Inl ErrUnavailable)
                else (let nonce = get_str (br_sessions b) toolSessionID in
                      if nonce \<noteq> [] then Some (b, Inr (nonce, False))
                      else register_loop toolSessionID draws b)))"

definition VerifyToolSessionPeer :: "string \<Rightarrow> string \<Rightarrow> u32 \<Rightarrow> broker \<Rightarrow> ego_error option" where
  "VerifyToolSessionPeer toolSessionID expectedNonce uid b =
     (if \<not> c_Enabled (br_cfg b) then Some ErrDisabled
      else if \<not> validOpaqueText toolSessionID 128 \<or> \<not> validOpaqueText expectedNonce 256 \<or> uid = 0
        then Some (ErrProtocol ''tool session peer identity'')
      else if br_closed b then Some ErrUnavailable
      else if get_str (br_sessions b) toolSessionID \<noteq> expectedNonce
              \<or> get_str (br_nonces b) expectedNonce \<noteq> toolSessionID then Some ErrUnavailable
      else (case map_of (br_peerUIDs b) toolSessionID of None \<Rightarrow> Some ErrUnavailable
            | Some existingUID \<Rightarrow>
                if existingUID \<noteq> uid then Some (ErrProtocol ''tool session peer uid changed'') else None))"

text \<open>The part of \<open>AuthorizeToolSessionPeer\<close> under the write lock.\<close>

definition authorize_commit :: "string \<Rightarrow> string \<Rightarrow> u32 \<Rightarrow> broker \<Rightarrow> broker \<times> ego_error option" where
  "authorize_commit toolSessionID expectedNonce uid b =
     (if get_str (br_sessions b) toolSessionID \<noteq> expectedNonce
         \<or> get_str (br_nonces b) expectedNonce \<noteq> toolSessionID then (b, Some ErrUnavailable)
      else (case map_of (br_peerUIDs b) toolSessionID of
              Some existingUID \<Rightarrow>
                if existingUID \<noteq> uid then (b, Some (ErrProtocol ''tool session peer uid changed''))
                else (b\<lparr>br_peerUIDs := put toolSessionID uid (br_peerUIDs b)\<rparr>, None)
            | None \<Rightarrow> (b\<lparr>br_peerUIDs := put toolSessionID uid (br_peerUIDs b)\<rparr>, None)))"

definition AuthorizeToolSessionPeer :: "string \<Rightarrow> string \<Rightarrow> u32 \<Rightarrow> ego_error option \<Rightarrow> ego_error option \<Rightarrow>
    broker \<Rightarrow> broker \<times> ego_error option" where
  "AuthorizeToolSessionPeer toolSessionID expectedNonce uid listenErr grantErr b =
     (if \<not> c_Enabled (br_cfg b) then (b, Some ErrDisabled)
      else if \<not> validOpaqueText toolSessionID 128 \<or> \<not> validOpaqueText expectedNonce 256
        then (b, Some (ErrProtocol ''tool session peer identity''))
      else if get_str (br_sessions b) toolSessionID \<noteq> expectedNonce then (b, Some ErrUnavailable)
      else if toolSessionID \<in> keys (br_peerUIDs b)
        then (b, VerifyToolSessionPeer toolSessionID expectedNonce uid b)
      else if listenErr \<noteq> None then (b, listenErr)
      else if grantErr \<noteq> None then (b, grantErr)
      else authorize_commit toolSessionID expectedNonce uid b)"

definition authorizePeerUID :: "string \<Rightarrow> u32 \<Rightarrow> broker \<Rightarrow> ego_error option" where
  "authorizePeerUID startupNonce uid b =
     (let toolSessionID = get_str (br_nonces b) startupNonce in
      case map_of (br_peerUIDs b) toolSessionID of
        None \<Rightarrow> Some (ErrProtocol ''peer uid'')
      | Some expectedUID \<Rightarrow>
          if toolSessionID = [] \<or> uid \<noteq> expectedUID then Some (ErrProtocol ''peer uid'') else None)"

text \<open>The states of the bindings that belong to one tool session, in map order.\<close>

definition session_bindings :: "string \<Rightarrow> broker \<Rightarrow> (string \<times> nat) list" where
  "session_bindings toolSessionID b =
     filter (\<lambda>(bindingID, r). ToolSessionID (metadata_of b r) = toolSessionID) (br_bindings b)"

definition clear_bindings :: "gotime \<Rightarrow> string list \<Rightarrow> broker \<Rightarrow> broker" where
  "clear_bindings now ids b = foldl (\<lambda>b bid. clearBindingMaterialsLocked now bid b) b ids"

definition unregister_locked :: "gotime \<Rightarrow> string \<Rightarrow> string \<Rightarrow> broker \<Rightarrow> broker \<times> bool \<times> nat list" where
  "unregister_locked now toolSessionID expectedNonce b =
     (let nonce = get_str (br_sessions b) toolSessionID in
      if nonce = [] \<or> expectedNonce \<noteq> [] \<and> nonce \<noteq> expectedNonce then (b, False, [])
      else (let b = b\<lparr>br_sessions := del toolSessionID (br_sessions b),
                      br_nonces := del nonce (br_nonces b),
                      br_peerUIDs := del toolSessionID (br_peerUIDs b)\<rparr>;
                mine = session_bindings toolSessionID b
            in (clear_bindings now (map fst mine) b, True, map snd mine)))"

definition UnregisterToolSession :: "gotime \<Rightarrow> string \<Rightarrow> string \<Rightarrow> broker \<Rightarrow> broker \<times> bool" where
  "UnregisterToolSession now toolSessionID expectedNonce b =
     (if toolSessionID = [] then (b, False)
      else (case unregister_locked now toolSessionID expectedNonce b of
              (b, False, _) \<Rightarrow> (b, False)
            | (b, True, toClose) \<Rightarrow> (close_all toClose ErrRevoked b, True)))"

definition reload_session_locked :: "gotime \<Rightarrow> string \<Rightarrow> broker \<Rightarrow> broker \<times> nat list" where
  "reload_session_locked now toolSessionID b =
     (let mine = session_bindings toolSessionID b
      in (clear_bindings now (map fst mine) b, map snd mine))"

definition reloadToolSession :: "gotime \<Rightarrow> string \<Rightarrow> broker \<Rightarrow> broker" where
  "reloadToolSession now toolSessionID b =
     (case reload_session_locked now toolSessionID b of
        (b, toClose) \<Rightarrow> close_all toClose ErrUnavailable b)"

subsection \<open>Binding snapshots\<close>

text \<open>The first loop of \<open>SetBindings\<close>: normalised and validated metadata by identifier.\<close>

fun load_snapshot :: "string \<Rightarrow> (string \<times> ego_binding) list \<Rightarrow> ego_binding list \<Rightarrow>
    ego_error + (string \<times> ego_binding) list" where
  "load_snapshot nodeID next [] = Inr next"
| "load_snapshot nodeID next (metadata0 # rest) =
     (case NormalizeBindingGeneration metadata0 of Inl e \<Rightarrow> Inl (ErrProtocol e)
      | Inr metadata \<Rightarrow>
          (case validateBinding nodeID metadata of Some e \<Rightarrow> Inl e
           | None \<Rightarrow>
               if BindingID metadata \<in> keys next then Inl (ErrProtocol ''duplicate binding'')
               else load_snapshot nodeID (put (BindingID metadata) metadata next) rest))"

text \<open>Every entry of \<open>next\<close> is a new object.\<close>

fun alloc_states :: "(string \<times> ego_binding) list \<Rightarrow> broker \<Rightarrow> broker \<times> (string \<times> nat) list" where
  "alloc_states [] b = (b, [])"
| "alloc_states ((bid, metadata) # rest) b =
     (let r = br_nextState b;
          b = b\<lparr>br_heap := (br_heap b)(r \<mapsto> \<lparr>bs_metadata = metadata, bs_relay = None, bs_relayEpoch = 0,
                  bs_terminal = False, bs_terminalGeneration = 0\<rparr>), br_nextState := Suc r\<rparr>
      in case alloc_states rest b of (b, next) \<Rightarrow> (b, (bid, r) # next))"

definition metadata_changed :: "ego_binding \<Rightarrow> ego_binding \<Rightarrow> bool" where
  "metadata_changed old fresh =
     (ToolSessionID old \<noteq> ToolSessionID fresh \<or> AllowlistRevision old \<noteq> AllowlistRevision fresh
      \<or> LearningBundleDigest old \<noteq> LearningBundleDigest fresh \<or> Status old \<noteq> Status fresh
      \<or> LeaseHealth old \<noteq> LeaseHealth fresh)"

text \<open>
  One turn of the second loop, for the registered object \<open>old\<close> of \<open>bid\<close>: the new state,
  what \<open>next[bid]\<close> becomes, and what is appended to \<open>toClose\<close>.
\<close>

definition merge_binding :: "gotime \<Rightarrow> string \<Rightarrow> nat \<Rightarrow> (string \<times> nat) list \<Rightarrow> broker \<Rightarrow>
    broker \<times> (string \<times> nat) list \<times> nat list" where
  "merge_binding now bid old next b =
     (case map_of next bid of
        None \<Rightarrow> (clearBindingMaterialsLocked now bid b, next, [old])
      | Some fresh \<Rightarrow>
          (let freshMeta = metadata_of b fresh; oldState = deref b old; oldMeta = bs_metadata oldState in
           if BindingGeneration freshMeta < BindingGeneration oldMeta then (b, put bid old next, [])
           else if bs_terminal oldState \<and> BindingGeneration freshMeta \<le> bs_terminalGeneration oldState
             then (b, put bid old next, [])
           else
             (let (b, close1) =
                (if BindingGeneration freshMeta \<noteq> BindingGeneration oldMeta
                 then (upd_state old (\<lambda>st. st\<lparr>bs_terminal := False, bs_terminalGeneration := 0\<rparr>)
                         (clearBindingMaterialsLocked now bid b), [old])
                 else (b, []));
                  (b, close2) =
                (if metadata_changed oldMeta freshMeta
                 then (clearBindingMaterialsLocked now bid b, [old]) else (b, []))
              in (upd_metadata old (\<lambda>_. freshMeta) b, put bid old next, close1 @ close2))))"

fun merge_bindings :: "gotime \<Rightarrow> (string \<times> nat) list \<Rightarrow> (string \<times> nat) list \<Rightarrow> broker \<Rightarrow>
    broker \<times> (string \<times> nat) list \<times> nat list" where
  "merge_bindings now [] next b = (b, next, [])"
| "merge_bindings now ((bid, old) # rest) next b =
     (case merge_binding now bid old next b of (b, next, close) \<Rightarrow>
       (case merge_bindings now rest next b of (b, next, closes) \<Rightarrow> (b, next, close @ closes)))"

definition set_bindings_locked :: "gotime \<Rightarrow> (string \<times> ego_binding) list \<Rightarrow> broker \<Rightarrow> broker \<times> nat list" where
  "set_bindings_locked now snapshot b =
     (case alloc_states snapshot b of (b, next) \<Rightarrow>
       (case merge_bindings now (br_bindings b) next b of (b, next, toClose) \<Rightarrow>
          (b\<lparr>br_bindings := next\<rparr>, toClose)))"

definition SetBindings :: "gotime \<Rightarrow> ego_binding list \<Rightarrow> broker \<Rightarrow> broker \<times> ego_error option" where
  "SetBindings now bindings b =
     (if \<not> c_Enabled (br_cfg b) then (b, Some ErrDisabled)
      else (case load_snapshot (c_NodeID (br_cfg b)) [] bindings of
              Inl e \<Rightarrow> (b, Some e)
            | Inr snapshot \<Rightarrow>
                (case set_bindings_locked now snapshot b of
                   (b, toClose) \<Rightarrow> (close_all toClose ErrRevoked b, None))))"

definition Bindings :: "broker \<Rightarrow> ego_binding list" where
  "Bindings b = map (\<lambda>(bid, r). metadata_of b r) (br_bindings b)"

definition Refresh :: "gotime \<Rightarrow> ego_error + ego_binding list \<Rightarrow> broker \<Rightarrow> broker \<times> ego_error option" where
  "Refresh now response b =
     (if \<not> c_Enabled (br_cfg b) then (b, Some ErrDisabled)
      else if \<not> c_ControlPlaneConfigured (br_cfg b) then (b, Some ErrUnavailable)
      else (case response of Inl e \<Rightarrow> (b, Some e)
            | Inr items \<Rightarrow>
                if list_ex (\<lambda>binding. c_NodeID (br_cfg b) \<noteq> [] \<and> NodeID binding \<noteq> c_NodeID (br_cfg b)) items
                  then (b, Some (ErrProtocol ''binding node mismatch''))
                else SetBindings now items b))"

subsection \<open>Looking bindings up\<close>

definition binding :: "string \<Rightarrow> broker \<Rightarrow> nat option" where
  "binding bindingID b =
     (if bindingID \<noteq> [] then map_of (br_bindings b) bindingID
      else (case br_bindings b of [(_, r)] \<Rightarrow> Some r | _ \<Rightarrow> None))"

definition sessionForNonceLocked :: "string \<Rightarrow> broker \<Rightarrow> ego_error + string" where
  "sessionForNonceLocked nonce b =
     (if \<not> validOpaqueText nonce 256 then Inl (ErrProtocol ''session nonce'')
      else (let toolSessionID = get_str (br_nonces b) nonce in
            if toolSessionID = [] \<or> get_str (br_sessions b) toolSessionID \<noteq> nonce then Inl ErrUnavailable
            else Inr toolSessionID))"

definition bindingForSessionLocked :: "string \<Rightarrow> broker \<Rightarrow> ego_error + nat" where
  "bindingForSessionLocked toolSessionID b =
     (case session_bindings toolSessionID b of
        [] \<Rightarrow> Inl ErrUnavailable
      | [(_, r)] \<Rightarrow> Inr r
      | _ \<Rightarrow> Inl (ErrProtocol ''ambiguous tool session binding''))"

definition bindingForNonce :: "string \<Rightarrow> broker \<Rightarrow> ego_error + string \<times> nat" where
  "bindingForNonce nonce b =
     (case sessionForNonceLocked nonce b of Inl e \<Rightarrow> Inl e
      | Inr toolSessionID \<Rightarrow>
          (case bindingForSessionLocked toolSessionID b of Inl e \<Rightarrow> Inl e
           | Inr r \<Rightarrow> Inr (toolSessionID, r)))"

subsection \<open>Leases\<close>

definition expireBindingLocked :: "gotime \<Rightarrow> nat \<Rightarrow> broker \<Rightarrow> broker" where
  "expireBindingLocked now r b =
     (let b = upd_metadata r (\<lambda>m. m\<lparr>Status := ''expired'', LeaseHealth := ''expired'', LeaseGraceUntil := None\<rparr>) b;
          b = upd_state r (\<lambda>st. st\<lparr>bs_terminal := True,
                 bs_terminalGeneration := BindingGeneration (bs_metadata st)\<rparr>) b
      in clearBindingMaterialsLocked now (BindingID (metadata_of b r)) b)"

definition expire_locked :: "gotime \<Rightarrow> nat \<Rightarrow> broker \<Rightarrow> broker \<times> bool" where
  "expire_locked now r b =
     (if is_current b r \<and> Status (metadata_of b r) = ''active'' then (expireBindingLocked now r b, True)
      else (b, False))"

definition expireBinding :: "gotime \<Rightarrow> nat \<Rightarrow> broker \<Rightarrow> broker" where
  "expireBinding now r b =
     (case expire_locked now r b of (b, changed) \<Rightarrow> if changed then closeRelay r ErrLeaseExpired b else b)"

definition mark_failure_locked :: "gotime \<Rightarrow> nat \<Rightarrow> broker \<Rightarrow> broker \<times> bool" where
  "mark_failure_locked now r b =
     (let m = metadata_of b r in
      if \<not> is_current b r \<or> Status m \<noteq> ''active'' \<or> bs_terminal (deref b r) \<or> LeaseHealth m = ''expired''
        then (b, False)
      else
        (let closeConnection =
               (LeaseHealth m = ''renewal_grace'' \<and>
                (case LeaseGraceUntil m of None \<Rightarrow> False
                 | Some g \<Rightarrow> (case parse_stamp g of None \<Rightarrow> True | Some graceUntil \<Rightarrow> \<not> graceUntil > now)));
             b = (if closeConnection then expireBindingLocked now r b
                  else upd_metadata r (\<lambda>m. m\<lparr>LeaseHealth := ''renewal_grace'',
                         LeaseGraceUntil :=
                           (if LeaseGraceUntil m = None \<or> LeaseGraceUntil m = Some NoStamp
                            then Some (Stamp (now + c_RenewGraceSeconds (br_cfg b) * second))
                            else LeaseGraceUntil m)\<rparr>) b)
         in (clearBindingMaterialsLocked now (BindingID (metadata_of b r)) b, closeConnection)))"

definition markRenewalFailureFor :: "gotime \<Rightarrow> nat \<Rightarrow> broker \<Rightarrow> broker" where
  "markRenewalFailureFor now r b =
     (case mark_failure_locked now r b of
        (b, closeConnection) \<Rightarrow> if closeConnection then closeRelay r ErrLeaseExpired b else b)"

definition markRenewalFailure :: "gotime \<Rightarrow> broker \<Rightarrow> broker \<times> ego_error" where
  "markRenewalFailure now b =
     (foldl (\<lambda>b r. markRenewalFailureFor now r b) b (map snd (br_bindings b)), ErrLeaseRenewalRequired)"

record EgoBrowserNodeRenewData =
  rd_BindingID :: string
  rd_BindingGeneration :: u64
  rd_LeaseUntil :: "stamp option"
  rd_LeaseHealth :: string
  rd_LeaseGraceUntil :: "stamp option"
  rd_AbsoluteTTLUntil :: stamp

text \<open>\<open>renewBinding\<close> before the call to the control plane: the metadata the call is about.\<close>

definition renew_precheck :: "nat \<Rightarrow> broker \<Rightarrow> ego_error + ego_binding" where
  "renew_precheck r b =
     (if \<not> c_ControlPlaneConfigured (br_cfg b) then Inl ErrLeaseRenewalRequired
      else if \<not> is_current b r then Inl ErrUnavailable
      else (let m = metadata_of b r in
            if Status m \<noteq> ''active'' \<or> BindingGeneration m = 0 then Inl ErrUnavailable else Inr m))"

text \<open>
  The checks on the answer; \<open>clk i\<close> is the \<open>i\<close>-th clock reading of the call. An error
  here is followed by \<open>markRenewalFailureFor\<close>.
\<close>

definition renew_answer :: "(nat \<Rightarrow> gotime) \<Rightarrow> ego_binding \<Rightarrow> ego_error + EgoBrowserNodeRenewData \<Rightarrow>
    ego_error + EgoBrowserNodeRenewData" where
  "renew_answer clk m response =
     (case response of Inl e \<Rightarrow> Inl e
      | Inr d \<Rightarrow>
          if rd_BindingID d \<noteq> [] \<and> rd_BindingID d \<noteq> BindingID m then Inl (ErrProtocol ''renewal binding'')
          else if rd_BindingGeneration d \<noteq> BindingGeneration m \<or> rd_LeaseHealth d \<noteq> ''healthy''
             \<or> rd_LeaseUntil d = None \<or> rd_LeaseUntil d = Some NoStamp
            then Inl (ErrProtocol ''renewal response'')
          else (case parse_stamp (the (rd_LeaseUntil d)) of
                  None \<Rightarrow> Inl (ErrProtocol ''renewal lease timestamp'')
                | Some leaseUntil \<Rightarrow>
                    if \<not> leaseUntil > clk 0 then Inl (ErrProtocol ''renewal lease timestamp'')
                    else (let absoluteTTL = (if rd_AbsoluteTTLUntil d = NoStamp then AbsoluteTTLUntil m
                                             else rd_AbsoluteTTLUntil d) in
                          case parse_stamp absoluteTTL of
                            None \<Rightarrow> Inl (ErrProtocol ''renewal absolute TTL'')
                          | Some absUntil \<Rightarrow>
                              if \<not> absUntil > clk 1 \<or> leaseUntil > absUntil then Inl (ErrProtocol ''renewal absolute TTL'')
                              else Inr (d\<lparr>rd_AbsoluteTTLUntil := absoluteTTL\<rparr>))))"

definition renew_commit :: "nat \<Rightarrow> ego_binding \<Rightarrow> EgoBrowserNodeRenewData \<Rightarrow> broker \<Rightarrow> broker \<times> ego_error option" where
  "renew_commit r m d b =
     (if map_of (br_bindings b) (BindingID m) \<noteq> Some r
         \<or> BindingGeneration (metadata_of b r) \<noteq> BindingGeneration m
         \<or> Status (metadata_of b r) \<noteq> ''active'' \<or> bs_terminal (deref b r)
        then (b, Some ErrRevoked)
      else (upd_metadata r (\<lambda>m. m\<lparr>BindingGeneration := rd_BindingGeneration d,
               Generation := rd_BindingGeneration d, LeaseUntil := rd_LeaseUntil d,
               LeaseHealth := rd_LeaseHealth d, LeaseGraceUntil := rd_LeaseGraceUntil d,
               AbsoluteTTLUntil := rd_AbsoluteTTLUntil d\<rparr>) b, None))"

definition renewBinding :: "(nat \<Rightarrow> gotime) \<Rightarrow> ego_error + EgoBrowserNodeRenewData \<Rightarrow> nat \<Rightarrow> broker \<Rightarrow>
    broker \<times> ego_error option" where
  "renewBinding clk response r b =
     (case renew_precheck r b of Inl e \<Rightarrow> (b, Some e)
      | Inr m \<Rightarrow>
          (case renew_answer clk m response of
             Inl e \<Rightarrow> (markRenewalFailureFor (clk 2) r b, Some e)
           | Inr d \<Rightarrow> renew_commit r m d b))"

text \<open>\<open>ensureLease\<close>; \<open>clk 3\<close> and \<open>clk 4\<close> are its own readings, \<open>clk 5\<close> the one of \<open>expireBinding\<close>.\<close>

definition ensureLease :: "(nat \<Rightarrow> gotime) \<Rightarrow> ego_error + EgoBrowserNodeRenewData \<Rightarrow> nat \<Rightarrow> broker \<Rightarrow>
    broker \<times> ego_error option" where
  "ensureLease clk response r b =
     (if \<not> is_current b r then (b, Some ErrUnavailable)
      else
        (let m = metadata_of b r;
             renew = (\<lambda>failure. case renewBinding clk response r b of
                        (b, Some _) \<Rightarrow> (b, Some failure) | (b, None) \<Rightarrow> (b, None)) in
         if Status m = ''expired'' \<or> LeaseHealth m = ''expired'' then (b, Some ErrLeaseExpired)
         else if Status m \<noteq> ''active'' then (b, Some ErrUnavailable)
         else if LeaseHealth m \<noteq> ''healthy'' then
           (if LeaseHealth m = ''renewal_grace'' \<and>
               (case LeaseGraceUntil m of None \<Rightarrow> False
                | Some g \<Rightarrow> (case parse_stamp g of None \<Rightarrow> False | Some graceUntil \<Rightarrow> \<not> graceUntil > clk 3))
            then (expireBinding (clk 5) r b, Some ErrLeaseExpired)
            else (b, Some ErrLeaseRenewalRequired))
         else if AbsoluteTTLUntil m \<noteq> NoStamp \<and> parse_stamp (AbsoluteTTLUntil m) = None
           then (b, Some (ErrProtocol ''absolute TTL timestamp''))
         else if AbsoluteTTLUntil m \<noteq> NoStamp \<and> \<not> the (parse_stamp (AbsoluteTTLUntil m)) > clk 4
           then (b, Some ErrLeaseExpired)
         else if LeaseUntil m = None \<or> LeaseUntil m = Some NoStamp then renew ErrLeaseRenewalRequired
         else (case parse_stamp (the (LeaseUntil m)) of
                 None \<Rightarrow> (b, Some (ErrProtocol ''lease timestamp''))
               | Some leaseUntil \<Rightarrow>
                   if \<not> leaseUntil > clk 4 then renew ErrLeaseExpired
                   else if leaseUntil - clk 4 < c_AdmissionMinRemainingSeconds (br_cfg b) * second
                     then renew ErrLeaseRenewalRequired
                   else (b, None))))"

text \<open>
  One turn of \<open>RenewDue\<close>: \<open>clk 3\<close> to \<open>clk 5\<close> are the readings for the absolute limit, the
  grace period and the lease, \<open>clk 6\<close> the one of \<open>expireBinding\<close>.
\<close>

definition renew_due :: "(nat \<Rightarrow> gotime) \<Rightarrow> ego_error + EgoBrowserNodeRenewData \<Rightarrow> nat \<Rightarrow> broker \<Rightarrow>
    broker \<times> ego_error option" where
  "renew_due clk response r b =
     (if \<not> is_current b r then (b, None)
      else
        (let m = metadata_of b r; expire = expireBinding (clk 6) r b in
         if Status m \<noteq> ''active'' \<and> Status m \<noteq> ''expired'' then (b, None)
         else if Status m = ''expired'' \<or> LeaseHealth m = ''expired'' then (expire, Some ErrLeaseExpired)
         else if AbsoluteTTLUntil m \<noteq> NoStamp \<and> parse_stamp (AbsoluteTTLUntil m) = None
           then (expire, Some (ErrProtocol ''absolute TTL timestamp''))
         else if AbsoluteTTLUntil m \<noteq> NoStamp \<and> \<not> the (parse_stamp (AbsoluteTTLUntil m)) > clk 3
           then (expire, Some ErrLeaseExpired)
         else if LeaseHealth m = ''renewal_grace'' then
           (case LeaseGraceUntil m of
              None \<Rightarrow> (expire, Some (ErrProtocol ''renewal grace timestamp''))
            | Some g \<Rightarrow>
                (case parse_stamp g of
                   None \<Rightarrow> (expire, Some (ErrProtocol ''renewal grace timestamp''))
                 | Some graceUntil \<Rightarrow>
                     if \<not> graceUntil > clk 4 then (expire, Some ErrLeaseExpired)
                     else renewBinding clk response r b))
         else if LeaseHealth m \<noteq> ''healthy'' then (b, None)
         else if (case LeaseUntil m of None \<Rightarrow> True
                  | Some l \<Rightarrow> (case parse_stamp l of None \<Rightarrow> True
                      | Some leaseUntil \<Rightarrow>
                          leaseUntil - clk 5 \<le> c_AdmissionMinRemainingSeconds (br_cfg b) * second))
           then renewBinding clk response r b
         else (b, None)))"

definition RenewDue :: "(nat \<Rightarrow> nat \<Rightarrow> gotime) \<Rightarrow> (nat \<Rightarrow> ego_error + EgoBrowserNodeRenewData) \<Rightarrow> broker \<Rightarrow>
    broker \<times> ego_error option" where
  "RenewDue clk response b =
     (if \<not> c_Enabled (br_cfg b) then (b, Some ErrDisabled)
      else foldl (\<lambda>(b, firstErr) r. case renew_due (clk r) (response r) r b of
             (b, err) \<Rightarrow> (b, if firstErr = None then err else firstErr))
           (b, None) (map snd (br_bindings b)))"

subsection \<open>Permits\<close>

definition permit_request_checks :: "PermitRequest \<Rightarrow> broker \<Rightarrow> ego_error option" where
  "permit_request_checks request b =
     (if \<not> c_Enabled (br_cfg b) then Some ErrDisabled
      else if q_Protocol request \<noteq> ProtocolVersion \<or> q_Type request \<noteq> ''permit_request''
        then Some (ErrProtocol ''permit request metadata'')
      else if q_ScriptBytes request \<le> 0 \<or> q_ScriptBytes request > c_MaxScriptBytes (br_cfg b)
        then Some (ErrProtocol ''script size'')
      else if q_TimeoutMS request \<le> 0 \<or> q_TimeoutMS request > c_MaxExecuteTimeoutMS (br_cfg b)
        then Some (ErrProtocol ''timeout'')
      else if \<not> validOpaqueText (q_CWDLabel request) 128 \<or> contains_str (q_CWDLabel request) ''..''
        then Some (ErrProtocol ''cwd label'')
      else None)"

text \<open>\<open>IssuePermit\<close> up to the lease: tool session, binding, default task space and scope.\<close>

definition permit_scope :: "PermitRequest \<Rightarrow> broker \<Rightarrow> ego_error + (string \<times> nat \<times> string \<times> scope)" where
  "permit_scope request b =
     (case permit_request_checks request b of Some e \<Rightarrow> Inl e
      | None \<Rightarrow>
          (case bindingForNonce (q_StartupNonce request) b of Inl _ \<Rightarrow> Inl ErrUnavailable
           | Inr (toolSessionID, r) \<Rightarrow>
               (case dedicatedTaskSpace toolSessionID of Inl e \<Rightarrow> Inl e
                | Inr defaultTaskSpace \<Rightarrow>
                    (case normalizeScope (q_ConcurrencyMode request) (q_TaskSpaceScope request)
                            (q_TabScope request) of
                       Inl e \<Rightarrow> Inl e
                     | Inr sc \<Rightarrow>
                         if sc_mode sc \<noteq> ''binding'' \<and> sc_taskSpace sc \<noteq> defaultTaskSpace
                           then Inl (ErrProtocol ''task space scope is not dedicated to the tool session'')
                         else Inr (toolSessionID, r, defaultTaskSpace, sc)))))"

text \<open>When the permit expires: twenty seconds from now, cut to the lease and the absolute limit.\<close>

definition permit_expiry :: "gotime \<Rightarrow> ego_binding \<Rightarrow> ego_error + gotime" where
  "permit_expiry now m =
     (let expiresAt = now + 20 * second in
      case (case LeaseUntil m of None \<Rightarrow> Inr expiresAt
            | Some l \<Rightarrow> if l = NoStamp then Inr expiresAt
                else (case parse_stamp l of None \<Rightarrow> Inl (ErrProtocol ''lease timestamp'')
                      | Some leaseUntil \<Rightarrow> Inr (if leaseUntil < expiresAt then leaseUntil else expiresAt))) of
        Inl e \<Rightarrow> Inl e
      | Inr expiresAt \<Rightarrow>
          (case (if AbsoluteTTLUntil m = NoStamp then Inr expiresAt
                 else (case parse_stamp (AbsoluteTTLUntil m) of
                         None \<Rightarrow> Inl (ErrProtocol ''absolute TTL timestamp'')
                       | Some absoluteTTL \<Rightarrow> Inr (if absoluteTTL < expiresAt then absoluteTTL else expiresAt))) of
             Inl e \<Rightarrow> Inl e
           | Inr expiresAt \<Rightarrow> if \<not> expiresAt > now then Inl ErrLeaseExpired else Inr expiresAt))"

text \<open>The values \<open>IssuePermit\<close> registers.\<close>

definition new_permit :: "config \<Rightarrow> ego_binding \<Rightarrow> string \<Rightarrow> u64 \<Rightarrow> gotime \<Rightarrow> string \<Rightarrow> scope \<Rightarrow> bytes \<Rightarrow> Permit" where
  "new_permit cfg m requestID sequence expiresAt defaultTaskSpace sc key =
     \<lparr>p_BindingID = BindingID m, p_Generation = BindingGeneration m, p_RequestID = requestID,
      p_Sequence = sequence, p_ExpiresAt = expiresAt, p_MaxPayloadBytes = defaultMaxPayloadBytes,
      p_MaxScriptBytes = c_MaxScriptBytes cfg, p_DefaultTaskSpace = defaultTaskSpace,
      p_AllowlistRevision = AllowlistRevision m, p_LearningBundleDigest = LearningBundleDigest m,
      p_ConcurrencyMode = sc_mode sc, p_TaskSpaceScope = sc_taskSpace sc, p_TabScope = sc_tab sc,
      p_SessionKey = key\<rparr>"

definition new_request :: "ego_binding \<Rightarrow> string \<Rightarrow> u64 \<Rightarrow> gotime \<Rightarrow> activeRequest" where
  "new_request m requestID sequence expiresAt =
     \<lparr>ar_bindingID = BindingID m, ar_generation = BindingGeneration m, ar_requestID = requestID,
      ar_sequence = sequence, ar_expiresAt = expiresAt, ar_submitted = False, ar_sent = False,
      ar_serverTerminalObserved = False, ar_cancel = False, ar_forwardDone = False\<rparr>"

text \<open>\<open>IssuePermit\<close> under the write lock.\<close>

definition admit :: "gotime \<Rightarrow> (nat \<Rightarrow> attempt) \<Rightarrow> random \<Rightarrow> random \<Rightarrow> string \<Rightarrow> string \<Rightarrow> string \<Rightarrow> scope \<Rightarrow>
    broker \<Rightarrow> broker \<times> (ego_error + Permit)" where
  "admit now env rndID rndKey startupNonce toolSessionID defaultTaskSpace sc b0 =
     (let b = pruneExpiredPermitsLocked now b0 in
      if get_str (br_nonces b) startupNonce \<noteq> toolSessionID then (b, Inl ErrUnavailable)
      else (case bindingForSessionLocked toolSessionID b of Inl _ \<Rightarrow> (b, Inl ErrUnavailable)
        | Inr r \<Rightarrow>
            (let m = metadata_of b r in
             if Status m \<noteq> ''active'' \<or> LeaseHealth m \<noteq> ''healthy'' then (b, Inl ErrLeaseRenewalRequired)
             else if BindingGeneration m = 0 then (b, Inl (ErrProtocol ''generation''))
             else if activeRequestCountLocked (BindingID m) b
                       \<ge> min (c_MaxParallelRequests (br_cfg b)) (MaxParallelRequests m)
               then (b, Inl ErrConcurrency)
             else (case nextSequenceLocked env b of (b, Inl e) \<Rightarrow> (b, Inl e)
               | (b, Inr sequence) \<Rightarrow>
                   (case randomToken 18 rndID of Inl e \<Rightarrow> (b, Inl e)
                    | Inr requestID \<Rightarrow>
                        (case rand_read 32 rndKey of Inl e \<Rightarrow> (b, Inl e)
                         | Inr key \<Rightarrow>
                             (case permit_expiry now m of Inl e \<Rightarrow> (b, Inl e)
                              | Inr expiresAt \<Rightarrow>
                                  (let permit = new_permit (br_cfg b) m requestID sequence expiresAt
                                                  defaultTaskSpace sc key in
                                   (notifyRequestChangeLocked
                                      (b\<lparr>br_permits := put sequence permit (br_permits b),
                                         br_active := put sequence (new_request m requestID sequence expiresAt)
                                                        (br_active b)\<rparr>),
                                    Inr permit)))))))))"

definition IssuePermit :: "(nat \<Rightarrow> gotime) \<Rightarrow> ego_error + EgoBrowserNodeRenewData \<Rightarrow> (nat \<Rightarrow> attempt) \<Rightarrow>
    random \<Rightarrow> random \<Rightarrow> PermitRequest \<Rightarrow> broker \<Rightarrow> broker \<times> (ego_error + Permit)" where
  "IssuePermit clk response env rndID rndKey request b =
     (case permit_scope request b of Inl e \<Rightarrow> (b, Inl e)
      | Inr (toolSessionID, r, defaultTaskSpace, sc) \<Rightarrow>
          (case ensureLease clk response r b of (b, Some e) \<Rightarrow> (b, Inl e)
           | (b, None) \<Rightarrow>
               admit (clk 7) env rndID rndKey (q_StartupNonce request) toolSessionID defaultTaskSpace sc b))"

definition ConsumePermit :: "gotime \<Rightarrow> string \<Rightarrow> u64 \<Rightarrow> string \<Rightarrow> u64 \<Rightarrow> int \<Rightarrow> broker \<Rightarrow>
    broker \<times> (ego_error + Permit)" where
  "ConsumePermit now bindingID generation requestID sequence payloadBytes b0 =
     (let b = pruneConsumedLocked now b0 in
      case map_of (br_permits b) sequence of
        None \<Rightarrow> if sequence \<in> keys (br_consumed b) then (b, Inl ErrReplay) else (b, Inl ErrRevoked)
      | Some permit \<Rightarrow>
          if p_BindingID permit \<noteq> bindingID \<or> p_Generation permit \<noteq> generation
             \<or> p_RequestID permit \<noteq> requestID \<or> p_Sequence permit \<noteq> sequence
            then (b, Inl (ErrProtocol ''permit identity''))
          else if payloadBytes < 0 \<or> payloadBytes > p_MaxPayloadBytes permit
            then (b, Inl (ErrProtocol ''payload size''))
          else if \<not> p_ExpiresAt permit > now
            then (notifyRequestChangeLocked
                    (drop_active sequence (b\<lparr>br_permits := del sequence (br_permits b)\<rparr>)), Inl ErrLeaseExpired)
          else (let b = b\<lparr>br_permits := del sequence (br_permits b),
                          br_consumed := put sequence now (br_consumed b)\<rparr>;
                    b = (if sequence \<in> keys (br_active b)
                         then notifyRequestChangeLocked
                                (upd_active sequence (\<lambda>r. r\<lparr>ar_submitted := True\<rparr>) b)
                         else b)
                in (b, Inr permit)))"

subsection \<open>Cancellation\<close>

definition cancel_mark :: "string \<Rightarrow> u64 \<Rightarrow> string \<Rightarrow> u64 \<Rightarrow> broker \<Rightarrow> broker \<times> (ego_error + bool)" where
  "cancel_mark bindingID generation requestID sequence b =
     (if \<not> validOpaqueText bindingID 128 \<or> generation = 0 \<or> \<not> validOpaqueText requestID 128 \<or> sequence = 0
        then (b, Inl (ErrProtocol ''cancellation identity''))
      else (case map_of (br_active b) sequence of None \<Rightarrow> (b, Inr False)
            | Some request \<Rightarrow>
                if ar_bindingID request \<noteq> bindingID \<or> ar_generation request \<noteq> generation
                   \<or> ar_requestID request \<noteq> requestID \<or> ar_sequence request \<noteq> sequence
                  then (b, Inl (ErrProtocol ''cancellation identity''))
                else (upd_active sequence (\<lambda>r. r\<lparr>ar_cancel := True\<rparr>) b, Inr True)))"

definition CancelRequest :: "string \<Rightarrow> u64 \<Rightarrow> string \<Rightarrow> u64 \<Rightarrow> broker \<Rightarrow> broker \<times> (ego_error + bool)" where
  "CancelRequest = cancel_mark"

text \<open>The request object a waiter holds, registered or not.\<close>

definition request_object :: "u64 \<Rightarrow> broker \<Rightarrow> activeRequest option" where
  "request_object sequence b =
     (case map_of (br_active b) sequence of Some request \<Rightarrow> Some request
      | None \<Rightarrow> map_of (br_detached b) sequence)"

text \<open>
  \<open>CancelRequestAndWait\<close> marks the request like \<open>CancelRequest\<close> and then selects between
  the end of the forwarding, its context and the end of the broker: \<open>None\<close> is a choice that
  is not ready.
\<close>

datatype wait_choice = WaitForwardDone | WaitContext ego_error | WaitClosed

definition cancel_wait :: "u64 \<Rightarrow> wait_choice \<Rightarrow> broker \<Rightarrow> (bool \<times> bool \<times> ego_error option) option" where
  "cancel_wait sequence choice b =
     (case choice of
        WaitForwardDone \<Rightarrow>
          (case request_object sequence b of None \<Rightarrow> None
           | Some request \<Rightarrow>
               if ar_forwardDone request then Some (True, ar_serverTerminalObserved request, None) else None)
      | WaitContext e \<Rightarrow> Some (True, False, Some e)
      | WaitClosed \<Rightarrow> if br_closed b then Some (True, False, Some ErrUnavailable) else None)"

subsection \<open>Revocation, reload and closing\<close>

definition revoke_locked :: "gotime \<Rightarrow> string \<Rightarrow> u64 \<Rightarrow> broker \<Rightarrow> broker \<times> nat option" where
  "revoke_locked now bindingID generation b =
     (case map_of (br_bindings b) bindingID of None \<Rightarrow> (b, None)
      | Some r \<Rightarrow>
          if generation = 0 \<or> BindingGeneration (metadata_of b r) = generation
          then (let b = upd_metadata r (\<lambda>m. m\<lparr>Status := ''revoked'', LeaseHealth := ''expired'',
                          LeaseGraceUntil := None\<rparr>) b;
                    b = upd_state r (\<lambda>st. st\<lparr>bs_terminal := True,
                          bs_terminalGeneration := BindingGeneration (bs_metadata st)\<rparr>) b
                in (clearBindingMaterialsLocked now bindingID b, Some r))
          else (b, None))"

definition RevokeBinding :: "gotime \<Rightarrow> string \<Rightarrow> u64 \<Rightarrow> broker \<Rightarrow> broker" where
  "RevokeBinding now bindingID generation b =
     (case revoke_locked now bindingID generation b of
        (b, None) \<Rightarrow> b | (b, Some r) \<Rightarrow> closeRelay r ErrRevoked b)"

definition reload_locked :: "gotime \<Rightarrow> broker \<Rightarrow> broker" where
  "reload_locked now b = clear_bindings now (map fst (br_bindings b)) b"

definition Reload :: "gotime \<Rightarrow> broker \<Rightarrow> broker" where
  "Reload now b = close_all (map snd (br_bindings b)) ErrUnavailable (reload_locked now b)"

definition close_clear :: "broker \<Rightarrow> broker" where
  "close_clear b = b\<lparr>br_sessions := [], br_nonces := [], br_peerUIDs := []\<rparr>"

text \<open>\<open>Close\<close> without the listener and the socket file.\<close>

definition Close_broker :: "gotime \<Rightarrow> broker \<Rightarrow> broker" where
  "Close_broker now b = (if br_closed b then b else close_clear (Reload now (b\<lparr>br_closed := True\<rparr>)))"

subsection \<open>Forwarding: the steps under the lock\<close>

datatype turn = TurnGo | TurnBlocked | TurnError ego_error

text \<open>
  One turn of the loop of \<open>waitForSendTurn\<close>; \<open>tracked\<close> tells whether an earlier turn saw
  the request. \<open>TurnBlocked\<close> waits for the next broadcast on \<open>changed\<close>, the context or the
  end of the broker.
\<close>

definition send_turn :: "gotime \<Rightarrow> string \<Rightarrow> u64 \<Rightarrow> bool \<Rightarrow> broker \<Rightarrow> broker \<times> turn" where
  "send_turn now bindingID sequence tracked b0 =
     (let b = pruneExpiredPermitsLocked now b0 in
      case map_of (br_active b) sequence of
        None \<Rightarrow> (b, if \<not> tracked then TurnGo else TurnError ErrRevoked)
      | Some request \<Rightarrow>
          if ar_bindingID request \<noteq> bindingID \<or> \<not> ar_submitted request then (b, TurnError ErrRevoked)
          else if list_ex (\<lambda>(otherSequence, other). ar_bindingID other = bindingID
                    \<and> otherSequence < sequence \<and> \<not> ar_sent other) (br_active b)
            then (b, TurnBlocked)
          else (b, TurnGo))"

definition markRequestSent :: "string \<Rightarrow> u64 \<Rightarrow> broker \<Rightarrow> broker \<times> ego_error option" where
  "markRequestSent bindingID sequence b =
     (case map_of (br_active b) sequence of None \<Rightarrow> (b, None)
      | Some request \<Rightarrow>
          if ar_bindingID request \<noteq> bindingID \<or> \<not> ar_submitted request then (b, Some ErrRevoked)
          else (notifyRequestChangeLocked (upd_active sequence (\<lambda>r. r\<lparr>ar_sent := True\<rparr>) b), None))"

text \<open>\<open>Inr False\<close> is the nil channel, on which a select never fires.\<close>

definition requestCancellation :: "outerEnvelope \<Rightarrow> broker \<Rightarrow> ego_error + bool" where
  "requestCancellation request b =
     (case map_of (br_active b) (oe_Sequence request) of None \<Rightarrow> Inr False
      | Some active \<Rightarrow>
          if ar_bindingID active \<noteq> oe_BindingID request \<or> ar_generation active \<noteq> oe_Generation request
             \<or> ar_requestID active \<noteq> oe_RequestID request \<or> ar_sequence active \<noteq> oe_Sequence request
             \<or> \<not> ar_submitted active
            then Inl (ErrProtocol ''cancellation identity'')
          else Inr True)"

definition validateForwardBinding :: "nat \<Rightarrow> u64 \<Rightarrow> broker \<Rightarrow> ego_error option" where
  "validateForwardBinding r generation b =
     (let m = metadata_of b r in
      if \<not> is_current b r \<or> BindingGeneration m \<noteq> generation then Some ErrRevoked
      else if Status m \<noteq> ''active'' \<or> LeaseHealth m \<noteq> ''healthy'' then
        (if Status m = ''expired'' \<or> LeaseHealth m = ''expired'' then Some ErrLeaseExpired else Some ErrRevoked)
      else None)"

definition finishRequestForward :: "u64 \<Rightarrow> bool \<Rightarrow> broker \<Rightarrow> broker" where
  "finishRequestForward sequence serverTerminalObserved b =
     upd_active sequence
       (\<lambda>r. if ar_forwardDone r then r
            else r\<lparr>ar_serverTerminalObserved := serverTerminalObserved, ar_forwardDone := True\<rparr>) b"

subsection \<open>Relay connections\<close>

record EgoBrowserRelayTicket =
  tk_Role :: string
  tk_RelayBindingKind :: string
  tk_RelayPath :: string
  tk_RelayTicket :: string
  tk_BindingGeneration :: u64
  tk_ExpiresAt :: stamp

text \<open>
  \<open>ensureRelaySession\<close> before it dials: an error, the open session of the binding, or
  \<open>Inr None\<close> when a connection must be opened.
\<close>

definition relay_lookup :: "nat \<Rightarrow> u64 \<Rightarrow> broker \<Rightarrow> ego_error + nat option" where
  "relay_lookup r epoch b =
     (let open_session = (case bs_relay (deref b r) of None \<Rightarrow> None
            | Some q \<Rightarrow> (case br_relays b q of None \<Rightarrow> None
                | Some session \<Rightarrow> if rs_closed session then None else Some q)) in
      if bs_relayEpoch (deref b r) \<noteq> epoch then Inl ErrRevoked
      else if open_session \<noteq> None then Inr open_session
      else if br_closed b then Inl ErrUnavailable
      else if \<not> c_ControlPlaneConfigured (br_cfg b) then Inl ErrUnavailable
      else Inr None)"

definition relay_ticket_check :: "gotime \<Rightarrow> u64 \<Rightarrow> ego_error + EgoBrowserRelayTicket \<Rightarrow> ego_error option" where
  "relay_ticket_check now generation ticket =
     (case ticket of Inl e \<Rightarrow> Some e
      | Inr t \<Rightarrow>
          if tk_Role t \<noteq> ''wrapper'' \<or> tk_RelayBindingKind t \<noteq> ''ego_browser'' \<or> tk_RelayPath t = []
             \<or> tk_RelayTicket t = [] \<or> tk_BindingGeneration t \<noteq> generation
            then Some (ErrProtocol ''relay ticket'')
          else (case parse_stamp (tk_ExpiresAt t) of None \<Rightarrow> Some ErrLeaseExpired
                | Some expiresAt \<Rightarrow> if \<not> expiresAt > now then Some ErrLeaseExpired else None))"

text \<open>After the connection is open: the epoch and the broker are checked again.\<close>

definition relay_install :: "nat \<Rightarrow> u64 \<Rightarrow> broker \<Rightarrow> broker \<times> (ego_error + nat)" where
  "relay_install r epoch b =
     (if bs_relayEpoch (deref b r) \<noteq> epoch then (b, Inl ErrRevoked)
      else if br_closed b then (b, Inl ErrUnavailable)
      else (let q = br_nextRelay b in
            ((upd_state r (\<lambda>st. st\<lparr>bs_relay := Some q\<rparr>) b)
               \<lparr>br_relays := (br_relays b)(q \<mapsto> newRelaySession), br_nextRelay := Suc q\<rparr>, Inr q)))"

definition ensureRelaySession :: "gotime \<Rightarrow> ego_error + EgoBrowserRelayTicket \<Rightarrow> ego_error option \<Rightarrow>
    nat \<Rightarrow> u64 \<Rightarrow> u64 \<Rightarrow> broker \<Rightarrow> broker \<times> (ego_error + nat)" where
  "ensureRelaySession now ticket openErr r generation epoch b =
     (case relay_lookup r epoch b of Inl e \<Rightarrow> (b, Inl e)
      | Inr (Some q) \<Rightarrow> (b, Inr q)
      | Inr None \<Rightarrow>
          (case relay_ticket_check now generation ticket of Some e \<Rightarrow> (b, Inl e)
           | None \<Rightarrow> (case openErr of Some e \<Rightarrow> (b, Inl e) | None \<Rightarrow> relay_install r epoch b)))"

end
