(* ===== verification/Broker_Inv.thy ===== *)
theory Broker_Inv
  imports Broker
begin

section \<open>The broker's invariant\<close>

text \<open>
  What holds between any two locked sections of the broker: the maps are maps, registered
  bindings are objects of the store with their own identifier, sessions and capabilities are
  inverse to each other, the persisted sequence number is the one in memory, and every
  registered request belongs to an active, healthy binding of the same generation. Permits
  are exactly the requests that have not been submitted.
\<close>

subsection \<open>How the helpers act on the fields\<close>

lemma notify_fields [simp]:
  "br_cfg (notifyRequestChangeLocked b) = br_cfg b" "br_heap (notifyRequestChangeLocked b) = br_heap b"
  "br_nextState (notifyRequestChangeLocked b) = br_nextState b"
  "br_bindings (notifyRequestChangeLocked b) = br_bindings b"
  "br_sessions (notifyRequestChangeLocked b) = br_sessions b"
  "br_nonces (notifyRequestChangeLocked b) = br_nonces b"
  "br_peerUIDs (notifyRequestChangeLocked b) = br_peerUIDs b"
  "br_permits (notifyRequestChangeLocked b) = br_permits b"
  "br_consumed (notifyRequestChangeLocked b) = br_consumed b"
  "br_active (notifyRequestChangeLocked b) = br_active b"
  "br_detached (notifyRequestChangeLocked b) = br_detached b"
  "br_sequence (notifyRequestChangeLocked b) = br_sequence b"
  "br_closed (notifyRequestChangeLocked b) = br_closed b"
  "br_relays (notifyRequestChangeLocked b) = br_relays b"
  "br_file (notifyRequestChangeLocked b) = br_file b"
  by (simp_all add: notifyRequestChangeLocked_def)

lemma upd_state_fields [simp]:
  "br_cfg (upd_state r f b) = br_cfg b" "br_nextState (upd_state r f b) = br_nextState b"
  "br_bindings (upd_state r f b) = br_bindings b" "br_sessions (upd_state r f b) = br_sessions b"
  "br_nonces (upd_state r f b) = br_nonces b" "br_peerUIDs (upd_state r f b) = br_peerUIDs b"
  "br_permits (upd_state r f b) = br_permits b" "br_consumed (upd_state r f b) = br_consumed b"
  "br_active (upd_state r f b) = br_active b" "br_detached (upd_state r f b) = br_detached b"
  "br_sequence (upd_state r f b) = br_sequence b" "br_closed (upd_state r f b) = br_closed b"
  "br_relays (upd_state r f b) = br_relays b" "br_file (upd_state r f b) = br_file b"
  "br_heap (upd_state r f b) = (br_heap b)(r := map_option f (br_heap b r))"
  by (simp_all add: upd_state_def)

lemma upd_metadata_fields [simp]:
  "br_cfg (upd_metadata r f b) = br_cfg b" "br_nextState (upd_metadata r f b) = br_nextState b"
  "br_bindings (upd_metadata r f b) = br_bindings b" "br_sessions (upd_metadata r f b) = br_sessions b"
  "br_nonces (upd_metadata r f b) = br_nonces b" "br_peerUIDs (upd_metadata r f b) = br_peerUIDs b"
  "br_permits (upd_metadata r f b) = br_permits b" "br_consumed (upd_metadata r f b) = br_consumed b"
  "br_active (upd_metadata r f b) = br_active b" "br_detached (upd_metadata r f b) = br_detached b"
  "br_sequence (upd_metadata r f b) = br_sequence b" "br_closed (upd_metadata r f b) = br_closed b"
  "br_relays (upd_metadata r f b) = br_relays b" "br_file (upd_metadata r f b) = br_file b"
  "br_heap (upd_metadata r f b) =
     (br_heap b)(r := map_option (\<lambda>st. st\<lparr>bs_metadata := f (bs_metadata st)\<rparr>) (br_heap b r))"
  by (simp_all add: upd_metadata_def)

text \<open>The loop that bounds the replay window keeps a sub-list, whatever it evicts.\<close>

lemma evict_oldest_step:
  "evict_oldest n m = m \<or>
     (\<exists>q t. length m > n \<and> oldest_entry m = Some (q, t) \<and> evict_oldest n m = evict_oldest n (del q m))"
  using evict_oldest.simps [of n m] by (auto split: option.splits if_splits)

lemma evict_oldest_filter: "\<exists>P. evict_oldest n m = filter P m"
proof (induction n m rule: evict_oldest.induct)
  case (1 n m)
  consider "evict_oldest n m = m"
    | q t where "length m > n" "oldest_entry m = Some (q, t)" "evict_oldest n m = evict_oldest n (del q m)"
    using evict_oldest_step by blast
  then show ?case
  proof cases
    case 1
    then show ?thesis by (intro exI [of _ "\<lambda>_. True"]) simp
  next
    case 2
    then obtain P where "evict_oldest n (del q m) = filter P (del q m)" using "1.IH" by blast
    then show ?thesis using 2(3) by (metis del_def filter_filter)
  qed
qed

lemma evict_oldest_subset: "set (evict_oldest n m) \<subseteq> set m"
  using evict_oldest_filter [of n m] by auto

lemma evict_oldest_wf: "wf_map m \<Longrightarrow> wf_map (evict_oldest n m)"
  using evict_oldest_filter [of n m] by auto

lemma evict_oldest_length: "length (evict_oldest n m) \<le> n"
proof (induction n m rule: evict_oldest.induct)
  case (1 n m)
  show ?case
  proof (cases "length m > n")
    case True
    then obtain q t where "oldest_entry m = Some (q, t)" using oldest_entry_mem [of m] by fastforce
    then show ?thesis using 1 True by (subst evict_oldest.simps) simp
  qed (subst evict_oldest.simps, simp)
qed

lemma pruneConsumed_fields [simp]:
  "br_cfg (pruneConsumedLocked now b) = br_cfg b" "br_heap (pruneConsumedLocked now b) = br_heap b"
  "br_nextState (pruneConsumedLocked now b) = br_nextState b"
  "br_bindings (pruneConsumedLocked now b) = br_bindings b"
  "br_sessions (pruneConsumedLocked now b) = br_sessions b"
  "br_nonces (pruneConsumedLocked now b) = br_nonces b"
  "br_peerUIDs (pruneConsumedLocked now b) = br_peerUIDs b"
  "br_permits (pruneConsumedLocked now b) = br_permits b"
  "br_active (pruneConsumedLocked now b) = br_active b"
  "br_detached (pruneConsumedLocked now b) = br_detached b"
  "br_sequence (pruneConsumedLocked now b) = br_sequence b"
  "br_closed (pruneConsumedLocked now b) = br_closed b"
  "br_relays (pruneConsumedLocked now b) = br_relays b"
  "br_file (pruneConsumedLocked now b) = br_file b"
  by (simp_all add: pruneConsumedLocked_def)

lemma pruneConsumed_subset: "set (br_consumed (pruneConsumedLocked now b)) \<subseteq> set (br_consumed b)"
  using evict_oldest_subset by (fastforce simp: pruneConsumedLocked_def)

lemma pruneConsumed_wf: "wf_map (br_consumed b) \<Longrightarrow> wf_map (br_consumed (pruneConsumedLocked now b))"
  by (simp add: pruneConsumedLocked_def evict_oldest_wf)

lemma clear_fields [simp]:
  "br_cfg (clearBindingMaterialsLocked now bid b) = br_cfg b"
  "br_nextState (clearBindingMaterialsLocked now bid b) = br_nextState b"
  "br_bindings (clearBindingMaterialsLocked now bid b) = br_bindings b"
  "br_sessions (clearBindingMaterialsLocked now bid b) = br_sessions b"
  "br_nonces (clearBindingMaterialsLocked now bid b) = br_nonces b"
  "br_peerUIDs (clearBindingMaterialsLocked now bid b) = br_peerUIDs b"
  "br_permits (clearBindingMaterialsLocked now bid b) = filter (\<lambda>(q, p). p_BindingID p \<noteq> bid) (br_permits b)"
  "br_active (clearBindingMaterialsLocked now bid b) = filter (\<lambda>(q, a). ar_bindingID a \<noteq> bid) (br_active b)"
  "br_sequence (clearBindingMaterialsLocked now bid b) = br_sequence b"
  "br_closed (clearBindingMaterialsLocked now bid b) = br_closed b"
  "br_relays (clearBindingMaterialsLocked now bid b) = br_relays b"
  "br_file (clearBindingMaterialsLocked now bid b) = br_file b"
  "br_heap (clearBindingMaterialsLocked now bid b) =
     (case map_of (br_bindings b) bid of None \<Rightarrow> br_heap b
      | Some r \<Rightarrow> (br_heap b)(r := map_option (\<lambda>st. st\<lparr>bs_relayEpoch := bs_relayEpoch st + 1\<rparr>) (br_heap b r)))"
  "br_consumed (clearBindingMaterialsLocked now bid b) = br_consumed (pruneConsumedLocked now b)"
  by (simp_all add: clearBindingMaterialsLocked_def Let_def pruneConsumedLocked_def split: option.split)

lemma pruneExpired_fields [simp]:
  "br_cfg (pruneExpiredPermitsLocked now b) = br_cfg b" "br_heap (pruneExpiredPermitsLocked now b) = br_heap b"
  "br_nextState (pruneExpiredPermitsLocked now b) = br_nextState b"
  "br_bindings (pruneExpiredPermitsLocked now b) = br_bindings b"
  "br_sessions (pruneExpiredPermitsLocked now b) = br_sessions b"
  "br_nonces (pruneExpiredPermitsLocked now b) = br_nonces b"
  "br_peerUIDs (pruneExpiredPermitsLocked now b) = br_peerUIDs b"
  "br_consumed (pruneExpiredPermitsLocked now b) = br_consumed b"
  "br_sequence (pruneExpiredPermitsLocked now b) = br_sequence b"
  "br_closed (pruneExpiredPermitsLocked now b) = br_closed b"
  "br_relays (pruneExpiredPermitsLocked now b) = br_relays b"
  "br_file (pruneExpiredPermitsLocked now b) = br_file b"
  "br_permits (pruneExpiredPermitsLocked now b) = filter (\<lambda>(q, p). p_ExpiresAt p > now) (br_permits b)"
  by (simp_all add: pruneExpiredPermitsLocked_def Let_def)

lemma pruneExpired_active:
  "br_active (pruneExpiredPermitsLocked now b) =
     filter (\<lambda>(q, a). \<not> (q \<in> fst ` set (filter (\<lambda>(q, p). \<not> p_ExpiresAt p > now) (br_permits b)) \<and> \<not> ar_submitted a))
       (br_active b)"
  by (simp add: pruneExpiredPermitsLocked_def Let_def)

lemma drop_active_fields [simp]:
  "br_cfg (drop_active q b) = br_cfg b" "br_heap (drop_active q b) = br_heap b"
  "br_nextState (drop_active q b) = br_nextState b" "br_bindings (drop_active q b) = br_bindings b"
  "br_sessions (drop_active q b) = br_sessions b" "br_nonces (drop_active q b) = br_nonces b"
  "br_peerUIDs (drop_active q b) = br_peerUIDs b" "br_permits (drop_active q b) = br_permits b"
  "br_consumed (drop_active q b) = br_consumed b" "br_sequence (drop_active q b) = br_sequence b"
  "br_closed (drop_active q b) = br_closed b" "br_relays (drop_active q b) = br_relays b"
  "br_file (drop_active q b) = br_file b" "br_active (drop_active q b) = del q (br_active b)"
  by (simp_all add: drop_active_def del_absent split: option.split)

lemma upd_active_fields [simp]:
  "br_cfg (upd_active q f b) = br_cfg b" "br_heap (upd_active q f b) = br_heap b"
  "br_nextState (upd_active q f b) = br_nextState b" "br_bindings (upd_active q f b) = br_bindings b"
  "br_sessions (upd_active q f b) = br_sessions b" "br_nonces (upd_active q f b) = br_nonces b"
  "br_peerUIDs (upd_active q f b) = br_peerUIDs b" "br_permits (upd_active q f b) = br_permits b"
  "br_consumed (upd_active q f b) = br_consumed b" "br_sequence (upd_active q f b) = br_sequence b"
  "br_closed (upd_active q f b) = br_closed b" "br_relays (upd_active q f b) = br_relays b"
  "br_file (upd_active q f b) = br_file b" "br_active (upd_active q f b) = adjust q f (br_active b)"
  by (simp_all add: upd_active_def)

subsection \<open>The invariant\<close>

definition view :: "broker \<Rightarrow> string \<Rightarrow> bindingState option" where
  "view b bid = (case map_of (br_bindings b) bid of None \<Rightarrow> None | Some r \<Rightarrow> br_heap b r)"

text \<open>The part of a binding that a permit depends on.\<close>

definition binding_core :: "bindingState \<Rightarrow>
    u64 \<times> string \<times> string \<times> bool \<times> string \<times> u64 \<times> string option" where
  "binding_core st =
     (let m = bs_metadata st in
      (BindingGeneration m, Status m, LeaseHealth m, bs_terminal st, ToolSessionID m,
       AllowlistRevision m, LearningBundleDigest m))"

text \<open>
  The binding \<open>bid\<close> is registered, of generation \<open>gen\<close>, usable, and its tool session holds
  a capability (unless the broker is closing).
\<close>

definition supports :: "broker \<Rightarrow> string \<Rightarrow> u64 \<Rightarrow> bindingState \<Rightarrow> bool" where
  "supports b bid gen st \<longleftrightarrow>
     view b bid = Some st \<and> BindingGeneration (bs_metadata st) = gen \<and>
     Status (bs_metadata st) = ''active'' \<and> LeaseHealth (bs_metadata st) = ''healthy'' \<and>
     \<not> bs_terminal st \<and> (br_closed b \<or> ToolSessionID (bs_metadata st) \<in> keys (br_sessions b))"

definition request_ok :: "broker \<Rightarrow> u64 \<Rightarrow> activeRequest \<Rightarrow> bool" where
  "request_ok b q a \<longleftrightarrow>
     ar_sequence a = q \<and> q \<noteq> 0 \<and> q \<le> br_sequence b \<and> (ar_sent a \<longrightarrow> ar_submitted a) \<and>
     (ar_submitted a \<longleftrightarrow> q \<notin> keys (br_permits b)) \<and>
     (\<exists>st. supports b (ar_bindingID a) (ar_generation a) st)"

definition permit_ok :: "broker \<Rightarrow> u64 \<Rightarrow> Permit \<Rightarrow> bool" where
  "permit_ok b q p \<longleftrightarrow>
     p_Sequence p = q \<and> p_MaxPayloadBytes p = defaultMaxPayloadBytes \<and>
     (\<exists>a. map_of (br_active b) q = Some a \<and> ar_bindingID a = p_BindingID p \<and>
        ar_generation a = p_Generation p \<and> ar_requestID a = p_RequestID p \<and> ar_expiresAt a = p_ExpiresAt p) \<and>
     (\<exists>st. supports b (p_BindingID p) (p_Generation p) st \<and>
        AllowlistRevision (bs_metadata st) = p_AllowlistRevision p \<and>
        LearningBundleDigest (bs_metadata st) = p_LearningBundleDigest p \<and>
        dedicatedTaskSpace (ToolSessionID (bs_metadata st)) = Inr (p_DefaultTaskSpace p))"

definition requests_inv :: "broker \<Rightarrow> bool" where
  "requests_inv b \<longleftrightarrow>
     wf_map (br_permits b) \<and> wf_map (br_consumed b) \<and> wf_map (br_active b) \<and>
     (\<forall>q a. map_of (br_active b) q = Some a \<longrightarrow> request_ok b q a) \<and>
     (\<forall>q p. map_of (br_permits b) q = Some p \<longrightarrow> permit_ok b q p) \<and>
     (\<forall>q. q \<in> keys (br_consumed b) \<longrightarrow> q \<le> br_sequence b \<and> q \<notin> keys (br_permits b)) \<and>
     (\<forall>bid. activeRequestCountLocked bid b \<le> c_MaxParallelRequests (br_cfg b))"

text \<open>A registered binding is an object of the store.\<close>

definition state_ok :: "string \<Rightarrow> bindingState \<Rightarrow> bool" where
  "state_ok bid st \<longleftrightarrow>
     BindingID (bs_metadata st) = bid \<and> BindingGeneration (bs_metadata st) \<noteq> 0 \<and>
     MaxParallelRequests (bs_metadata st) \<le> 4 \<and>
     (bs_terminal st \<longrightarrow> bs_terminalGeneration st = BindingGeneration (bs_metadata st) \<and>
        Status (bs_metadata st) \<noteq> ''active'')"

definition store_ok :: "broker \<Rightarrow> string \<Rightarrow> nat \<Rightarrow> bool" where
  "store_ok b bid r \<longleftrightarrow> r < br_nextState b \<and> (\<exists>st. br_heap b r = Some st \<and> state_ok bid st)"

definition store_inv :: "broker \<Rightarrow> bool" where
  "store_inv b \<longleftrightarrow>
     wf_map (br_bindings b) \<and> (\<forall>bid r. map_of (br_bindings b) bid = Some r \<longrightarrow> store_ok b bid r) \<and>
     (\<forall>r st. br_heap b r = Some st \<longrightarrow> r < br_nextState b)"

definition sessions_inv :: "broker \<Rightarrow> bool" where
  "sessions_inv b \<longleftrightarrow>
     wf_map (br_sessions b) \<and> wf_map (br_nonces b) \<and> wf_map (br_peerUIDs b) \<and>
     (\<forall>t n. map_of (br_sessions b) t = Some n \<longleftrightarrow> map_of (br_nonces b) n = Some t) \<and>
     (\<forall>t n. map_of (br_sessions b) t = Some n \<longrightarrow>
        n \<noteq> [] \<and> t \<noteq> [] \<and> is_ok (dedicatedTaskSpace t)) \<and>
     keys (br_peerUIDs b) \<subseteq> keys (br_sessions b)"

definition config_inv :: "broker \<Rightarrow> bool" where
  "config_inv b \<longleftrightarrow>
     1 \<le> c_MaxParallelRequests (br_cfg b) \<and> c_MaxParallelRequests (br_cfg b) \<le> 4 \<and>
     c_StateRoot (br_cfg b) \<noteq> [] \<and> loadSequence (c_StateRoot (br_cfg b)) (br_file b) = Inr (br_sequence b)"

definition relays_inv :: "broker \<Rightarrow> bool" where
  "relays_inv b \<longleftrightarrow> (\<forall>q session. br_relays b q = Some session \<longrightarrow> relay_inv session)"

definition broker_inv :: "broker \<Rightarrow> bool" where
  "broker_inv b \<longleftrightarrow> requests_inv b \<and> store_inv b \<and> sessions_inv b \<and> config_inv b \<and> relays_inv b"

lemma request_okD: "requests_inv b \<Longrightarrow> map_of (br_active b) q = Some a \<Longrightarrow> request_ok b q a"
  by (simp add: requests_inv_def)

lemma permit_okD: "requests_inv b \<Longrightarrow> map_of (br_permits b) q = Some p \<Longrightarrow> permit_ok b q p"
  by (simp add: requests_inv_def)

lemma consumedD:
  "requests_inv b \<Longrightarrow> q \<in> keys (br_consumed b) \<Longrightarrow> q \<le> br_sequence b \<and> q \<notin> keys (br_permits b)"
  by (simp add: requests_inv_def)

lemma requests_wfD:
  "requests_inv b \<Longrightarrow> wf_map (br_permits b)" "requests_inv b \<Longrightarrow> wf_map (br_consumed b)"
  "requests_inv b \<Longrightarrow> wf_map (br_active b)"
  by (simp_all add: requests_inv_def)

lemma active_supported:
  assumes "requests_inv b" "map_of (br_active b) q = Some a"
  obtains st where "supports b (ar_bindingID a) (ar_generation a) st"
  using request_okD [OF assms] by (auto simp: request_ok_def)

subsection \<open>Requests survive changes that do not concern their binding\<close>

definition active_bindings :: "broker \<Rightarrow> string set" where
  "active_bindings b = {ar_bindingID a | q a. map_of (br_active b) q = Some a}"

lemma supports_core:
  assumes "supports b bid gen st" "map_option binding_core (view b' bid) = map_option binding_core (view b bid)"
    and "br_closed b' \<or> \<not> br_closed b \<and> (ToolSessionID (bs_metadata st) \<in> keys (br_sessions b) \<longrightarrow>
           ToolSessionID (bs_metadata st) \<in> keys (br_sessions b'))"
  obtains st' where "supports b' bid gen st'" "binding_core st' = binding_core st"
proof -
  have "map_option binding_core (view b' bid) = Some (binding_core st)"
    using assms(1,2) by (simp add: supports_def)
  then obtain st' where "view b' bid = Some st'" "binding_core st' = binding_core st" by auto
  then show thesis
    using assms(1,3) by (intro that [of st']) (auto simp: supports_def binding_core_def Let_def)
qed

lemma requests_inv_filter:
  assumes inv: "requests_inv b"
    and permits: "br_permits b' = filter (\<lambda>(q, p). p_BindingID p \<notin> X) (br_permits b)"
    and active: "br_active b' = filter (\<lambda>(q, a). ar_bindingID a \<notin> X) (br_active b)"
    and consumed: "set (br_consumed b') \<subseteq> set (br_consumed b)" "wf_map (br_consumed b')"
    and seq: "br_sequence b \<le> br_sequence b'" "br_cfg b' = br_cfg b"
    and core: "\<And>bid. bid \<notin> X \<Longrightarrow> bid \<in> active_bindings b \<Longrightarrow>
        map_option binding_core (view b' bid) = map_option binding_core (view b bid)"
    and sess: "br_closed b' \<or> \<not> br_closed b \<and> (\<forall>bid st. bid \<notin> X \<longrightarrow> view b bid = Some st \<longrightarrow>
        ToolSessionID (bs_metadata st) \<in> keys (br_sessions b) \<longrightarrow>
        ToolSessionID (bs_metadata st) \<in> keys (br_sessions b'))"
  shows "requests_inv b'"
proof -
  have wf: "wf_map (br_permits b)" "wf_map (br_active b)" using inv by (auto simp: requests_inv_def)
  have permits_of: "map_of (br_permits b') q = Some p \<longleftrightarrow>
      map_of (br_permits b) q = Some p \<and> p_BindingID p \<notin> X" for q p
    by (auto simp: permits map_of_filter_wf [OF wf(1)] split: option.splits if_splits)
  have active_of: "map_of (br_active b') q = Some a \<longleftrightarrow>
      map_of (br_active b) q = Some a \<and> ar_bindingID a \<notin> X" for q a
    by (auto simp: active map_of_filter_wf [OF wf(2)] split: option.splits if_splits)
  have sup: "\<exists>st'. supports b' bid gen st' \<and> binding_core st' = binding_core st"
    if "supports b bid gen st" "bid \<notin> X" "bid \<in> active_bindings b" for bid gen st
  proof (rule supports_core [OF that(1) core [OF that(2,3)]])
    show "br_closed b' \<or> \<not> br_closed b \<and> (ToolSessionID (bs_metadata st) \<in> keys (br_sessions b) \<longrightarrow>
           ToolSessionID (bs_metadata st) \<in> keys (br_sessions b'))"
      using sess that(1,2) by (auto simp: supports_def)
  qed blast
  have permit_active: "ar_bindingID a = p_BindingID p"
    if "map_of (br_permits b) q = Some p" "map_of (br_active b) q = Some a" for q p a
    using inv that by (fastforce simp: requests_inv_def permit_ok_def)
  have req: "request_ok b' q a" if "map_of (br_active b') q = Some a" for q a
  proof -
    have a: "map_of (br_active b) q = Some a" "ar_bindingID a \<notin> X" using that active_of by auto
    then have ok: "request_ok b q a" using inv by (auto simp: requests_inv_def)
    have "q \<in> keys (br_permits b') \<longleftrightarrow> q \<in> keys (br_permits b)"
      unfolding in_keys_Some using permits_of permit_active [OF _ a(1)] a(2) by metis
    moreover have "ar_bindingID a \<in> active_bindings b" using a by (auto simp: active_bindings_def)
    ultimately show ?thesis
      using ok sup a(2) order_trans [OF _ seq(1)] unfolding request_ok_def by metis
  qed
  have per: "permit_ok b' q p" if "map_of (br_permits b') q = Some p" for q p
  proof -
    have p: "map_of (br_permits b) q = Some p" "p_BindingID p \<notin> X" using that permits_of by auto
    then have ok: "permit_ok b q p" using inv by (auto simp: requests_inv_def)
    then obtain a where a: "map_of (br_active b) q = Some a" "ar_bindingID a = p_BindingID p"
      by (auto simp: permit_ok_def)
    then have "map_of (br_active b') q = Some a" "p_BindingID p \<in> active_bindings b"
      using p(2) active_of unfolding active_bindings_def by (simp, metis (mono_tags, lifting) mem_Collect_eq)
    moreover obtain st where st: "supports b (p_BindingID p) (p_Generation p) st"
        "AllowlistRevision (bs_metadata st) = p_AllowlistRevision p"
        "LearningBundleDigest (bs_metadata st) = p_LearningBundleDigest p"
        "dedicatedTaskSpace (ToolSessionID (bs_metadata st)) = Inr (p_DefaultTaskSpace p)"
      using ok by (auto simp: permit_ok_def)
    moreover obtain st' where "supports b' (p_BindingID p) (p_Generation p) st'"
        "binding_core st' = binding_core st"
      using sup [OF st(1) p(2)] calculation(2) by blast
    ultimately show ?thesis
      using ok a by (auto simp: permit_ok_def binding_core_def Let_def)
  qed
  have "activeRequestCountLocked bid b' \<le> activeRequestCountLocked bid b" for bid
    by (simp only: activeRequestCountLocked_def active of_nat_le_iff length_filter_filter_le)
  moreover have "activeRequestCountLocked bid b \<le> c_MaxParallelRequests (br_cfg b)" for bid
    using inv by (simp add: requests_inv_def)
  ultimately have "activeRequestCountLocked bid b' \<le> c_MaxParallelRequests (br_cfg b')" for bid
    unfolding seq(2) by (rule order_trans)
  moreover have "q \<le> br_sequence b' \<and> q \<notin> keys (br_permits b')" if "q \<in> keys (br_consumed b')" for q
  proof -
    have "q \<in> keys (br_consumed b)" using that consumed(1) by auto
    then have "q \<le> br_sequence b" "q \<notin> keys (br_permits b)" using inv by (auto simp: requests_inv_def)
    then show ?thesis using order_trans [OF _ seq(1)] permits_of unfolding in_keys_Some by blast
  qed
  ultimately show ?thesis
    using req per consumed(2) wf unfolding requests_inv_def by (simp add: permits active)
qed

subsection \<open>Updating one binding\<close>

lemma binding_core_simps [simp]:
  "binding_core (st\<lparr>bs_relayEpoch := e\<rparr>) = binding_core st"
  "binding_core (st\<lparr>bs_relay := q\<rparr>) = binding_core st"
  by (simp_all add: binding_core_def)

lemma core_clear [simp]:
  "map_option binding_core (view (clearBindingMaterialsLocked now bid b) x) =
   map_option binding_core (view b x)"
  by (auto simp: view_def option.map_comp comp_def split: option.splits)

lemma requests_inv_same:
  assumes "requests_inv b"
    and "br_permits b' = br_permits b" "br_active b' = br_active b"
    and "set (br_consumed b') \<subseteq> set (br_consumed b)" "wf_map (br_consumed b')"
    and "br_sequence b' = br_sequence b" "br_cfg b' = br_cfg b" "br_closed b' = br_closed b"
    and "keys (br_sessions b) \<subseteq> keys (br_sessions b')"
    and "\<And>bid. bid \<in> active_bindings b \<Longrightarrow>
        map_option binding_core (view b' bid) = map_option binding_core (view b bid)"
  shows "requests_inv b'"
  by (rule requests_inv_filter [OF assms(1), where X = "{}"]) (use assms in \<open>auto simp: case_prod_beta'\<close>)

lemma requests_inv_clear:
  assumes "requests_inv b"
    and "br_permits b1 = br_permits b" "br_active b1 = br_active b" "br_consumed b1 = br_consumed b"
    and "br_sequence b1 = br_sequence b" "br_cfg b1 = br_cfg b" "br_closed b1 = br_closed b"
    and "br_sessions b1 = br_sessions b"
    and "\<And>x. x \<noteq> bid \<Longrightarrow> map_option binding_core (view b1 x) = map_option binding_core (view b x)"
  shows "requests_inv (clearBindingMaterialsLocked now bid b1)"
proof (rule requests_inv_filter [OF assms(1), where X = "{bid}"])
  have "wf_map (br_consumed b1)" using assms(1,4) by (simp add: requests_inv_def)
  then show "wf_map (br_consumed (clearBindingMaterialsLocked now bid b1))"
    by (simp add: pruneConsumed_wf)
  show "set (br_consumed (clearBindingMaterialsLocked now bid b1)) \<subseteq> set (br_consumed b)"
    using pruneConsumed_subset [of now b1] assms(4) by simp
qed (use assms in simp_all)

lemma registered_ok: "store_inv b \<Longrightarrow> map_of (br_bindings b) bid = Some r \<Longrightarrow> store_ok b bid r"
  by (simp add: store_inv_def)

lemma store_inv_ref:
  assumes "store_inv b" "map_of (br_bindings b) bid = Some r" "map_of (br_bindings b) x = Some r"
  shows "x = bid"
proof -
  have "store_ok b bid r" "store_ok b x r" using assms by (simp_all add: store_inv_def)
  then show ?thesis by (auto simp: store_ok_def state_ok_def)
qed

lemma view_upd_other:
  assumes "store_inv b" "map_of (br_bindings b) bid = Some r" "x \<noteq> bid"
  shows "view (upd_state r f b) x = view b x"
  using store_inv_ref [OF assms(1,2)] assms(3) by (auto simp: view_def split: option.splits)

lemma upd_state_comp: "upd_state r g (upd_state r f b) = upd_state r (g \<circ> f) b"
  by (simp add: upd_state_def option.map_comp)

lemma requests_inv_upd_clear:
  assumes "requests_inv b" "store_inv b" "map_of (br_bindings b) bid = Some r"
  shows "requests_inv (clearBindingMaterialsLocked now bid (upd_state r f b))"
  by (rule requests_inv_clear [OF assms(1)]) (simp_all add: view_upd_other [OF assms(2,3)])

lemma store_inv_upd:
  assumes "store_inv b" "map_of (br_bindings b) bid = Some r"
    and "\<And>st. br_heap b r = Some st \<Longrightarrow> state_ok bid st \<Longrightarrow> state_ok bid (f st)"
  shows "store_inv (upd_state r f b)"
proof -
  have "store_ok (upd_state r f b) x q" if "map_of (br_bindings b) x = Some q" for x q
  proof (cases "q = r")
    case True
    then have "x = bid" using store_inv_ref [OF assms(1,2)] that by blast
    moreover have "store_ok b bid r" using assms(1,2) by (simp add: store_inv_def)
    ultimately show ?thesis using True assms(3) by (auto simp: store_ok_def)
  next
    case False
    moreover have "store_ok b x q" using assms(1) that by (simp add: store_inv_def)
    ultimately show ?thesis by (simp add: store_ok_def)
  qed
  moreover have "q < br_nextState b" if "br_heap (upd_state r f b) q = Some st" for q st
    using assms(1) that by (auto simp: store_inv_def split: if_splits)
  ultimately show ?thesis using assms(1) by (simp add: store_inv_def)
qed

lemma store_ok_clear [simp]: "store_ok (clearBindingMaterialsLocked now bid b) x r \<longleftrightarrow> store_ok b x r"
  by (auto simp: store_ok_def state_ok_def split: option.splits)

lemma heap_dom_clear: "(\<exists>st. br_heap (clearBindingMaterialsLocked now bid b) r = Some st) \<longleftrightarrow> (\<exists>st. br_heap b r = Some st)"
  by (auto split: option.splits)

lemma store_inv_clear [simp]: "store_inv (clearBindingMaterialsLocked now bid b) \<longleftrightarrow> store_inv b"
  unfolding store_inv_def store_ok_clear clear_fields(2,3) using heap_dom_clear [of now bid b] by metis

lemma deref_current:
  assumes "store_inv b" "map_of (br_bindings b) bid = Some r"
  obtains st where "br_heap b r = Some st" "deref b r = st" "state_ok bid st" "view b bid = Some st"
    "BindingID (metadata_of b r) = bid" "is_current b r"
proof -
  obtain st where st: "br_heap b r = Some st" "state_ok bid st"
    using registered_ok [OF assms] by (auto simp: store_ok_def)
  then show thesis
    using assms(2) by (intro that [of st]) (auto simp: deref_def state_ok_def view_def is_current_def)
qed

lemma broker_inv_frame:
  assumes "broker_inv b" "requests_inv b'" "store_inv b'"
    and "br_sessions b' = br_sessions b" "br_nonces b' = br_nonces b" "br_peerUIDs b' = br_peerUIDs b"
    and "br_cfg b' = br_cfg b" "br_file b' = br_file b" "br_sequence b' = br_sequence b"
    and "br_relays b' = br_relays b"
  shows "broker_inv b'"
  using assms by (simp add: broker_inv_def sessions_inv_def config_inv_def relays_inv_def)

text \<open>The step every lease and revocation operation ends with.\<close>

lemma broker_inv_upd_clear:
  assumes "broker_inv b" "map_of (br_bindings b) bid = Some r"
    and "\<And>st. br_heap b r = Some st \<Longrightarrow> state_ok bid st \<Longrightarrow> state_ok bid (f st)"
  shows "broker_inv (clearBindingMaterialsLocked now bid (upd_state r f b))"
proof -
  have "requests_inv (clearBindingMaterialsLocked now bid (upd_state r f b))"
    using assms by (simp add: broker_inv_def requests_inv_upd_clear)
  moreover have "store_inv (upd_state r f b)"
    using assms by (auto simp: broker_inv_def intro: store_inv_upd)
  ultimately show ?thesis
    by (intro broker_inv_frame [OF assms(1)]) simp_all
qed

lemma broker_inv_clear [inv_intro]:
  assumes "broker_inv b"
  shows "broker_inv (clearBindingMaterialsLocked now bid b)"
proof -
  have "requests_inv (clearBindingMaterialsLocked now bid b)"
    by (rule requests_inv_clear) (use assms in \<open>simp_all add: broker_inv_def\<close>)
  then show ?thesis
    by (intro broker_inv_frame [OF assms]) (use assms in \<open>simp_all add: broker_inv_def\<close>)
qed

end
