(* ===== verification/Broker_Steps.thy ===== *)
theory Broker_Steps
  imports Broker_Inv
begin

section \<open>Leases and requests keep the invariant\<close>

text \<open>
  One lemma per locked section that concerns leases and requests, with the cases an
  operation can end in (\<open>consume_cases\<close>, \<open>admit_cases\<close>).
\<close>

subsection \<open>Leases and revocation\<close>

definition expire_state :: "bindingState \<Rightarrow> bindingState" where
  "expire_state st = st\<lparr>bs_metadata := (bs_metadata st)\<lparr>Status := ''expired'', LeaseHealth := ''expired'',
      LeaseGraceUntil := None\<rparr>, bs_terminal := True,
      bs_terminalGeneration := BindingGeneration (bs_metadata st)\<rparr>"

lemma state_ok_expire: "state_ok bid st \<Longrightarrow> state_ok bid (expire_state st)"
  by (simp add: state_ok_def expire_state_def)

lemma deref_upd: "br_heap b r = Some st \<Longrightarrow> deref (upd_state r f b) r = f st"
  by (simp add: deref_def)

lemma expireBindingLocked_eq:
  assumes "store_inv b" "map_of (br_bindings b) bid = Some r"
  shows "expireBindingLocked now r b = clearBindingMaterialsLocked now bid (upd_state r expire_state b)"
proof -
  obtain st where st: "br_heap b r = Some st" "state_ok bid st"
    using deref_current [OF assms] by blast
  have "upd_state r (\<lambda>st. st\<lparr>bs_terminal := True, bs_terminalGeneration := BindingGeneration (bs_metadata st)\<rparr>)
      (upd_metadata r (\<lambda>m. m\<lparr>Status := ''expired'', LeaseHealth := ''expired'', LeaseGraceUntil := None\<rparr>) b)
      = upd_state r expire_state b"
    by (simp add: upd_metadata_def upd_state_comp comp_def expire_state_def [abs_def])
  moreover have "BindingID (bs_metadata (deref (upd_state r expire_state b) r)) = bid"
    using st by (simp add: deref_upd state_ok_def expire_state_def)
  ultimately show ?thesis
    by (simp add: expireBindingLocked_def Let_def)
qed

lemma is_current_registered:
  assumes "is_current b r"
  obtains bid where "map_of (br_bindings b) bid = Some r" "bid = BindingID (metadata_of b r)"
  using assms by (auto simp: is_current_def)

lemma expireBindingLocked_inv [inv_intro]:
  assumes "broker_inv b" "is_current b r"
  shows "broker_inv (expireBindingLocked now r b)"
proof -
  obtain bid where bid: "map_of (br_bindings b) bid = Some r"
    using is_current_registered [OF assms(2)] by blast
  have "store_inv b" using assms(1) by (simp add: broker_inv_def)
  then show ?thesis
    using broker_inv_upd_clear [OF assms(1) bid state_ok_expire] expireBindingLocked_eq [OF _ bid] by simp
qed

lemma expire_locked_inv [inv_intro]: "broker_inv b \<Longrightarrow> expire_locked now r b = (b', c) \<Longrightarrow> broker_inv b'"
  by (auto simp: expire_locked_def split: if_splits intro: inv_intro)

lemma mark_failure_inv [inv_intro]:
  assumes "broker_inv b" "mark_failure_locked now r b = (b', c)"
  shows "broker_inv b'"
proof (cases "b' = b")
  case False
  then have cur: "is_current b r" and act: "\<not> bs_terminal (deref b r)"
    using assms(2) by (auto simp: mark_failure_locked_def Let_def split: if_splits)
  obtain bid where bid: "map_of (br_bindings b) bid = Some r"
    using is_current_registered [OF cur] by blast
  have store: "store_inv b" using assms(1) by (simp add: broker_inv_def)
  obtain st where st: "br_heap b r = Some st" "deref b r = st" "state_ok bid st"
    using deref_current [OF store bid] by blast
  let ?g = "\<lambda>m. m\<lparr>LeaseHealth := ''renewal_grace'', LeaseGraceUntil :=
      (if LeaseGraceUntil m = None \<or> LeaseGraceUntil m = Some NoStamp
       then Some (Stamp (now + c_RenewGraceSeconds (br_cfg b) * second)) else LeaseGraceUntil m)\<rparr>"
  consider "b' = clearBindingMaterialsLocked now
        (BindingID (metadata_of (expireBindingLocked now r b) r)) (expireBindingLocked now r b)"
    | "b' = clearBindingMaterialsLocked now (BindingID (metadata_of (upd_metadata r ?g b) r)) (upd_metadata r ?g b)"
    using assms(2) False by (auto simp: mark_failure_locked_def Let_def split: if_splits)
  then show ?thesis
  proof cases
    case 1
    then show ?thesis using expireBindingLocked_inv [OF assms(1) cur] by (simp add: broker_inv_clear)
  next
    case 2
    have "BindingID (metadata_of (upd_metadata r ?g b) r) = bid"
      using st by (simp add: upd_metadata_def deref_upd state_ok_def)
    then show ?thesis
      unfolding 2 upd_metadata_def
      by (simp only:) (rule broker_inv_upd_clear [OF assms(1) bid], simp add: state_ok_def)
  qed
qed (use assms(1) in simp)

lemma renew_answer_ok:
  assumes "renew_answer clk m response = Inr d"
  shows "rd_LeaseHealth d = ''healthy''" "rd_BindingGeneration d = BindingGeneration m"
    "\<exists>l a. rd_LeaseUntil d = Some (Stamp l) \<and> rd_AbsoluteTTLUntil d = Stamp a \<and> clk 0 < l \<and> clk 1 < a \<and> l \<le> a"
proof -
  have parse: "parse_stamp s = Some t \<Longrightarrow> s = Stamp t" for s t by (cases s) auto
  show "rd_LeaseHealth d = ''healthy''" "rd_BindingGeneration d = BindingGeneration m"
    using assms by (auto simp: renew_answer_def Let_def split: sum.splits option.splits if_splits)
  show "\<exists>l a. rd_LeaseUntil d = Some (Stamp l) \<and> rd_AbsoluteTTLUntil d = Stamp a \<and> clk 0 < l \<and> clk 1 < a \<and> l \<le> a"
    using assms by (auto simp: renew_answer_def Let_def not_less dest!: parse
        split: sum.splits option.splits if_splits)
qed

lemma renew_commit_inv [inv_intro]:
  assumes "broker_inv b" "renew_answer clk m response = Inr d" "renew_commit r m d b = (b', e)"
  shows "broker_inv b'"
proof (cases "b' = b")
  case False
  let ?bid = "BindingID m"
  let ?f = "\<lambda>m. m\<lparr>BindingGeneration := rd_BindingGeneration d,
               Generation := rd_BindingGeneration d, LeaseUntil := rd_LeaseUntil d,
               LeaseHealth := rd_LeaseHealth d, LeaseGraceUntil := rd_LeaseGraceUntil d,
               AbsoluteTTLUntil := rd_AbsoluteTTLUntil d\<rparr>"
  have bid: "map_of (br_bindings b) ?bid = Some r" and gen: "BindingGeneration (metadata_of b r) = BindingGeneration m"
    and b': "b' = upd_metadata r ?f b"
    using assms(3) False by (auto simp: renew_commit_def split: if_splits)
  have inv: "store_inv b" "requests_inv b" using assms(1) by (simp_all add: broker_inv_def)
  obtain st where st: "br_heap b r = Some st" "deref b r = st" "state_ok ?bid st" "view b ?bid = Some st"
    using deref_current [OF inv(1) bid] by blast
  note d = renew_answer_ok [OF assms(2)]
  have "requests_inv b'"
  proof (rule requests_inv_same [OF inv(2)])
    fix x assume "x \<in> active_bindings b"
    then obtain q a where a: "map_of (br_active b) q = Some a" "ar_bindingID a = x"
      by (auto simp: active_bindings_def)
    then obtain st' where "supports b x (ar_generation a) st'"
      using active_supported [OF inv(2)] by metis
    then have healthy: "view b x = Some st'" "LeaseHealth (bs_metadata st') = ''healthy''"
      by (auto simp: supports_def)
    show "map_option binding_core (view b' x) = map_option binding_core (view b x)"
    proof (cases "x = ?bid")
      case True
      then show ?thesis
        using healthy st gen d(1,2) bid by (simp add: b' view_def binding_core_def Let_def)
    next
      case False
      then show ?thesis by (simp add: b' upd_metadata_def view_upd_other [OF inv(1) bid])
    qed
  qed (use inv(2) in \<open>simp_all add: b' requests_inv_def\<close>)
  moreover have "store_inv b'"
    unfolding b' upd_metadata_def
    by (rule store_inv_upd [OF inv(1) bid]) (use st gen d(2) in \<open>auto simp: state_ok_def\<close>)
  ultimately show ?thesis
    by (intro broker_inv_frame [OF assms(1)]) (simp_all add: b')
qed (use assms(1) in simp)

lemma revoke_inv [inv_intro]:
  assumes "broker_inv b" "revoke_locked now bid gen b = (b', c)"
  shows "broker_inv b'"
proof (cases "b' = b")
  case False
  let ?f = "\<lambda>st. st\<lparr>bs_metadata := (bs_metadata st)\<lparr>Status := ''revoked'', LeaseHealth := ''expired'',
      LeaseGraceUntil := None\<rparr>, bs_terminal := True, bs_terminalGeneration := BindingGeneration (bs_metadata st)\<rparr>"
  obtain r where bid: "map_of (br_bindings b) bid = Some r"
    and b': "b' = clearBindingMaterialsLocked now bid (upd_state r ?f b)"
    using assms(2) False
    by (auto simp: revoke_locked_def Let_def upd_metadata_def upd_state_comp comp_def
        split: option.splits if_splits)
  show ?thesis
    unfolding b' by (rule broker_inv_upd_clear [OF assms(1) bid]) (simp add: state_ok_def)
qed (use assms(1) in simp)

lemma clear_bindings_inv [inv_intro]: "broker_inv b \<Longrightarrow> broker_inv (clear_bindings now ids b)"
  unfolding clear_bindings_def by (induction ids arbitrary: b) (simp_all add: broker_inv_clear)

lemma reload_inv [inv_intro]:
  "broker_inv b \<Longrightarrow> broker_inv (reload_locked now b)"
  "broker_inv b \<Longrightarrow> reload_session_locked now tool b = (b', c) \<Longrightarrow> broker_inv b'"
  by (auto simp: reload_locked_def reload_session_locked_def Let_def intro: clear_bindings_inv)

subsection \<open>Requests\<close>

definition same_bindings :: "broker \<Rightarrow> broker \<Rightarrow> bool" where
  "same_bindings b b' \<longleftrightarrow>
     br_heap b' = br_heap b \<and> br_nextState b' = br_nextState b \<and> br_bindings b' = br_bindings b \<and>
     br_sessions b' = br_sessions b \<and> br_nonces b' = br_nonces b \<and> br_peerUIDs b' = br_peerUIDs b \<and>
     br_closed b' = br_closed b \<and> br_cfg b' = br_cfg b \<and> br_relays b' = br_relays b"

lemma same_supports: "same_bindings b b' \<Longrightarrow> supports b' = supports b"
  by (intro ext) (simp add: same_bindings_def supports_def view_def cong: option.case_cong)

lemma same_bindings_inv:
  assumes "same_bindings b b'" "broker_inv b" "requests_inv b'"
    and "br_file b' = br_file b" "br_sequence b' = br_sequence b"
  shows "broker_inv b'"
proof (rule broker_inv_frame [OF assms(2,3)])
  show "store_inv b'"
    using assms(1,2) by (simp add: broker_inv_def store_inv_def store_ok_def same_bindings_def)
qed (use assms in \<open>simp_all add: same_bindings_def\<close>)

lemma requests_inv_restrict:
  assumes inv: "requests_inv b" and same: "same_bindings b b'"
    and permits: "br_permits b' = filter (\<lambda>e. fst e \<in> K) (br_permits b)"
    and active: "br_active b' = filter (\<lambda>e. fst e \<in> K) (br_active b)"
    and consumed: "br_consumed b' = br_consumed b" and seq: "br_sequence b' = br_sequence b"
  shows "requests_inv b'"
proof -
  note wf = requests_wfD [OF inv]
  have permits_of: "map_of (br_permits b') q = Some p \<longleftrightarrow> map_of (br_permits b) q = Some p \<and> q \<in> K" for q p
    by (auto simp: permits map_of_filter_wf [OF wf(1)] split: option.splits)
  have active_of: "map_of (br_active b') q = Some a \<longleftrightarrow> map_of (br_active b) q = Some a \<and> q \<in> K" for q a
    by (auto simp: active map_of_filter_wf [OF wf(3)] split: option.splits)
  note sup = same_supports [OF same]
  have "request_ok b' q a" if "map_of (br_active b') q = Some a" for q a
  proof -
    have a: "map_of (br_active b) q = Some a" "q \<in> K" using that active_of by auto
    have "q \<in> keys (br_permits b') \<longleftrightarrow> q \<in> keys (br_permits b)"
      unfolding in_keys_Some permits_of using a(2) by simp
    then show ?thesis
      using request_okD [OF inv a(1)] unfolding request_ok_def sup seq by blast
  qed
  moreover have "permit_ok b' q p" if "map_of (br_permits b') q = Some p" for q p
  proof -
    have p: "map_of (br_permits b) q = Some p" "q \<in> K" using that permits_of by auto
    then show ?thesis
      using permit_okD [OF inv p(1)] active_of by (simp add: permit_ok_def sup)
  qed
  moreover have "q \<notin> keys (br_permits b')" if "q \<in> keys (br_consumed b)" for q
    using consumedD [OF inv that] unfolding in_keys_Some permits_of by blast
  moreover have "activeRequestCountLocked bid b' \<le> c_MaxParallelRequests (br_cfg b')" for bid
  proof -
    have "activeRequestCountLocked bid b' \<le> activeRequestCountLocked bid b"
      by (simp only: activeRequestCountLocked_def active of_nat_le_iff length_filter_filter_le)
    also have "\<dots> \<le> c_MaxParallelRequests (br_cfg b')"
      using inv same by (simp add: requests_inv_def same_bindings_def)
    finally show ?thesis .
  qed
  moreover have "wf_map (br_permits b')" "wf_map (br_active b')"
    using wf by (simp_all add: permits active)
  ultimately show ?thesis
    using consumedD [OF inv] wf(2) unfolding requests_inv_def consumed seq by blast
qed

lemma count_adjust:
  "(\<And>a. ar_bindingID (f a) = ar_bindingID a) \<Longrightarrow>
     length (filter (\<lambda>(q', a). ar_bindingID a = bid) (adjust q f m)) =
     length (filter (\<lambda>(q', a). ar_bindingID a = bid) m)"
  by (induction m) (auto simp: adjust_def split: if_splits)

lemma requests_inv_adjust:
  assumes inv: "requests_inv b" and same: "same_bindings b b'"
    and permits: "br_permits b' = br_permits b" and consumed: "br_consumed b' = br_consumed b"
    and active: "br_active b' = adjust q f (br_active b)" and seq: "br_sequence b' = br_sequence b"
    and f: "\<And>a. ar_bindingID (f a) = ar_bindingID a" "\<And>a. ar_generation (f a) = ar_generation a"
      "\<And>a. ar_requestID (f a) = ar_requestID a" "\<And>a. ar_sequence (f a) = ar_sequence a"
      "\<And>a. ar_expiresAt (f a) = ar_expiresAt a" "\<And>a. ar_submitted (f a) = ar_submitted a"
    and sent: "\<And>a. map_of (br_active b) q = Some a \<Longrightarrow> ar_sent (f a) \<longrightarrow> ar_submitted a"
  shows "requests_inv b'"
proof -
  note sup = same_supports [OF same]
  have "request_ok b' x a" if x: "map_of (br_active b') x = Some a" for x a
  proof -
    obtain a0 where a0: "map_of (br_active b) x = Some a0" "a = (if x = q then f a0 else a0)"
      using x by (auto simp: active split: if_splits)
    then show ?thesis
      using request_okD [OF inv a0(1)] f sent by (auto simp: request_ok_def sup permits seq)
  qed
  moreover have "permit_ok b' x p" if "map_of (br_permits b') x = Some p" for x p
    using permit_okD [OF inv, of x p] that f unfolding permit_ok_def sup permits active by fastforce
  moreover have "activeRequestCountLocked bid b' = activeRequestCountLocked bid b" for bid
    by (simp add: activeRequestCountLocked_def active count_adjust [OF f(1)])
  ultimately show ?thesis
    using inv same unfolding requests_inv_def same_bindings_def
    by (simp add: permits consumed active seq)
qed

definition expired_permits :: "gotime \<Rightarrow> broker \<Rightarrow> u64 set" where
  "expired_permits now b = {q. \<exists>p. map_of (br_permits b) q = Some p \<and> \<not> p_ExpiresAt p > now}"

lemma pruneExpired_restrict:
  assumes "requests_inv b"
  shows "br_permits (pruneExpiredPermitsLocked now b) =
      filter (\<lambda>e. fst e \<in> - expired_permits now b) (br_permits b)"
    and "br_active (pruneExpiredPermitsLocked now b) =
      filter (\<lambda>e. fst e \<in> - expired_permits now b) (br_active b)"
proof -
  note wf = requests_wfD [OF assms]
  have exp: "(q, p) \<in> set (br_permits b) \<Longrightarrow> q \<in> expired_permits now b \<longleftrightarrow> \<not> p_ExpiresAt p > now" for q p
    by (auto simp: expired_permits_def wf_map_set [OF wf(1)])
  show "br_permits (pruneExpiredPermitsLocked now b) =
      filter (\<lambda>e. fst e \<in> - expired_permits now b) (br_permits b)"
    using exp by (auto intro!: filter_cong)
  have keys_exp: "q \<in> fst ` set (filter (\<lambda>(q, p). \<not> p_ExpiresAt p > now) (br_permits b)) \<longleftrightarrow>
      q \<in> expired_permits now b" for q
    using wf_map_set [OF wf(1)] by (force simp: expired_permits_def)
  have unsub: "\<not> ar_submitted a" if "(q, a) \<in> set (br_active b)" "q \<in> expired_permits now b" for q a
  proof -
    have "q \<in> keys (br_permits b)" using that(2) unfolding expired_permits_def in_keys_Some by blast
    moreover have "request_ok b q a" using that(1) request_okD [OF assms] by (simp add: wf_map_set [OF wf(3)])
    ultimately show ?thesis unfolding request_ok_def by blast
  qed
  show "br_active (pruneExpiredPermitsLocked now b) =
      filter (\<lambda>e. fst e \<in> - expired_permits now b) (br_active b)"
    unfolding pruneExpired_active keys_exp by (rule filter_cong [OF refl]) (use unsub in auto)
qed

lemma pruneExpired_inv [inv_intro]:
  assumes "broker_inv b"
  shows "broker_inv (pruneExpiredPermitsLocked now b)"
proof -
  have req: "requests_inv b" using assms by (simp add: broker_inv_def)
  have same: "same_bindings b (pruneExpiredPermitsLocked now b)" by (simp add: same_bindings_def)
  have "requests_inv (pruneExpiredPermitsLocked now b)"
    by (rule requests_inv_restrict [OF req same pruneExpired_restrict [OF req]]) simp_all
  then show ?thesis using same_bindings_inv [OF same assms] by simp
qed

lemma del_restrict: "del q m = filter (\<lambda>e. fst e \<in> - {q}) m"
  by (simp add: del_def)

lemma drop_request_inv:
  assumes "broker_inv b" "same_bindings b b'" "br_permits b' = del q (br_permits b)"
    and "br_active b' = del q (br_active b)" "br_consumed b' = br_consumed b"
    and "br_sequence b' = br_sequence b" "br_file b' = br_file b"
  shows "broker_inv b'"
proof -
  have "requests_inv b'"
    by (rule requests_inv_restrict [where b = b and K = "- {q}"])
      (use assms in \<open>simp_all add: broker_inv_def del_restrict\<close>)
  then show ?thesis using same_bindings_inv [OF assms(2,1)] assms(6,7) by simp
qed

lemma del_adjust: "del q (adjust q f m) = del q m"
  by (induction m) (auto simp: del_def adjust_def)

lemma release_fields:
  "br_permits (releaseRequest q b) = del q (br_permits b)"
  "br_active (releaseRequest q b) = del q (br_active b)"
  "br_consumed (releaseRequest q b) = br_consumed b" "br_sequence (releaseRequest q b) = br_sequence b"
  "br_file (releaseRequest q b) = br_file b" "same_bindings b (releaseRequest q b)"
  by (simp_all add: releaseRequest_def Let_def del_adjust del_absent same_bindings_def split: option.split)

lemma release_inv [inv_intro]: "broker_inv b \<Longrightarrow> broker_inv (releaseRequest q b)"
  by (rule drop_request_inv) (simp_all add: release_fields)

lemma adjust_inv:
  assumes "broker_inv b" "same_bindings b b'" "br_permits b' = br_permits b"
    and "br_consumed b' = br_consumed b" "br_active b' = adjust q f (br_active b)"
    and "br_sequence b' = br_sequence b" "br_file b' = br_file b"
    and "\<And>a. ar_bindingID (f a) = ar_bindingID a" "\<And>a. ar_generation (f a) = ar_generation a"
      "\<And>a. ar_requestID (f a) = ar_requestID a" "\<And>a. ar_sequence (f a) = ar_sequence a"
      "\<And>a. ar_expiresAt (f a) = ar_expiresAt a" "\<And>a. ar_submitted (f a) = ar_submitted a"
    and "\<And>a. map_of (br_active b) q = Some a \<Longrightarrow> ar_sent (f a) \<longrightarrow> ar_submitted a"
  shows "broker_inv b'"
proof -
  have "requests_inv b'"
    by (rule requests_inv_adjust [where b = b and q = q and f = f])
      (use assms in \<open>simp_all add: broker_inv_def\<close>)
  then show ?thesis using same_bindings_inv [OF assms(2,1)] assms(6,7) by simp
qed

lemma sent_submitted: "broker_inv b \<Longrightarrow> map_of (br_active b) q = Some a \<Longrightarrow> ar_sent a \<longrightarrow> ar_submitted a"
  using request_okD [of b q a] unfolding broker_inv_def request_ok_def by blast

lemma cancel_inv [inv_intro]:
  assumes "broker_inv b" "cancel_mark bid gen rid q b = (b', res)"
  shows "broker_inv b'"
proof (cases "b' = b")
  case False
  then have "b' = upd_active q (\<lambda>r. r\<lparr>ar_cancel := True\<rparr>) b"
    using assms(2) by (auto simp: cancel_mark_def split: if_splits option.splits)
  then show ?thesis
    by (intro adjust_inv [OF assms(1), of b' q "\<lambda>r. r\<lparr>ar_cancel := True\<rparr>"])
      (simp_all add: same_bindings_def sent_submitted [OF assms(1)])
qed (use assms(1) in simp)

lemma sent_inv [inv_intro]:
  assumes "broker_inv b" "markRequestSent bid q b = (b', res)"
  shows "broker_inv b'"
proof (cases "b' = b")
  case False
  then have "b' = notifyRequestChangeLocked (upd_active q (\<lambda>r. r\<lparr>ar_sent := True\<rparr>) b)"
    "\<And>a. map_of (br_active b) q = Some a \<Longrightarrow> ar_submitted a"
    using assms(2) by (auto simp: markRequestSent_def split: if_splits option.splits)
  then show ?thesis
    by (intro adjust_inv [OF assms(1), of b' q "\<lambda>r. r\<lparr>ar_sent := True\<rparr>"])
      (simp_all add: same_bindings_def)
qed (use assms(1) in simp)

lemma finish_inv [inv_intro]:
  assumes "broker_inv b"
  shows "broker_inv (finishRequestForward q obs b)"
  unfolding finishRequestForward_def
  by (rule adjust_inv [OF assms, where q = q and f = "\<lambda>r. if ar_forwardDone r then r
            else r\<lparr>ar_serverTerminalObserved := obs, ar_forwardDone := True\<rparr>"])
    (simp_all add: same_bindings_def sent_submitted [OF assms])

lemma pruneConsumed_inv [inv_intro]:
  assumes "broker_inv b"
  shows "broker_inv (pruneConsumedLocked now b)"
proof -
  have req: "requests_inv b" using assms by (simp add: broker_inv_def)
  have same: "same_bindings b (pruneConsumedLocked now b)" by (simp add: same_bindings_def)
  have "view (pruneConsumedLocked now b) x = view b x" for x
    by (simp add: view_def cong: option.case_cong)
  then have "requests_inv (pruneConsumedLocked now b)"
    by (intro requests_inv_same [OF req]) (simp_all add: pruneConsumed_subset pruneConsumed_wf requests_wfD [OF req])
  then show ?thesis using same_bindings_inv [OF same assms] by simp
qed

lemma requests_inv_submit:
  assumes inv: "requests_inv b" and same: "same_bindings b b'" and p: "map_of (br_permits b) q = Some p"
    and permits: "br_permits b' = del q (br_permits b)"
    and active: "br_active b' = adjust q (\<lambda>r. r\<lparr>ar_submitted := True\<rparr>) (br_active b)"
    and consumed: "br_consumed b' = put q now (br_consumed b)" and seq: "br_sequence b' = br_sequence b"
  shows "requests_inv b'"
proof -
  note sup = same_supports [OF same] and wf = requests_wfD [OF inv]
  have permit_keys: "x \<in> keys (br_permits b') \<longleftrightarrow> x \<in> keys (br_permits b) \<and> x \<noteq> q" for x
    unfolding in_keys_Some by (simp add: permits)
  obtain a where a: "map_of (br_active b) q = Some a" using permit_okD [OF inv p] by (auto simp: permit_ok_def)
  have "request_ok b' x c" if x: "map_of (br_active b') x = Some c" for x c
  proof -
    obtain c0 where c0: "map_of (br_active b) x = Some c0" "c = (if x = q then c0\<lparr>ar_submitted := True\<rparr> else c0)"
      using x by (auto simp: active split: if_splits)
    then show ?thesis
      using request_okD [OF inv c0(1)] unfolding request_ok_def sup seq permit_keys by auto
  qed
  moreover have "permit_ok b' x p'" if x: "map_of (br_permits b') x = Some p'" for x p'
  proof -
    have "map_of (br_permits b) x = Some p'" "x \<noteq> q" using x by (auto simp: permits split: if_splits)
    then show ?thesis
      using permit_okD [OF inv] unfolding permit_ok_def sup active by simp
  qed
  moreover have "x \<le> br_sequence b' \<and> x \<notin> keys (br_permits b')" if "x \<in> keys (br_consumed b')" for x
  proof (cases "x = q")
    case True
    then show ?thesis
      using request_okD [OF inv a] permit_keys by (simp add: request_ok_def seq)
  next
    case False
    then have "x \<in> keys (br_consumed b)" using that unfolding in_keys_Some consumed by simp
    then show ?thesis using consumedD [OF inv] permit_keys seq by auto
  qed
  moreover have "activeRequestCountLocked bid b' = activeRequestCountLocked bid b" for bid
    by (simp add: activeRequestCountLocked_def active count_adjust)
  ultimately show ?thesis
    using wf inv same unfolding requests_inv_def same_bindings_def
    by (simp add: permits consumed active seq)
qed

lemma consume_cases:
  assumes "ConsumePermit now bid gen rid q n b = (b', res)"
  obtains (refused) "\<exists>e. res = Inl e" "b' = pruneConsumedLocked now b"
  | (expired) p where "map_of (br_permits b) q = Some p" "res = Inl ErrLeaseExpired" "p_ExpiresAt p \<le> now"
      "b' = notifyRequestChangeLocked (drop_active q
          ((pruneConsumedLocked now b)\<lparr>br_permits := del q (br_permits b)\<rparr>))"
  | (taken) p where "map_of (br_permits b) q = Some p" "res = Inr p" "p_ExpiresAt p > now"
      "p_BindingID p = bid" "p_Generation p = gen" "p_RequestID p = rid" "p_Sequence p = q"
      "0 \<le> n" "n \<le> p_MaxPayloadBytes p"
      "br_permits b' = del q (br_permits b)"
      "br_consumed b' = put q now (br_consumed (pruneConsumedLocked now b))"
      "br_active b' = adjust q (\<lambda>r. r\<lparr>ar_submitted := True\<rparr>) (br_active b)"
      "same_bindings b b'" "br_sequence b' = br_sequence b" "br_file b' = br_file b"
proof -
  have adj: "q \<notin> keys m \<Longrightarrow> adjust q f m = m" for f and m :: "(u64 \<times> activeRequest) list"
    by (auto simp: adjust_def image_iff intro!: map_idI)
  let ?b = "pruneConsumedLocked now b"
  show thesis
  proof (cases "map_of (br_permits b) q")
    case None
    then show thesis using assms by (intro refused) (auto simp: ConsumePermit_def Let_def split: if_splits)
  next
    case (Some p)
    let ?id = "p_BindingID p \<noteq> bid \<or> p_Generation p \<noteq> gen \<or> p_RequestID p \<noteq> rid \<or> p_Sequence p \<noteq> q"
    let ?size = "n < 0 \<or> n > p_MaxPayloadBytes p"
    consider "?id" | "\<not> ?id" "?size" | "\<not> ?id" "\<not> ?size" "p_ExpiresAt p \<le> now"
      | "\<not> ?id" "\<not> ?size" "p_ExpiresAt p > now" by linarith
    then show thesis
    proof cases
      case 1
      then show thesis using assms Some by (intro refused) (auto simp: ConsumePermit_def Let_def)
    next
      case 2
      then show thesis using assms Some by (intro refused) (auto simp: ConsumePermit_def Let_def)
    next
      case 3
      then show thesis using assms Some by (intro expired) (auto simp: ConsumePermit_def Let_def)
    next
      case 4
      then show thesis
        using assms Some by (intro taken [of p])
          (auto simp: ConsumePermit_def Let_def same_bindings_def adj split: if_splits)
    qed
  qed
qed

lemma consume_inv [inv_intro]:
  assumes "broker_inv b" "ConsumePermit now bid gen rid q n b = (b', res)"
  shows "broker_inv b'"
  using assms(2)
proof (cases rule: consume_cases)
  case refused
  then show ?thesis using pruneConsumed_inv [OF assms(1)] by simp
next
  case (expired p)
  show ?thesis
    by (rule drop_request_inv [OF pruneConsumed_inv [OF assms(1), of now], where q = q])
      (simp_all add: expired(4) same_bindings_def)
next
  case (taken p)
  let ?b = "pruneConsumedLocked now b"
  have same: "same_bindings ?b b'" using taken(13) by (simp add: same_bindings_def)
  have "requests_inv b'"
    by (rule requests_inv_submit [where b = ?b and q = q and p = p and now = now])
      (use taken same pruneConsumed_inv [OF assms(1), of now] in \<open>simp_all add: broker_inv_def\<close>)
  then show ?thesis
    using same_bindings_inv [OF taken(13) assms(1)] taken(14,15) by simp
qed

lemma nextSequence_cases:
  assumes "nextSequenceLocked env b = (b1, res)" "c_StateRoot (br_cfg b) \<noteq> []"
  obtains (failed) "\<exists>e. res = Inl e" "b1 = b"
  | (advanced) "res = Inr (br_sequence b + 1)" "br_sequence b < br_sequence b + 1"
      "b1 = b\<lparr>br_sequence := br_sequence b + 1, br_file := SequenceState (br_sequence b + 1)\<rparr>"
proof (cases "br_sequence b = - 1")
  case True
  then show thesis using assms(1) by (intro failed) (auto simp: nextSequenceLocked_def)
next
  case False
  show thesis
  proof (cases "persist_loop env [0, 1, 2]")
    case None
    then show thesis
      using assms False u64_less_inc [OF False]
      by (intro advanced) (simp_all add: nextSequenceLocked_def persistSequence_def Let_def del: persist_loop.simps)
  next
    case (Some e)
    then show thesis
      using assms False by (intro failed) (auto simp: nextSequenceLocked_def persistSequence_def Let_def simp del: persist_loop.simps)
  qed
qed

lemma bindingForSession_ok:
  assumes "bindingForSessionLocked tool b = Inr r"
  obtains bid where "(bid, r) \<in> set (br_bindings b)" "ToolSessionID (metadata_of b r) = tool"
    "session_bindings tool b = [(bid, r)]"
proof -
  obtain bid where "session_bindings tool b = [(bid, r)]"
    using assms by (auto simp: bindingForSessionLocked_def split: list.splits)
  then have "(bid, r) \<in> set (session_bindings tool b)" by simp
  then show thesis
    using \<open>session_bindings tool b = [(bid, r)]\<close> by (intro that) (auto simp: session_bindings_def)
qed

lemma admit_cases:
  fixes now b defines "c \<equiv> pruneExpiredPermitsLocked now b"
  assumes "admit now env rndID rndKey nonce tool dts sc b = (b', res)" "c_StateRoot (br_cfg b) \<noteq> []"
  obtains (refused) "\<exists>e. res = Inl e" "b' = c"
  | (gap) "\<exists>e. res = Inl e" "br_sequence b < br_sequence b + 1"
      "b' = c\<lparr>br_sequence := br_sequence b + 1, br_file := SequenceState (br_sequence b + 1)\<rparr>"
  | (issued) r m requestID expiresAt key permit where
      "get_str (br_nonces b) nonce = tool" "bindingForSessionLocked tool c = Inr r"
      "m = metadata_of b r" "Status m = ''active''" "LeaseHealth m = ''healthy''" "BindingGeneration m \<noteq> 0"
      "activeRequestCountLocked (BindingID m) c < min (c_MaxParallelRequests (br_cfg b)) (MaxParallelRequests m)"
      "br_sequence b < br_sequence b + 1" "permit_expiry now m = Inr expiresAt" "res = Inr permit"
      "permit = new_permit (br_cfg b) m requestID (br_sequence b + 1) expiresAt dts sc key"
      "b' = notifyRequestChangeLocked (c\<lparr>br_sequence := br_sequence b + 1,
          br_file := SequenceState (br_sequence b + 1),
          br_permits := put (br_sequence b + 1) permit (br_permits c),
          br_active := put (br_sequence b + 1) (new_request m requestID (br_sequence b + 1) expiresAt) (br_active c)\<rparr>)"
proof -
  have meta: "metadata_of c r = metadata_of b r" for r by (simp add: c_def deref_def)
  note adm = assms(2) [unfolded admit_def, folded c_def, unfolded Let_def meta]
  consider "get_str (br_nonces c) nonce \<noteq> tool" | e where "bindingForSessionLocked tool c = Inl e"
    | r where "get_str (br_nonces c) nonce = tool" "bindingForSessionLocked tool c = Inr r"
    by (cases "bindingForSessionLocked tool c") auto
  then show thesis
  proof cases
    case 1
    then show thesis using adm by (intro refused) auto
  next
    case (2 e)
    then show thesis using adm by (intro refused) (auto split: if_splits)
  next
    case (3 r)
    let ?m = "metadata_of b r"
    show thesis
    proof (cases "Status ?m \<noteq> ''active'' \<or> LeaseHealth ?m \<noteq> ''healthy'' \<or> BindingGeneration ?m = 0 \<or>
        activeRequestCountLocked (BindingID ?m) c \<ge> min (c_MaxParallelRequests (br_cfg c)) (MaxParallelRequests ?m)")
      case True
      then show thesis using adm 3 by (intro refused) (auto split: if_splits)
    next
      case ok: False
      obtain b1 r1 where nx: "nextSequenceLocked env c = (b1, r1)" by (cases "nextSequenceLocked env c")
      have root: "c_StateRoot (br_cfg c) \<noteq> []" using assms(3) by (simp add: c_def)
      from nx root show thesis
      proof (cases rule: nextSequence_cases)
        case failed
        then show thesis using adm 3 ok nx by (intro refused) auto
      next
        case nxt: advanced
        have seq: "br_sequence c = br_sequence b" by (simp add: c_def)
        show thesis
        proof (cases "\<exists>p. res = Inr p")
          case False
          then have "b' = b1" "\<exists>e. res = Inl e"
            using adm 3 ok nx nxt(1) by (auto split: sum.splits)
          then show thesis using nxt by (intro gap) (simp_all add: seq)
        next
          case True
          then obtain requestID key expiresAt where
            "randomToken 18 rndID = Inr requestID" "rand_read 32 rndKey = Inr key"
            "permit_expiry now ?m = Inr expiresAt"
            using adm 3 ok nx nxt(1) by (auto split: sum.splits)
          then show thesis
            using adm 3 ok nx nxt by (intro issued [of r ?m expiresAt _ requestID key])
              (auto simp: c_def)
        qed
      qed
    qed
  qed
qed

lemma requests_inv_add:
  assumes inv: "requests_inv c" and same: "same_bindings c b'" and new: "br_sequence c < q"
    and permits: "br_permits b' = put q p (br_permits c)" and active: "br_active b' = put q a (br_active c)"
    and consumed: "br_consumed b' = br_consumed c" and seq: "br_sequence b' = q"
    and a: "ar_sequence a = q" "\<not> ar_submitted a" "\<not> ar_sent a" "ar_bindingID a = p_BindingID p"
      "ar_generation a = p_Generation p" "ar_requestID a = p_RequestID p" "ar_expiresAt a = p_ExpiresAt p"
    and p: "p_Sequence p = q" "p_MaxPayloadBytes p = defaultMaxPayloadBytes"
      "supports c (p_BindingID p) (p_Generation p) st" "AllowlistRevision (bs_metadata st) = p_AllowlistRevision p"
      "LearningBundleDigest (bs_metadata st) = p_LearningBundleDigest p"
      "dedicatedTaskSpace (ToolSessionID (bs_metadata st)) = Inr (p_DefaultTaskSpace p)"
    and count: "activeRequestCountLocked (p_BindingID p) c < c_MaxParallelRequests (br_cfg c)"
  shows "requests_inv b'"
proof -
  note sup = same_supports [OF same] and wf = requests_wfD [OF inv]
  have le: "x \<le> br_sequence c \<Longrightarrow> x \<le> q \<and> x \<noteq> q" for x using new by auto
  have na: "map_of (br_active c) q = None"
    using request_okD [OF inv, of q] le by (cases "map_of (br_active c) q") (auto simp: request_ok_def)
  have permit_keys: "x \<in> keys (br_permits b') \<longleftrightarrow> x = q \<or> x \<in> keys (br_permits c)" for x
    unfolding in_keys_Some permits by auto
  have "q \<noteq> 0" using new by auto
  then have "request_ok b' q a"
    using a p(3) permit_keys unfolding request_ok_def sup seq by auto
  moreover have "request_ok b' x a'" if "map_of (br_active c) x = Some a'" for x a'
    using request_okD [OF inv that] le [of x] permit_keys unfolding request_ok_def sup seq by blast
  moreover have "permit_ok b' q p"
    using a p unfolding permit_ok_def sup active by auto
  moreover have "permit_ok b' x p'" if "map_of (br_permits c) x = Some p'" for x p'
  proof -
    have "x \<noteq> q" using permit_okD [OF inv that] na by (auto simp: permit_ok_def)
    then show ?thesis using permit_okD [OF inv that] unfolding permit_ok_def sup active by simp
  qed
  moreover have "x \<le> br_sequence b' \<and> x \<notin> keys (br_permits b')" if "x \<in> keys (br_consumed c)" for x
    using consumedD [OF inv that] le [of x] permit_keys seq by auto
  moreover have "activeRequestCountLocked bid b' \<le> c_MaxParallelRequests (br_cfg b')" for bid
  proof -
    have "br_active b' = br_active c @ [(q, a)]"
      using na unfolding active by (intro put_fresh) (simp add: map_of_eq_None_iff)
    then have "activeRequestCountLocked bid b' =
        activeRequestCountLocked bid c + (if bid = p_BindingID p then 1 else 0)"
      using a(4) by (simp add: activeRequestCountLocked_def)
    moreover have "activeRequestCountLocked bid c \<le> c_MaxParallelRequests (br_cfg c)"
      using inv by (simp add: requests_inv_def)
    ultimately show ?thesis using count same by (auto simp: same_bindings_def)
  qed
  ultimately show ?thesis
    using wf unfolding requests_inv_def permits active consumed by (simp add: seq)
qed

lemma session_of_nonce:
  assumes "sessions_inv b" "get_str (br_nonces b) nonce = tool" "tool \<noteq> []"
  shows "tool \<in> keys (br_sessions b)"
proof -
  have "map_of (br_nonces b) nonce = Some tool" using get_str_nonempty [OF assms(2,3)] .
  then have "map_of (br_sessions b) tool = Some nonce" using assms(1) by (simp add: sessions_inv_def)
  then show ?thesis unfolding in_keys_Some by blast
qed

lemma issued_supports:
  assumes "broker_inv b" "get_str (br_nonces b) nonce = tool" "tool \<noteq> []"
    and "bindingForSessionLocked tool b = Inr r"
    and "Status (metadata_of b r) = ''active''" "LeaseHealth (metadata_of b r) = ''healthy''"
  shows "supports b (BindingID (metadata_of b r)) (BindingGeneration (metadata_of b r)) (deref b r)"
    and "ToolSessionID (metadata_of b r) = tool"
proof -
  have inv: "store_inv b" "sessions_inv b" using assms(1) by (simp_all add: broker_inv_def)
  obtain bid where mem: "(bid, r) \<in> set (br_bindings b)" and tool: "ToolSessionID (metadata_of b r) = tool"
    using bindingForSession_ok [OF assms(4)] by blast
  have "wf_map (br_bindings b)" using inv(1) by (simp add: store_inv_def)
  then have bid: "map_of (br_bindings b) bid = Some r" using mem by (simp add: wf_map_set)
  obtain st where "deref b r = st" "state_ok bid st" "view b bid = Some st"
    using deref_current [OF inv(1) bid] by blast
  then show "supports b (BindingID (metadata_of b r)) (BindingGeneration (metadata_of b r)) (deref b r)"
    using assms(5,6) tool session_of_nonce [OF inv(2) assms(2,3)]
    by (auto simp: supports_def state_ok_def)
  show "ToolSessionID (metadata_of b r) = tool" by (rule tool)
qed

lemma config_inv_next:
  "config_inv b \<Longrightarrow> br_cfg b' = br_cfg b \<Longrightarrow> br_sequence b' = q \<Longrightarrow> br_file b' = SequenceState q \<Longrightarrow> config_inv b'"
  by (simp add: config_inv_def loadSequence_def)

lemma permit_scope_ok:
  assumes "permit_scope request b = Inr (tool, r, dts, sc)"
  shows "tool \<noteq> []" "dedicatedTaskSpace tool = Inr dts"
    "sc_mode sc \<noteq> ''binding'' \<Longrightarrow> sc_taskSpace sc = dts"
  using assms
  by (auto simp: permit_scope_def bindingForNonce_def sessionForNonceLocked_def Let_def
      split: option.splits sum.splits if_splits prod.splits)

lemma admit_inv [inv_intro]:
  assumes "broker_inv b" "admit now env rndID rndKey nonce tool dts sc b = (b', res)"
    and "tool \<noteq> []" "dedicatedTaskSpace tool = Inr dts"
  shows "broker_inv b'"
proof -
  let ?c = "pruneExpiredPermitsLocked now b" and ?q = "br_sequence b + 1"
  have c: "broker_inv ?c" using pruneExpired_inv [OF assms(1)] .
  have root: "c_StateRoot (br_cfg b) \<noteq> []" using assms(1) by (simp add: broker_inv_def config_inv_def)
  have parts: "requests_inv ?c" "store_inv ?c" "sessions_inv ?c" "config_inv ?c" "relays_inv ?c"
    using c by (simp_all add: broker_inv_def)
  from assms(2) root show ?thesis
  proof (cases rule: admit_cases)
    case refused
    then show ?thesis using c by simp
  next
    case gap
    have "requests_inv b'"
      by (rule requests_inv_filter [where b = ?c and X = "{}"])
        (use gap parts in \<open>auto simp: requests_inv_def case_prod_beta' view_def intro: less_imp_le cong: option.case_cong\<close>)
    moreover have "config_inv b'"
      by (rule config_inv_next [OF parts(4), of _ ?q]) (simp_all add: gap(3))
    ultimately show ?thesis
      using parts(2,3,5)
      by (simp add: gap(3) broker_inv_def store_inv_def store_ok_def sessions_inv_def relays_inv_def)
  next
    case (issued r m requestID expiresAt key permit)
    have meta: "metadata_of ?c r = m" using issued(3) by (simp add: deref_def)
    have same: "same_bindings ?c b'" by (simp add: issued(12) same_bindings_def)
    note sup = issued_supports [OF c _ assms(3) issued(2), of nonce, unfolded meta]
    have "requests_inv b'"
      by (rule requests_inv_add [where c = ?c and q = ?q and p = permit and st = "deref ?c r"
            and a = "new_request m requestID ?q expiresAt"])
        (use parts issued sup meta same assms(4) in \<open>auto simp: new_permit_def new_request_def\<close>)
    moreover have "config_inv b'"
      by (rule config_inv_next [OF parts(4), of _ ?q]) (simp_all add: issued(12))
    ultimately show ?thesis
      using parts(2,3,5)
      by (simp add: issued(12) broker_inv_def store_inv_def store_ok_def sessions_inv_def relays_inv_def)
  qed
qed

end
