(* ===== verification/Broker_Runs.thy ===== *)
theory Broker_Runs
  imports Broker_Steps
begin

section \<open>Sessions, snapshots and runs of the broker\<close>

text \<open>
  The remaining operations keep the invariant too. The step relation collects all locked
  sections: its runs are the interleavings of the goroutines that use a broker, with
  restarts of the node in between.
\<close>

subsection \<open>Sessions\<close>

lemma clear_bindings_fields:
  "br_permits (clear_bindings now ids b) = filter (\<lambda>(q, p). p_BindingID p \<notin> set ids) (br_permits b)"
  "br_active (clear_bindings now ids b) = filter (\<lambda>(q, a). ar_bindingID a \<notin> set ids) (br_active b)"
  "br_sequence (clear_bindings now ids b) = br_sequence b" "br_cfg (clear_bindings now ids b) = br_cfg b"
  "br_closed (clear_bindings now ids b) = br_closed b" "br_sessions (clear_bindings now ids b) = br_sessions b"
  "br_nonces (clear_bindings now ids b) = br_nonces b" "br_peerUIDs (clear_bindings now ids b) = br_peerUIDs b"
  "br_file (clear_bindings now ids b) = br_file b" "br_relays (clear_bindings now ids b) = br_relays b"
  "br_bindings (clear_bindings now ids b) = br_bindings b"
  "map_option binding_core (view (clear_bindings now ids b) x) = map_option binding_core (view b x)"
  "store_inv (clear_bindings now ids b) = store_inv b"
proof (induction ids arbitrary: b)
  case Nil
  {
    case 1
    then show ?case by (simp add: clear_bindings_def case_prod_beta')
  next
    case 2
    then show ?case by (simp add: clear_bindings_def case_prod_beta')
  }
qed (simp_all add: clear_bindings_def case_prod_beta' conj_commute)

lemma clear_bindings_consumed:
  "wf_map (br_consumed b) \<Longrightarrow> wf_map (br_consumed (clear_bindings now ids b))"
  "set (br_consumed (clear_bindings now ids b)) \<subseteq> set (br_consumed b)"
proof (induction ids arbitrary: b)
  case (Cons i ids)
  {
    case 1
    then show ?case using Cons(1) by (simp add: clear_bindings_def pruneConsumed_wf)
  next
    case 2
    have "set (br_consumed (clear_bindings now ids (clearBindingMaterialsLocked now i b))) \<subseteq>
        set (br_consumed (pruneConsumedLocked now b))"
      using Cons(2) [of "clearBindingMaterialsLocked now i b"] by simp
    then show ?case using pruneConsumed_subset [of now b] by (simp add: clear_bindings_def)
  }
qed (simp_all add: clear_bindings_def)

lemma unregister_cases:
  fixes b tool defines "nonce \<equiv> get_str (br_sessions b) tool"
  assumes "unregister_locked now tool expected b = (b', ok, toClose)"
  obtains (kept) "\<not> ok" "b' = b" "toClose = []"
  | (removed) b1 where "ok" "nonce \<noteq> []" "toClose = map snd (session_bindings tool b)"
      "b1 = b\<lparr>br_sessions := del tool (br_sessions b), br_nonces := del nonce (br_nonces b),
              br_peerUIDs := del tool (br_peerUIDs b)\<rparr>"
      "b' = clear_bindings now (map fst (session_bindings tool b)) b1"
proof -
  have sb: "session_bindings tool (b\<lparr>br_sessions := x, br_nonces := y, br_peerUIDs := z\<rparr>) = session_bindings tool b"
    for x y z by (simp add: session_bindings_def deref_def)
  show thesis
  proof (cases "nonce = [] \<or> expected \<noteq> [] \<and> nonce \<noteq> expected")
    case True
    then show thesis using assms by (intro kept) (auto simp: unregister_locked_def Let_def)
  next
    case False
    then show thesis using assms by (intro removed) (auto simp: unregister_locked_def Let_def sb)
  qed
qed

lemma sessions_inv_remove:
  assumes "sessions_inv b" "map_of (br_sessions b) tool = Some nonce"
    and "br_sessions b' = del tool (br_sessions b)" "br_nonces b' = del nonce (br_nonces b)"
    and "br_peerUIDs b' = del tool (br_peerUIDs b)"
  shows "sessions_inv b'"
proof -
  have inv: "\<And>t n. map_of (br_sessions b) t = Some n \<longleftrightarrow> map_of (br_nonces b) n = Some t"
    and ne: "\<And>t n. map_of (br_sessions b) t = Some n \<Longrightarrow> n \<noteq> [] \<and> t \<noteq> [] \<and> is_ok (dedicatedTaskSpace t)"
    using assms(1) by (simp_all add: sessions_inv_def)
  have "map_of (br_sessions b') t = Some n \<longleftrightarrow> map_of (br_nonces b') n = Some t" for t n
  proof (cases "t = tool \<or> n = nonce")
    case True
    then show ?thesis using inv [of t n] inv [of t nonce] inv [of tool n] assms(2) by (auto simp: assms(3,4))
  next
    case False
    then show ?thesis using inv by (simp add: assms(3,4))
  qed
  moreover have "map_of (br_sessions b') t = Some n \<Longrightarrow> n \<noteq> [] \<and> t \<noteq> [] \<and> is_ok (dedicatedTaskSpace t)" for t n
    using ne by (simp add: assms(3) split: if_splits)
  moreover have "keys (br_peerUIDs b') \<subseteq> keys (br_sessions b')"
    using assms(1) by (auto simp: assms(3,5) sessions_inv_def)
  ultimately show ?thesis
    using assms(1) unfolding sessions_inv_def by (simp add: assms(3-5))
qed

lemma unregister_inv [inv_intro]:
  assumes "broker_inv b" "unregister_locked now tool expected b = (b', ok, toClose)"
  shows "broker_inv b'"
  using assms(2)
proof (cases rule: unregister_cases)
  case kept
  then show ?thesis using assms(1) by simp
next
  case (removed b1)
  have parts: "requests_inv b" "store_inv b" "sessions_inv b" "config_inv b" "relays_inv b"
    using assms(1) by (simp_all add: broker_inv_def)
  let ?ids = "map fst (session_bindings tool b)"
  have view1: "view b1 = view b"
    by (intro ext) (simp add: removed(4) view_def cong: option.case_cong)
  have other: "ToolSessionID (bs_metadata st) \<noteq> tool" if v: "bid \<notin> set ?ids" "view b bid = Some st" for bid st
  proof
    assume "ToolSessionID (bs_metadata st) = tool"
    moreover obtain r where r: "map_of (br_bindings b) bid = Some r" "br_heap b r = Some st"
      using v(2) by (auto simp: view_def split: option.splits)
    ultimately have "(bid, r) \<in> set (session_bindings tool b)"
      using map_of_SomeD [OF r(1)] by (simp add: session_bindings_def deref_def)
    then show False using v(1) by force
  qed
  have "requests_inv b'"
  proof (rule requests_inv_filter [OF parts(1), where X = "set ?ids"])
    show "wf_map (br_consumed b')" "set (br_consumed b') \<subseteq> set (br_consumed b)"
      using clear_bindings_consumed(1) [of b1 now ?ids] clear_bindings_consumed(2) [of now ?ids b1]
        requests_wfD(2) [OF parts(1)]
      by (simp_all add: removed(4,5))
    show "br_closed b' \<or> \<not> br_closed b \<and> (\<forall>bid st. bid \<notin> set ?ids \<longrightarrow> view b bid = Some st \<longrightarrow>
        ToolSessionID (bs_metadata st) \<in> keys (br_sessions b) \<longrightarrow> ToolSessionID (bs_metadata st) \<in> keys (br_sessions b'))"
      using other by (auto simp: removed(4,5) clear_bindings_fields set_del image_iff)
  qed (simp_all add: removed(4,5) clear_bindings_fields view1 [unfolded removed(4)])
  moreover have "store_inv b'"
    unfolding removed(5) clear_bindings_fields
    using parts(2) by (simp add: removed(4) store_inv_def store_ok_def)
  moreover have "sessions_inv b'"
    by (rule sessions_inv_remove [OF parts(3) get_str_nonempty [OF refl removed(2)]])
      (simp_all add: removed(4,5) clear_bindings_fields)
  ultimately show ?thesis
    using parts(4,5)
    by (simp add: broker_inv_def config_inv_def relays_inv_def removed(4,5) clear_bindings_fields)
qed

lemma register_inv_broker [inv_intro]:
  assumes "broker_inv b" "RegisterToolSession tool draws b = Some (b', res)"
  shows "broker_inv b'"
proof (cases "b' = b")
  case False
  have ok: "validOpaqueText tool 128" "is_ok (dedicatedTaskSpace tool)" "get_str (br_sessions b) tool = []"
    and loop: "register_loop tool draws b = Some (b', res)"
    using assms(2) False
    by (auto simp: RegisterToolSession_def Let_def split: if_splits sum.splits)
  have parts: "requests_inv b" "store_inv b" "sessions_inv b" "config_inv b" "relays_inv b"
    using assms(1) by (simp_all add: broker_inv_def)
  obtain n where n: "n \<notin> keys (br_nonces b)" "n \<noteq> []"
    and b': "b' = b\<lparr>br_sessions := put tool n (br_sessions b), br_nonces := put n tool (br_nonces b)\<rparr>"
    using loop False
  proof (induction tool draws b rule: register_loop.induct)
    case (2 tool rnd draws b)
    show ?case
    proof (cases "randomToken 32 rnd")
      case (Inr nonce)
      then have "nonce \<noteq> []"
        by (auto simp: randomToken_def rand_read_def split: option.splits dest!: sym [of _ nonce]
            intro!: b64_encode_nonempty)
      then show ?thesis using 2 Inr by (cases "nonce \<in> keys (br_nonces b)") auto
    qed (use 2 in auto)
  qed simp
  have none: "map_of (br_sessions b) tool = None"
  proof (cases "map_of (br_sessions b) tool")
    case (Some m)
    then show ?thesis using ok(3) parts(3) by (auto simp: get_str_def sessions_inv_def)
  qed
  have inv: "\<And>t n. map_of (br_sessions b) t = Some n \<longleftrightarrow> map_of (br_nonces b) n = Some t"
    using parts(3) by (simp add: sessions_inv_def)
  have "n' \<noteq> n" if "map_of (br_nonces b) n' = Some t" for n' t
    using that n(1) unfolding in_keys_Some by blast
  then have "map_of (br_sessions b') t = Some m \<longleftrightarrow> map_of (br_nonces b') m = Some t" for t m
    using inv [of t m] none by (auto simp: b')
  moreover have "tool \<noteq> []" using ok(1) by (simp add: validOpaqueText_def)
  ultimately have "sessions_inv b'"
    using parts(3) n(2) ok(2) unfolding sessions_inv_def by (auto simp: b' split: if_splits)
  moreover have "view b' x = view b x" for x by (simp add: b' view_def cong: option.case_cong)
  then have "requests_inv b'"
    by (intro requests_inv_same [OF parts(1)]) (auto simp: b' requests_wfD [OF parts(1)])
  ultimately show ?thesis
    using parts(2,4,5) by (simp add: broker_inv_def b' store_inv_def store_ok_def config_inv_def relays_inv_def)
qed (use assms(1) in simp)

lemma authorize_inv [inv_intro]:
  assumes "broker_inv b" "authorize_commit tool nonce uid b = (b', res)" "tool \<noteq> []"
  shows "broker_inv b'"
proof (cases "b' = b")
  case False
  then have g: "get_str (br_nonces b) nonce = tool"
    and b': "b' = b\<lparr>br_peerUIDs := put tool uid (br_peerUIDs b)\<rparr>"
    using assms(2) by (auto simp: authorize_commit_def split: if_splits option.splits)
  have parts: "requests_inv b" "store_inv b" "sessions_inv b" "config_inv b" "relays_inv b"
    using assms(1) by (simp_all add: broker_inv_def)
  have "sessions_inv b'"
    using parts(3) session_of_nonce [OF parts(3) g assms(3)] by (simp add: sessions_inv_def b')
  moreover have "view b' x = view b x" for x by (simp add: b' view_def cong: option.case_cong)
  then have "requests_inv b'"
    by (intro requests_inv_same [OF parts(1)]) (auto simp: b' requests_wfD [OF parts(1)])
  ultimately show ?thesis
    using parts(2,4,5) by (simp add: broker_inv_def b' store_inv_def store_ok_def config_inv_def relays_inv_def)
qed (use assms(1) in simp)

lemma closed_inv [inv_intro]:
  assumes "broker_inv b"
  shows "broker_inv (b\<lparr>br_closed := True\<rparr>)"
proof -
  have parts: "requests_inv b" "store_inv b" "sessions_inv b" "config_inv b" "relays_inv b"
    using assms(1) by (simp_all add: broker_inv_def)
  have "view (b\<lparr>br_closed := True\<rparr>) x = view b x" for x by (simp add: view_def cong: option.case_cong)
  then have "requests_inv (b\<lparr>br_closed := True\<rparr>)"
    by (intro requests_inv_filter [OF parts(1), where X = "{}"])
      (auto simp: requests_wfD [OF parts(1)] case_prod_beta')
  then show ?thesis
    using parts(2-5) by (simp add: broker_inv_def store_inv_def store_ok_def sessions_inv_def config_inv_def relays_inv_def)
qed

lemma close_clear_inv [inv_intro]:
  assumes "broker_inv b" "br_closed b"
  shows "broker_inv (close_clear b)"
proof -
  have parts: "requests_inv b" "store_inv b" "config_inv b" "relays_inv b"
    using assms(1) by (simp_all add: broker_inv_def)
  have "view (close_clear b) x = view b x" for x by (simp add: close_clear_def view_def cong: option.case_cong)
  then have "requests_inv (close_clear b)"
    by (intro requests_inv_filter [OF parts(1), where X = "{}"])
      (auto simp: requests_wfD [OF parts(1)] case_prod_beta' close_clear_def assms(2))
  then show ?thesis
    using parts(2-4)
    by (simp add: broker_inv_def close_clear_def store_inv_def store_ok_def sessions_inv_def config_inv_def relays_inv_def)
qed

subsection \<open>Relays\<close>

lemma state_ok_relay [simp]: "state_ok bid (st\<lparr>bs_relay := q\<rparr>) = state_ok bid st"
  by (simp add: state_ok_def)

lemma broker_inv_relay:
  assumes "broker_inv b"
    and same: "br_permits b' = br_permits b" "br_active b' = br_active b" "br_consumed b' = br_consumed b"
      "br_sequence b' = br_sequence b" "br_cfg b' = br_cfg b" "br_closed b' = br_closed b"
      "br_sessions b' = br_sessions b" "br_nonces b' = br_nonces b" "br_peerUIDs b' = br_peerUIDs b"
      "br_file b' = br_file b" "br_bindings b' = br_bindings b" "br_nextState b' = br_nextState b"
    and heap: "br_heap b' = br_heap b \<or>
        (\<exists>r q. br_heap b' = (br_heap b)(r := map_option (\<lambda>st. st\<lparr>bs_relay := q\<rparr>) (br_heap b r)))"
    and relays: "relays_inv b'"
  shows "broker_inv b'"
proof -
  have parts: "requests_inv b" "store_inv b" "sessions_inv b" "config_inv b"
    using assms(1) by (simp_all add: broker_inv_def)
  have "map_option binding_core (br_heap b' r) = map_option binding_core (br_heap b r)" for r
    using heap by (auto simp: option.map_comp comp_def)
  then have "map_option binding_core (view b' x) = map_option binding_core (view b x)" for x
    by (auto simp: view_def same split: option.splits)
  then have "requests_inv b'"
    by (intro requests_inv_same [OF parts(1)]) (simp_all add: same requests_wfD [OF parts(1)])
  have "store_ok b' bid r \<longleftrightarrow> store_ok b bid r" for bid r
    using heap
  proof
    assume "br_heap b' = br_heap b"
    then show ?thesis by (simp add: store_ok_def same)
  next
    assume "\<exists>r q. br_heap b' = (br_heap b)(r := map_option (\<lambda>st. st\<lparr>bs_relay := q\<rparr>) (br_heap b r))"
    then show ?thesis by (auto simp: store_ok_def same split: if_splits)
  qed
  moreover have "r < br_nextState b" if "br_heap b' r = Some st" for r st
  proof -
    have "\<exists>st. br_heap b r = Some st" using heap that by (auto split: if_splits)
    then show ?thesis using parts(2) by (auto simp: store_inv_def)
  qed
  ultimately have "store_inv b'" using parts(2) by (simp add: store_inv_def same)
  moreover note \<open>requests_inv b'\<close>
  ultimately show ?thesis
    using parts(3,4) relays by (simp add: broker_inv_def sessions_inv_def config_inv_def same)
qed

lemma closeWithError_inv: "relay_inv session \<Longrightarrow> closeWithError session reason = (session', sent) \<Longrightarrow> relay_inv session'"
  using close_inv(1) [of session] close_inv(2) [of "close_begin session" reason session' sent]
  by (auto simp: closeWithError_def close_begin_def split: if_splits)

lemma closeRelay_inv [inv_intro]:
  assumes "broker_inv b"
  shows "broker_inv (closeRelay r reason b)"
proof -
  have rel: "relays_inv b" using assms by (simp add: broker_inv_def)
  show ?thesis
    by (rule broker_inv_relay [OF assms])
      (use rel in \<open>auto simp: closeRelay_def Let_def relays_inv_def split: option.splits prod.splits
        dest: closeWithError_inv\<close>)
qed

lemma failRelay_inv [inv_intro]:
  assumes "broker_inv b"
  shows "broker_inv (failRelay r q reason b)"
proof -
  have rel: "relays_inv b" using assms by (simp add: broker_inv_def)
  show ?thesis
    by (rule broker_inv_relay [OF assms])
      (use rel in \<open>auto simp: failRelay_def Let_def relays_inv_def split: option.splits prod.splits
        dest: closeWithError_inv\<close>)
qed

lemma relay_install_inv [inv_intro]:
  assumes "broker_inv b" "relay_install r epoch b = (b', res)"
  shows "broker_inv b'"
proof (cases "b' = b")
  case False
  then have b': "b' = (upd_state r (\<lambda>st. st\<lparr>bs_relay := Some (br_nextRelay b)\<rparr>) b)
      \<lparr>br_relays := (br_relays b)(br_nextRelay b \<mapsto> newRelaySession), br_nextRelay := Suc (br_nextRelay b)\<rparr>"
    using assms(2) by (auto simp: relay_install_def Let_def split: if_splits)
  have "relays_inv b'"
    using assms(1) by (auto simp: b' broker_inv_def relays_inv_def relay_inv_new)
  then show ?thesis
    by (rule broker_inv_relay [OF assms(1), rotated -1]) (auto simp: b')
qed (use assms(1) in simp)

text \<open>A step of one relay session, with what it sends.\<close>

definition relay_update :: "nat \<Rightarrow> relaySession \<Rightarrow> (nat \<times> relayResult) list \<Rightarrow> broker \<Rightarrow> broker" where
  "relay_update q session sent b =
     b\<lparr>br_relays := (br_relays b)(q \<mapsto> session),
       br_results := br_results b @ map (\<lambda>(ch, res). (q, ch, res)) sent\<rparr>"

lemma relay_update_inv [inv_intro]:
  assumes "broker_inv b" "br_relays b q = Some session" "relay_step session e session'"
  shows "broker_inv (relay_update q session' sent b)"
proof -
  have rel: "relays_inv b" using assms(1) by (simp add: broker_inv_def)
  then have "relay_inv session'" using relay_step_inv [OF assms(3)] assms(2) by (auto simp: relays_inv_def)
  then have "relays_inv (relay_update q session' sent b)"
    using rel by (auto simp: relay_update_def relays_inv_def)
  then show ?thesis
    by (rule broker_inv_relay [OF assms(1), rotated -1]) (auto simp: relay_update_def)
qed

subsection \<open>Binding snapshots\<close>

text \<open>
  An object's generation never goes back, and a terminal object stays terminal until its
  generation grows.
\<close>

definition advances :: "bindingState \<Rightarrow> bindingState \<Rightarrow> bool" where
  "advances st st' \<longleftrightarrow>
     BindingGeneration (bs_metadata st) \<le> BindingGeneration (bs_metadata st') \<and>
     (bs_terminal st \<longrightarrow>
        bs_terminal st' \<and> BindingGeneration (bs_metadata st') = BindingGeneration (bs_metadata st) \<or>
        BindingGeneration (bs_metadata st) < BindingGeneration (bs_metadata st'))"

definition heap_adv :: "broker \<Rightarrow> broker \<Rightarrow> bool" where
  "heap_adv b b' \<longleftrightarrow> (\<forall>r st. br_heap b r = Some st \<longrightarrow> (\<exists>st'. br_heap b' r = Some st' \<and> advances st st'))"

lemma advances_refl [simp]: "advances st st"
  by (simp add: advances_def)

lemma heap_adv_refl [simp]: "heap_adv b b"
  by (simp add: heap_adv_def)

lemma heap_adv_same: "br_heap b' = br_heap b \<Longrightarrow> heap_adv b b'"
  by (simp add: heap_adv_def)

lemma sticky_trans:
  fixes g1 g2 g3 :: "'a :: linorder"
  assumes "g1 \<le> g2" "t1 \<longrightarrow> t2 \<and> g2 = g1 \<or> g1 < g2" "g2 \<le> g3" "t2 \<longrightarrow> t3 \<and> g3 = g2 \<or> g2 < g3"
  shows "g1 \<le> g3 \<and> (t1 \<longrightarrow> t3 \<and> g3 = g1 \<or> g1 < g3)"
  using assms by auto

lemma advances_trans: "advances s1 s2 \<Longrightarrow> advances s2 s3 \<Longrightarrow> advances s1 s3"
  unfolding advances_def by (elim conjE) (rule sticky_trans)

lemma heap_adv_trans: "heap_adv a b \<Longrightarrow> heap_adv b c \<Longrightarrow> heap_adv a c"
  unfolding heap_adv_def using advances_trans by meson

lemma heap_adv_upd: "(\<And>st. br_heap b r = Some st \<Longrightarrow> advances st (f st)) \<Longrightarrow> heap_adv b (upd_state r f b)"
  by (simp add: heap_adv_def)

lemma heap_adv_clear [simp]: "heap_adv b (clearBindingMaterialsLocked now bid b)"
  by (auto simp: heap_adv_def advances_def split: option.splits)

text \<open>No permit is created and the sequence number stays.\<close>

definition shrinks :: "broker \<Rightarrow> broker \<Rightarrow> bool" where
  "shrinks b b' \<longleftrightarrow> br_sequence b' = br_sequence b \<and> br_cfg b' = br_cfg b \<and> br_file b' = br_file b \<and>
     keys (br_permits b') \<subseteq> keys (br_permits b)"

lemma shrinks_same:
  "br_sequence b' = br_sequence b \<Longrightarrow> br_cfg b' = br_cfg b \<Longrightarrow> br_file b' = br_file b \<Longrightarrow>
     br_permits b' = br_permits b \<Longrightarrow> shrinks b b'"
  by (simp add: shrinks_def)

lemma shrinks_refl [simp]: "shrinks b b"
  by (simp add: shrinks_def)

lemma shrinks_trans:
  assumes "shrinks a b" "shrinks b c"
  shows "shrinks a c"
proof -
  have "keys (br_permits c) \<subseteq> keys (br_permits a)"
    by (rule subset_trans [of _ "keys (br_permits b)"]) (use assms in \<open>unfold shrinks_def, blast+\<close>)
  then show ?thesis using assms unfolding shrinks_def by (elim conjE) (simp only: simp_thms)
qed

lemma shrinks_clear [simp]: "shrinks b (clearBindingMaterialsLocked now bid b)"
  by (auto simp: shrinks_def)

lemma shrinks_upd [simp]: "shrinks b (upd_state r f c) = shrinks b c" "shrinks b (upd_metadata r g c) = shrinks b c"
  by (simp_all add: shrinks_def)

lemma active_bindings_clear: "wf_map (br_active b) \<Longrightarrow>
    active_bindings (clearBindingMaterialsLocked now bid b) = active_bindings b - {bid}"
  by (auto simp: active_bindings_def map_of_filter_wf split: option.splits if_splits)

lemma active_bindings_cong: "br_active b' = br_active b \<Longrightarrow> active_bindings b' = active_bindings b"
  by (simp add: active_bindings_def)

lemma broker_inv_upd:
  assumes "broker_inv b" "map_of (br_bindings b) bid = Some r"
    and "\<And>st. br_heap b r = Some st \<Longrightarrow> state_ok bid st \<Longrightarrow> state_ok bid (f st)"
    and "bid \<notin> active_bindings b \<or> (\<forall>st. br_heap b r = Some st \<longrightarrow> binding_core (f st) = binding_core st)"
  shows "broker_inv (upd_state r f b)"
proof -
  have parts: "requests_inv b" "store_inv b" using assms(1) by (simp_all add: broker_inv_def)
  have "requests_inv (upd_state r f b)"
  proof (rule requests_inv_same [OF parts(1)])
    fix x assume "x \<in> active_bindings b"
    show "map_option binding_core (view (upd_state r f b) x) = map_option binding_core (view b x)"
    proof (cases "x = bid")
      case True
      then have "\<forall>st. br_heap b r = Some st \<longrightarrow> binding_core (f st) = binding_core st"
        using assms(4) \<open>x \<in> active_bindings b\<close> by blast
      then show ?thesis
        using assms(2) True by (cases "br_heap b r") (simp_all add: view_def)
    next
      case False
      then show ?thesis by (simp add: view_upd_other [OF parts(2) assms(2)])
    qed
  qed (use requests_wfD [OF parts(1)] in simp_all)
  then show ?thesis
    using store_inv_upd [OF parts(2) assms(2,3)] by (intro broker_inv_frame [OF assms(1)]) simp_all
qed

lemma store_ok_upd:
  assumes "store_ok b x q" "store_ok b bid r" "\<And>st. br_heap b r = Some st \<Longrightarrow> state_ok bid st \<Longrightarrow> state_ok bid (f st)"
  shows "store_ok (upd_state r f b) x q"
proof (cases "q = r")
  case True
  then have "x = bid" using assms(1,2) by (auto simp: store_ok_def state_ok_def)
  then show ?thesis using assms True by (auto simp: store_ok_def)
next
  case False
  then show ?thesis using assms(1) by (simp add: store_ok_def)
qed

text \<open>The object of an updated binding, whatever was cleared on the way.\<close>

lemma refresh_binding_inv:
  assumes "broker_inv b" "map_of (br_bindings b) bid = Some old" "state_ok bid (st0\<lparr>bs_metadata := fm\<rparr>)"
    and "br_heap b old = Some st" "\<not> bs_terminal st"
    and "bid \<notin> active_bindings b \<or> binding_core (st\<lparr>bs_metadata := fm\<rparr>) = binding_core st"
  shows "broker_inv (upd_metadata old (\<lambda>_. fm) b)"
    and "\<And>x q. store_ok b x q \<Longrightarrow> store_ok (upd_metadata old (\<lambda>_. fm) b) x q"
proof -
  have ok: "state_ok bid (s\<lparr>bs_metadata := fm\<rparr>)" if "br_heap b old = Some s" for s
    using that assms(3-5) by (simp add: state_ok_def)
  show "broker_inv (upd_metadata old (\<lambda>_. fm) b)"
    unfolding upd_metadata_def by (rule broker_inv_upd [OF assms(1,2)]) (use ok assms(4,6) in auto)
  have "store_ok b bid old" using assms(1,2) by (simp add: broker_inv_def store_inv_def)
  then show "store_ok (upd_metadata old (\<lambda>_. fm) b) x q" if "store_ok b x q" for x q
    unfolding upd_metadata_def by (rule store_ok_upd [OF that]) (use ok in auto)
qed

definition merge_ok :: "string set \<Rightarrow> broker \<Rightarrow> (string \<times> nat) list \<Rightarrow> broker \<Rightarrow> (string \<times> nat) list \<Rightarrow> bool" where
  "merge_ok ids b next b' next' \<longleftrightarrow>
     broker_inv b' \<and> br_bindings b' = br_bindings b \<and> wf_map next' \<and> keys next' = keys next \<and>
     (\<forall>x r. map_of next' x = Some r \<longrightarrow> store_ok b' x r) \<and>
     (\<forall>x. x \<in> ids \<longrightarrow> map_of next' x = map_of (br_bindings b) x \<or>
        map_of next' x = None \<and> x \<notin> active_bindings b') \<and>
     (\<forall>x. x \<notin> ids \<longrightarrow> map_of next' x = map_of next x) \<and>
     active_bindings b' \<subseteq> active_bindings b \<and> heap_adv b b' \<and> shrinks b b'"

definition drop_terminal :: "bindingState \<Rightarrow> bindingState" where
  "drop_terminal st = st\<lparr>bs_terminal := False, bs_terminalGeneration := 0\<rparr>"

lemma state_ok_drop: "state_ok bid st \<Longrightarrow> state_ok bid (drop_terminal st)"
  by (simp add: state_ok_def drop_terminal_def)

text \<open>What is cleared before the metadata of an existing binding is replaced.\<close>

definition merge_clear :: "gotime \<Rightarrow> string \<Rightarrow> nat \<Rightarrow> ego_binding \<Rightarrow> broker \<Rightarrow> broker" where
  "merge_clear now bid old fm b =
     (let om = metadata_of b old;
          b = (if BindingGeneration fm \<noteq> BindingGeneration om
               then upd_state old drop_terminal (clearBindingMaterialsLocked now bid b) else b)
      in if metadata_changed om fm then clearBindingMaterialsLocked now bid b else b)"

lemma merge_binding_eq:
  "merge_binding now bid old next b =
     (case map_of next bid of None \<Rightarrow> (clearBindingMaterialsLocked now bid b, next, [old])
      | Some fresh \<Rightarrow>
          let fm = metadata_of b fresh; st = deref b old in
          if BindingGeneration fm < BindingGeneration (bs_metadata st) \<or>
             bs_terminal st \<and> BindingGeneration fm \<le> bs_terminalGeneration st
          then (b, put bid old next, [])
          else (upd_metadata old (\<lambda>_. fm) (merge_clear now bid old fm b), put bid old next,
                (if BindingGeneration fm \<noteq> BindingGeneration (bs_metadata st) then [old] else []) @
                (if metadata_changed (bs_metadata st) fm then [old] else [])))"
  by (auto simp: merge_binding_def merge_clear_def Let_def drop_terminal_def [abs_def]
      split: option.splits)

lemma merge_clear_ok:
  fixes now
  assumes inv: "broker_inv b" and bid: "map_of (br_bindings b) bid = Some old"
    and st: "br_heap b old = Some st" and live: "bs_terminal st \<longrightarrow> BindingGeneration fm \<noteq> BindingGeneration (bs_metadata st)"
  defines "c \<equiv> merge_clear now bid old fm b"
  shows "broker_inv c" "br_bindings c = br_bindings b" "\<And>x r. store_ok b x r \<Longrightarrow> store_ok c x r"
    "active_bindings c \<subseteq> active_bindings b" "\<And>r. r \<noteq> old \<Longrightarrow> br_heap c r = br_heap b r"
    "\<exists>st'. br_heap c old = Some st' \<and> bs_metadata st' = bs_metadata st \<and> \<not> bs_terminal st'"
    "bid \<notin> active_bindings c \<or> c = b \<and> BindingGeneration fm = BindingGeneration (bs_metadata st) \<and>
       \<not> metadata_changed (bs_metadata st) fm"
    "shrinks b c"
proof -
  let ?clear = "clearBindingMaterialsLocked now bid"
  let ?gen = "BindingGeneration fm \<noteq> BindingGeneration (bs_metadata st)"
  define c1 where "c1 = (if ?gen then upd_state old drop_terminal (?clear b) else b)"
  have om: "metadata_of b old = bs_metadata st" using st by (simp add: deref_def)
  have c: "c = (if metadata_changed (bs_metadata st) fm then ?clear c1 else c1)"
    by (simp add: c_def merge_clear_def c1_def om Let_def)
  have wf: "wf_map (br_active b)" using inv by (simp add: broker_inv_def requests_inv_def)
  have ok: "store_ok b bid old" using inv bid by (simp add: broker_inv_def store_inv_def)
  have idle: "bid \<notin> active_bindings (?clear b)" using wf by (simp add: active_bindings_clear)
  have "broker_inv (upd_state old drop_terminal (?clear b))"
    by (rule broker_inv_upd [OF broker_inv_clear [OF inv]]) (use bid idle in \<open>auto intro: state_ok_drop\<close>)
  then have inv1: "broker_inv c1" using inv by (simp add: c1_def)
  then show "broker_inv c" by (simp add: c broker_inv_clear)
  show "br_bindings c = br_bindings b" by (simp add: c c1_def)
  have "shrinks b c1" by (simp add: c1_def)
  then show "shrinks b c" using shrinks_trans [OF _ shrinks_clear [of c1 now bid]] by (simp add: c)
  show "store_ok c x r" if "store_ok b x r" for x r
  proof -
    have "store_ok (upd_state old drop_terminal (?clear b)) x r"
      by (rule store_ok_upd [of _ _ _ bid]) (use that ok in \<open>auto intro: state_ok_drop\<close>)
    then show ?thesis using that by (simp add: c c1_def)
  qed
  have wf1: "wf_map (br_active c1)" using inv1 by (simp add: broker_inv_def requests_inv_def)
  have act1: "active_bindings c1 = active_bindings b - (if ?gen then {bid} else {})"
    using active_bindings_clear [OF wf, of now bid]
    by (simp add: c1_def active_bindings_cong [of "upd_state old drop_terminal (?clear b)" "?clear b"])
  then show "active_bindings c \<subseteq> active_bindings b"
    by (auto simp: c active_bindings_clear [OF wf1])
  show "bid \<notin> active_bindings c \<or> c = b \<and> BindingGeneration fm = BindingGeneration (bs_metadata st) \<and>
       \<not> metadata_changed (bs_metadata st) fm"
  proof (cases "?gen \<or> metadata_changed (bs_metadata st) fm")
    case True
    then have "bid \<notin> active_bindings c"
      using act1 active_bindings_clear [OF wf1, of now bid] unfolding c by (auto split: if_splits)
    then show ?thesis by blast
  next
    case False
    then show ?thesis by (simp add: c c1_def)
  qed
  show "br_heap c r = br_heap b r" if "r \<noteq> old" for r
    using that bid by (simp add: c c1_def)
  show "\<exists>st'. br_heap c old = Some st' \<and> bs_metadata st' = bs_metadata st \<and> \<not> bs_terminal st'"
    using bid st live by (auto simp: c c1_def drop_terminal_def)
qed

lemma merge_binding_ok:
  assumes inv: "broker_inv b" and bid: "map_of (br_bindings b) bid = Some old"
    and nxt: "wf_map next" "\<And>x r. map_of next x = Some r \<Longrightarrow> store_ok b x r"
    and merge: "merge_binding now bid old next b = (b', next', cl)"
  shows "merge_ok {bid} b next b' next'"
proof (cases "map_of next bid")
  case None
  have "wf_map (br_active b)" using inv by (simp add: broker_inv_def requests_inv_def)
  then show ?thesis
    using None merge nxt inv unfolding merge_binding_eq merge_ok_def
    by (auto simp: broker_inv_clear active_bindings_clear)
next
  case (Some fresh)
  let ?fm = "metadata_of b fresh"
  have ok: "store_ok b bid old" using inv bid by (simp add: broker_inv_def store_inv_def)
  then obtain st where st: "br_heap b old = Some st" "state_ok bid st" "deref b old = st"
    by (auto simp: store_ok_def deref_def)
  obtain stf where stf: "br_heap b fresh = Some stf" "state_ok bid stf"
    using nxt(2) [OF Some] by (auto simp: store_ok_def)
  have nxt': "wf_map (put bid old next)" "\<And>x. x \<noteq> bid \<Longrightarrow> map_of (put bid old next) x = map_of next x"
    "map_of (put bid old next) bid = Some old" "keys (put bid old next) = keys next"
  proof -
    have "bid \<in> keys next" using Some unfolding in_keys_Some by blast
    then show "keys (put bid old next) = keys next" by (simp add: insert_absorb)
  qed (use nxt(1) in simp_all)
  show ?thesis
  proof (cases "BindingGeneration ?fm < BindingGeneration (bs_metadata st) \<or>
      bs_terminal st \<and> BindingGeneration ?fm \<le> bs_terminalGeneration st")
    case True
    then have "b' = b" "next' = put bid old next"
      using merge Some st(3) by (auto simp: merge_binding_eq Let_def)
    then show ?thesis using inv bid nxt nxt' ok by (auto simp: merge_ok_def)
  next
    case False
    let ?c = "merge_clear now bid old ?fm b"
    have b': "b' = upd_metadata old (\<lambda>_. ?fm) ?c" "next' = put bid old next"
      using merge Some st(3) False by (auto simp: merge_binding_eq Let_def)
    have tg: "bs_terminal st \<Longrightarrow> bs_terminalGeneration st = BindingGeneration (bs_metadata st)"
      using st(2) by (simp add: state_ok_def)
    then have gen: "BindingGeneration (bs_metadata st) \<le> BindingGeneration ?fm"
      "bs_terminal st \<longrightarrow> BindingGeneration (bs_metadata st) < BindingGeneration ?fm"
      using False by (auto simp: not_less not_le)
    then have live: "bs_terminal st \<longrightarrow> BindingGeneration ?fm \<noteq> BindingGeneration (bs_metadata st)" by auto
    note c = merge_clear_ok [where now = now, OF inv bid st(1) live]
    obtain st' where st': "br_heap ?c old = Some st'" "bs_metadata st' = bs_metadata st" "\<not> bs_terminal st'"
      using c(6) by blast
    have core: "bid \<notin> active_bindings ?c \<or> binding_core (st'\<lparr>bs_metadata := ?fm\<rparr>) = binding_core st'"
      using c(7) st' by (auto simp: binding_core_def metadata_changed_def Let_def)
    have fm: "state_ok bid (stf\<lparr>bs_metadata := ?fm\<rparr>)" using stf by (simp add: deref_def state_ok_def)
    have bid': "map_of (br_bindings ?c) bid = Some old" using bid c(2) by simp
    note fresh = refresh_binding_inv [OF c(1) bid' fm st'(1,3) core]
    have "heap_adv b b'"
      unfolding heap_adv_def
    proof (intro allI impI)
      fix r s assume r: "br_heap b r = Some s"
      show "\<exists>s'. br_heap b' r = Some s' \<and> advances s s'"
        using r st(1) st'(1,3) gen c(5) [of r] by (cases "r = old") (auto simp: b' advances_def)
    qed
    moreover have "active_bindings b' \<subseteq> active_bindings b"
      using c(4) active_bindings_cong [of b' ?c] by (simp add: b')
    moreover have "store_ok b' x r" if "map_of next' x = Some r" for x r
      using that fresh(2) c(3) nxt(2) ok by (auto simp: b' split: if_splits)
    ultimately show ?thesis
      using fresh(1) c(2,8) bid nxt' by (auto simp: merge_ok_def b')
  qed
qed

lemma merge_ok_trans:
  assumes "merge_ok A b n b1 n1" "merge_ok B b1 n1 b2 n2" "A \<inter> B = {}"
  shows "merge_ok (A \<union> B) b n b2 n2"
proof -
  have 1: "map_of n2 x = map_of (br_bindings b) x \<or> map_of n2 x = None \<and> x \<notin> active_bindings b2"
    if "x \<in> A \<union> B" for x
  proof (cases "x \<in> A")
    case True
    then have "map_of n2 x = map_of n1 x" using assms(2,3) unfolding merge_ok_def by blast
    moreover have "map_of n1 x = map_of (br_bindings b) x \<or> map_of n1 x = None \<and> x \<notin> active_bindings b1"
      using assms(1) True unfolding merge_ok_def by blast
    moreover have "active_bindings b2 \<subseteq> active_bindings b1" using assms(2) by (simp add: merge_ok_def)
    ultimately show ?thesis by auto
  next
    case False
    then have "x \<in> B" using that by blast
    moreover have "br_bindings b1 = br_bindings b" using assms(1) by (simp add: merge_ok_def)
    ultimately show ?thesis using assms(2) unfolding merge_ok_def by metis
  qed
  have "map_of n2 x = map_of n x" if "x \<notin> A \<union> B" for x
    using assms(1,2) that unfolding merge_ok_def by simp
  moreover have "heap_adv b b2" "shrinks b b2"
    using heap_adv_trans [of b b1 b2] shrinks_trans [of b b1 b2] assms(1,2) by (simp_all add: merge_ok_def)
  moreover have "active_bindings b2 \<subseteq> active_bindings b"
    using assms(1,2) subset_trans [of "active_bindings b2" "active_bindings b1"] by (simp add: merge_ok_def)
  moreover have "broker_inv b2 \<and> br_bindings b2 = br_bindings b \<and> wf_map n2 \<and> keys n2 = keys n \<and>
      (\<forall>x r. map_of n2 x = Some r \<longrightarrow> store_ok b2 x r)"
    using assms(1,2) by (simp add: merge_ok_def)
  ultimately show ?thesis
    using 1 unfolding merge_ok_def by blast
qed

lemma merge_bindings_ok:
  assumes "merge_bindings now olds next b = (b', next', cl)" "broker_inv b" "distinct (map fst olds)"
    and "\<And>x r. (x, r) \<in> set olds \<Longrightarrow> map_of (br_bindings b) x = Some r"
    and "wf_map next" "\<And>x r. map_of next x = Some r \<Longrightarrow> store_ok b x r"
  shows "merge_ok (fst ` set olds) b next b' next'"
  using assms
proof (induction olds arbitrary: b "next" cl)
  case Nil
  then show ?case by (auto simp: merge_ok_def)
next
  case (Cons p olds)
  obtain bid old where p: "p = (bid, old)" by (cases p)
  obtain b1 n1 c1 where turn: "merge_binding now bid old next b = (b1, n1, c1)"
    by (cases "merge_binding now bid old next b")
  obtain c2 where rest: "merge_bindings now olds n1 b1 = (b', next', c2)"
    using Cons.prems(1) turn by (auto simp: p split: prod.splits)
  have step: "merge_ok {bid} b next b1 n1"
    using merge_binding_ok [OF Cons.prems(2) _ Cons.prems(5,6) turn] Cons.prems(4) by (simp add: p)
  then have inv: "broker_inv b1" "br_bindings b1 = br_bindings b" "wf_map n1"
    "\<And>x r. map_of n1 x = Some r \<Longrightarrow> store_ok b1 x r"
    by (simp_all add: merge_ok_def)
  have "merge_ok (fst ` set olds) b1 n1 b' next'"
    by (rule Cons.IH [OF rest inv(1)]) (use Cons.prems inv in auto)
  moreover have "{bid} \<inter> fst ` set olds = {}" using Cons.prems(3) by (simp add: p)
  ultimately show ?case using merge_ok_trans [OF step] by (simp add: p)
qed

lemma load_snapshot_ok:
  assumes "load_snapshot nodeID acc ms = Inr snap" "wf_map acc"
    and "\<And>bid m. (bid, m) \<in> set acc \<Longrightarrow> BindingID m = bid \<and> validateBinding nodeID m = None"
  shows "wf_map snap \<and> (\<forall>(bid, m) \<in> set snap. BindingID m = bid \<and> validateBinding nodeID m = None)"
  using assms
proof (induction nodeID acc ms rule: load_snapshot.induct)
  case (1 nodeID acc)
  then show ?case by auto
next
  case (2 nodeID acc m0 ms)
  obtain m where m: "NormalizeBindingGeneration m0 = Inr m" "validateBinding nodeID m = None"
    "BindingID m \<notin> keys acc" "load_snapshot nodeID (put (BindingID m) m acc) ms = Inr snap"
    using "2.prems"(1) by (auto split: sum.splits option.splits if_splits)
  have set: "set (put (BindingID m) m acc) = insert (BindingID m, m) (set acc)"
    using m(3) by (simp add: put_fresh)
  show ?case
    by (rule "2.IH" [OF m(1) m(2) m(3) m(4)]) (use "2.prems"(2,3) m(2) set in auto)
qed

definition fresh_state :: "ego_binding \<Rightarrow> bindingState" where
  "fresh_state m = \<lparr>bs_metadata = m, bs_relay = None, bs_relayEpoch = 0, bs_terminal = False,
     bs_terminalGeneration = 0\<rparr>"

lemma alloc_states_ok:
  assumes "alloc_states snap b = (b', next)"
  shows "map fst next = map fst snap \<and> br_nextState b \<le> br_nextState b' \<and>
    (\<forall>r < br_nextState b. br_heap b' r = br_heap b r) \<and>
    (\<forall>r st. br_heap b' r = Some st \<longrightarrow> br_heap b r \<noteq> None \<or> r < br_nextState b') \<and>
    (\<forall>(bid, r) \<in> set next. r < br_nextState b' \<and> (\<exists>m. (bid, m) \<in> set snap \<and> br_heap b' r = Some (fresh_state m))) \<and>
    b' = b\<lparr>br_heap := br_heap b', br_nextState := br_nextState b'\<rparr>"
  using assms
proof (induction snap b arbitrary: b' "next" rule: alloc_states.induct)
  case (1 b)
  then show ?case by auto
next
  case (2 bid m snap b)
  let ?r = "br_nextState b"
  let ?b = "b\<lparr>br_heap := (br_heap b)(?r \<mapsto> fresh_state m), br_nextState := Suc ?r\<rparr>"
  obtain n where n: "alloc_states snap ?b = (b', n)" "next = (bid, ?r) # n"
    using "2.prems" by (auto simp: Let_def fresh_state_def split: prod.splits)
  note IH = "2.IH" [OF refl, unfolded fresh_state_def [symmetric], OF refl n(1)]
  have eq: "b' = b\<lparr>br_heap := br_heap b', br_nextState := br_nextState b'\<rparr>"
  proof -
    have "b' = ?b\<lparr>br_heap := br_heap b', br_nextState := br_nextState b'\<rparr>" using IH by blast
    also have "\<dots> = b\<lparr>br_heap := br_heap b', br_nextState := br_nextState b'\<rparr>" by simp
    finally show ?thesis .
  qed
  show ?case
  proof (intro conjI eq)
    show "map fst next = map fst ((bid, m) # snap)" using IH n(2) by simp
    show "br_nextState b \<le> br_nextState b'" using IH by simp
    show "\<forall>r < br_nextState b. br_heap b' r = br_heap b r" using IH by simp
    have new: "br_heap b' ?r = Some (fresh_state m)" "?r < br_nextState b'" using IH by simp_all
    have "br_heap b r \<noteq> None \<or> r < br_nextState b'" if "br_heap b' r = Some st" for r st
      using IH that new(2) by (cases "r = ?r") auto
    then show "\<forall>r st. br_heap b' r = Some st \<longrightarrow> br_heap b r \<noteq> None \<or> r < br_nextState b'" by blast
    from new show "\<forall>(bid', r) \<in> set next. r < br_nextState b' \<and>
        (\<exists>m'. (bid', m') \<in> set ((bid, m) # snap) \<and> br_heap b' r = Some (fresh_state m'))"
      using IH n(2) by auto
  qed
qed

lemma alloc_inv:
  assumes "broker_inv b" "alloc_states snap b = (b', next)"
  shows "broker_inv b'"
proof -
  note al = alloc_states_ok [OF assms(2)]
  then obtain h n where b': "b' = b\<lparr>br_heap := h, br_nextState := n\<rparr>" by blast
  have parts: "requests_inv b" "store_inv b" "sessions_inv b" "config_inv b" "relays_inv b"
    using assms(1) by (simp_all add: broker_inv_def)
  have old: "store_ok b' x r \<and> br_heap b' r = br_heap b r" if "map_of (br_bindings b) x = Some r" for x r
  proof -
    have "store_ok b x r" using parts(2) that by (simp add: store_inv_def)
    then show ?thesis using al by (auto simp: store_ok_def)
  qed
  then have "view b' x = view b x" for x by (auto simp: view_def b' split: option.splits)
  then have "requests_inv b'"
    by (intro requests_inv_same [OF parts(1)]) (simp_all add: b' requests_wfD [OF parts(1)])
  moreover have "r < br_nextState b'" if "br_heap b' r = Some st" for r st
  proof (cases "br_heap b r")
    case None
    then show ?thesis using al that by blast
  next
    case (Some s)
    then have "r < br_nextState b" using parts(2) by (auto simp: store_inv_def)
    then show ?thesis using al by auto
  qed
  then have "store_inv b'" using parts(2) old by (simp add: store_inv_def b')
  ultimately show ?thesis
    using parts(3-5) by (simp add: broker_inv_def b' sessions_inv_def config_inv_def relays_inv_def)
qed

lemma set_bindings_ok:
  assumes inv: "broker_inv b" and set: "set_bindings_locked now snap b = (b', toClose)"
    and snap: "wf_map snap" "\<forall>(bid, m) \<in> set snap. BindingID m = bid \<and> validateBinding nodeID m = None"
  shows "broker_inv b'" "keys (br_bindings b') = keys snap" "heap_adv b b'" "shrinks b b'"
    "\<And>x r r'. map_of (br_bindings b) x = Some r \<Longrightarrow> map_of (br_bindings b') x = Some r' \<Longrightarrow> r' = r"
proof -
  obtain b1 n1 where al: "alloc_states snap b = (b1, n1)" by (cases "alloc_states snap b")
  obtain b2 n2 where mg: "merge_bindings now (br_bindings b1) n1 b1 = (b2, n2, toClose)"
    and b': "b' = b2\<lparr>br_bindings := n2\<rparr>"
    using set al by (auto simp: set_bindings_locked_def split: prod.splits)
  note alok = alloc_states_ok [OF al]
  have inv1: "broker_inv b1" by (rule alloc_inv [OF inv al])
  obtain h n where b1: "b1 = b\<lparr>br_heap := h, br_nextState := n\<rparr>" using alok by blast
  have adv1: "heap_adv b b1"
  proof -
    have "br_heap b1 r = br_heap b r" if "br_heap b r = Some st" for r st
      using inv alok that by (auto simp: broker_inv_def store_inv_def)
    then show ?thesis by (simp add: heap_adv_def)
  qed
  have wfb: "wf_map (br_bindings b1)" using inv1 by (simp add: broker_inv_def store_inv_def)
  have wfn: "wf_map n1" using alok snap(1) by (simp add: wf_map_def)
  have okn: "store_ok b1 x r" if n1: "map_of n1 x = Some r" for x r
  proof -
    obtain m where "(x, m) \<in> set snap" "br_heap b1 r = Some (fresh_state m)" "r < br_nextState b1"
      using alok map_of_SomeD [OF n1] by blast
    moreover have "BindingID m = x" "validateBinding nodeID m = None" using snap(2) calculation(1) by auto
    ultimately show ?thesis
      using validateBinding_None [of nodeID m] by (simp add: store_ok_def state_ok_def fresh_state_def)
  qed
  have ok: "merge_ok (keys (br_bindings b1)) b1 n1 b2 n2"
    by (rule merge_bindings_ok [OF mg inv1 wfb [unfolded wf_map_def] _ wfn okn])
      (simp add: wf_map_set [OF wfb])
  then have m: "broker_inv b2" "br_bindings b2 = br_bindings b" "wf_map n2" "keys n2 = keys n1"
    "\<And>x r. map_of n2 x = Some r \<Longrightarrow> store_ok b2 x r" "heap_adv b1 b2" "shrinks b1 b2"
    by (simp_all add: merge_ok_def b1)
  have kept: "map_of n2 x = map_of (br_bindings b) x \<or> map_of n2 x = None \<and> x \<notin> active_bindings b2"
    if "x \<in> keys (br_bindings b)" for x
    using ok that by (simp add: merge_ok_def b1)
  have parts: "requests_inv b2" "sessions_inv b2" "config_inv b2" "relays_inv b2"
    using m(1) by (simp_all add: broker_inv_def)
  have "view b' x = view b2 x" if x: "x \<in> active_bindings b2" for x
  proof -
    obtain q a where a: "map_of (br_active b2) q = Some a" "ar_bindingID a = x"
      using x by (auto simp: active_bindings_def)
    obtain st where "view b2 x = Some st"
      using active_supported [OF parts(1) a(1)] a(2) unfolding supports_def by metis
    then have "x \<in> keys (br_bindings b)"
      unfolding in_keys_Some by (auto simp: view_def m(2) split: option.splits)
    then have "map_of n2 x = map_of (br_bindings b) x" using kept x by blast
    then show ?thesis by (simp add: view_def b' m(2) cong: option.case_cong)
  qed
  then have "requests_inv b'"
    by (intro requests_inv_same [OF parts(1)]) (simp_all add: b' requests_wfD [OF parts(1)])
  moreover have "\<forall>r st. br_heap b2 r = Some st \<longrightarrow> r < br_nextState b2"
    using m(1) by (simp add: broker_inv_def store_inv_def)
  then have "store_inv b'" using m(3,5) by (simp add: store_inv_def store_ok_def b')
  ultimately show "broker_inv b'"
    using parts(2-4) by (simp add: broker_inv_def b' sessions_inv_def config_inv_def relays_inv_def)
  have "map fst n1 = map fst snap" using alok by blast
  then have "set (map fst n1) = set (map fst snap)" by (simp only:)
  then show "keys (br_bindings b') = keys snap" using m(4) by (simp add: b')
  have "shrinks b b1" by (simp add: b1 shrinks_def)
  then have "shrinks b b2" using m(7) by (rule shrinks_trans)
  then show "shrinks b b'" by (simp add: b' shrinks_def)
  show "heap_adv b b'" using heap_adv_trans [OF adv1 m(6)] by (simp add: b' heap_adv_def)
  show "r' = r" if "map_of (br_bindings b) x = Some r" "map_of (br_bindings b') x = Some r'" for x r r'
  proof -
    have "x \<in> keys (br_bindings b)" using that(1) unfolding in_keys_Some by blast
    then show ?thesis using kept [of x] that by (auto simp: b')
  qed
qed

end
