(* ===== verification/Broker_Props.thy ===== *)
theory Broker_Props
  imports Broker_Runs
begin

section \<open>Runs of the broker and what they guarantee\<close>

text \<open>
  The step relation has one rule per locked section of \<open>broker.go\<close>, per step of a relay
  session, and one for a restart of the node, which keeps only the sequence file. The
  properties below hold in every run, that is for every interleaving of wrappers, forwarders,
  cancellations, lease renewals and control-plane snapshots.
\<close>

subsection \<open>Steps\<close>

datatype broker_event =
    EvRegister string "ego_error + string \<times> bool"
  | EvAuthorize string u32 "ego_error option"
  | EvUnregister string bool
  | EvSetBindings "ego_binding list"
  | EvLease nat
  | EvRevoke string u64
  | EvReload
  | EvAdmit "ego_error + Permit"
  | EvConsume u64 "ego_error + Permit"
  | EvCancel u64 "ego_error + bool"
  | EvRequest u64
  | EvRelay
  | EvClose
  | EvRestart

inductive broker_step :: "broker \<Rightarrow> broker_event \<Rightarrow> broker \<Rightarrow> bool" where
  register: "RegisterToolSession tool draws b = Some (b', res) \<Longrightarrow> broker_step b (EvRegister tool res) b'"
| authorize: "validOpaqueText tool 128 \<Longrightarrow> authorize_commit tool nonce uid b = (b', res) \<Longrightarrow>
    broker_step b (EvAuthorize tool uid res) b'"
| unregister: "unregister_locked now tool expected b = (b', ok, toClose) \<Longrightarrow>
    broker_step b (EvUnregister tool ok) b'"
| snapshot: "load_snapshot (c_NodeID (br_cfg b)) [] ms = Inr snap \<Longrightarrow>
    set_bindings_locked now snap b = (b', toClose) \<Longrightarrow> broker_step b (EvSetBindings ms) b'"
| expire: "expire_locked now r b = (b', c) \<Longrightarrow> broker_step b (EvLease r) b'"
| failure: "mark_failure_locked now r b = (b', c) \<Longrightarrow> broker_step b (EvLease r) b'"
| renew: "renew_answer clk m response = Inr d \<Longrightarrow> renew_commit r m d b = (b', e) \<Longrightarrow>
    broker_step b (EvLease r) b'"
| revoke: "revoke_locked now bid gen b = (b', c) \<Longrightarrow> broker_step b (EvRevoke bid gen) b'"
| reload: "b' = reload_locked now b \<Longrightarrow> broker_step b EvReload b'"
| reload_session: "reload_session_locked now tool b = (b', toClose) \<Longrightarrow> broker_step b EvReload b'"
| admit: "permit_scope request b0 = Inr (tool, r, dts, sc) \<Longrightarrow>
    admit now env rndID rndKey (q_StartupNonce request) tool dts sc b = (b', res) \<Longrightarrow>
    broker_step b (EvAdmit res) b'"
| consume: "ConsumePermit now bid gen rid q n b = (b', res) \<Longrightarrow> broker_step b (EvConsume q res) b'"
| cancel: "cancel_mark bid gen rid q b = (b', res) \<Longrightarrow> broker_step b (EvCancel q res) b'"
| turn: "send_turn now bid q tracked b = (b', res) \<Longrightarrow> broker_step b (EvRequest q) b'"
| sent: "markRequestSent bid q b = (b', e) \<Longrightarrow> broker_step b (EvRequest q) b'"
| finish: "b' = finishRequestForward q obs b \<Longrightarrow> broker_step b (EvRequest q) b'"
| release: "b' = releaseRequest q b \<Longrightarrow> broker_step b (EvRequest q) b'"
| close_relay: "b' = closeRelay r reason b \<Longrightarrow> broker_step b EvRelay b'"
| fail_relay: "b' = failRelay r q reason b \<Longrightarrow> broker_step b EvRelay b'"
| install: "relay_install r epoch b = (b', res) \<Longrightarrow> broker_step b EvRelay b'"
| relay: "br_relays b q = Some session \<Longrightarrow> relay_step session e session' \<Longrightarrow>
    b' = relay_update q session' (relay_sends e) b \<Longrightarrow> broker_step b EvRelay b'"
| closing: "b' = b\<lparr>br_closed := True\<rparr> \<Longrightarrow> broker_step b EvClose b'"
| close_clear: "br_closed b \<Longrightarrow> b' = close_clear b \<Longrightarrow> broker_step b EvClose b'"
| restart: "New_broker config prepared (br_file b) = Inr b' \<Longrightarrow> broker_step b EvRestart b'"

subsection \<open>The invariant in every run\<close>

lemma New_broker_ok:
  assumes "New_broker config prepared file = Inr b"
  obtains "b = new_broker (withDefaults config) (br_sequence b) file"
    "1 \<le> c_MaxParallelRequests (withDefaults config)" "c_MaxParallelRequests (withDefaults config) \<le> 4"
    "c_StateRoot (withDefaults config) \<noteq> []"
    "loadSequence (c_StateRoot (withDefaults config)) file = Inr (br_sequence b)"
proof -
  have root: "c_StateRoot (withDefaults config) \<noteq> []" by (simp add: withDefaults_def Let_def)
  obtain n where "loadSequence (c_StateRoot (withDefaults config)) file = Inr n"
    "b = new_broker (withDefaults config) n file" "1 \<le> c_MaxParallelRequests (withDefaults config)"
    "c_MaxParallelRequests (withDefaults config) \<le> 4"
    using assms root
    by (auto simp: New_broker_def Let_def not_less split: if_splits option.splits sum.splits)
  then show thesis using root by (intro that) (simp_all add: new_broker_def)
qed

lemma New_broker_inv:
  assumes "New_broker config prepared file = Inr b"
  shows "broker_inv b"
proof (rule New_broker_ok [OF assms])
  assume b: "b = new_broker (withDefaults config) (br_sequence b) file"
    and ok: "1 \<le> c_MaxParallelRequests (withDefaults config)" "c_MaxParallelRequests (withDefaults config) \<le> 4"
      "c_StateRoot (withDefaults config) \<noteq> []"
      "loadSequence (c_StateRoot (withDefaults config)) file = Inr (br_sequence b)"
  have fields: "br_cfg b = withDefaults config" "br_permits b = []" "br_active b = []" "br_consumed b = []"
    "br_bindings b = []" "br_heap b = (\<lambda>_. None)" "br_sessions b = []" "br_nonces b = []"
    "br_peerUIDs b = []" "br_relays b = (\<lambda>_. None)" "br_file b = file"
    by (subst b, simp add: new_broker_def)+
  show ?thesis
    using ok by (simp add: broker_inv_def requests_inv_def store_inv_def sessions_inv_def config_inv_def
        relays_inv_def fields activeRequestCountLocked_def)
qed

lemma send_turn_state: "send_turn now bid q tracked b = (b', res) \<Longrightarrow> b' = pruneExpiredPermitsLocked now b"
  by (auto simp: send_turn_def Let_def split: option.splits if_splits)

lemma snapshot_inv:
  assumes "load_snapshot nodeID [] ms = Inr snap" "set_bindings_locked now snap b = (b', toClose)" "broker_inv b"
  shows "broker_inv b'" "heap_adv b b'" "shrinks b b'" "keys (br_bindings b') = keys snap"
    "\<And>x r r'. map_of (br_bindings b) x = Some r \<Longrightarrow> map_of (br_bindings b') x = Some r' \<Longrightarrow> r' = r"
proof -
  have "wf_map snap \<and> (\<forall>(bid, m) \<in> set snap. BindingID m = bid \<and> validateBinding nodeID m = None)"
    by (rule load_snapshot_ok [OF assms(1)]) simp_all
  then have snap: "wf_map snap" "\<forall>(bid, m) \<in> set snap. BindingID m = bid \<and> validateBinding nodeID m = None"
    by blast+
  note ok = set_bindings_ok [OF assms(3,2) snap]
  show "broker_inv b'" "heap_adv b b'" "shrinks b b'" "keys (br_bindings b') = keys snap"
    "\<And>x r r'. map_of (br_bindings b) x = Some r \<Longrightarrow> map_of (br_bindings b') x = Some r' \<Longrightarrow> r' = r"
    by (fact ok)+
qed

lemma validOpaqueText_nonempty: "validOpaqueText t n \<Longrightarrow> t \<noteq> []"
  by (simp add: validOpaqueText_def)

lemma broker_step_inv:
  assumes "broker_step b e b'" "broker_inv b"
  shows "broker_inv b'"
  using assms(1)
proof (cases rule: broker_step.cases)
  case (snapshot ms snap now toClose)
  then show ?thesis using snapshot_inv(1) assms(2) by blast
next
  case (admit request b0 tool r dts sc now env rndID rndKey res)
  then show ?thesis using admit_inv [OF assms(2)] permit_scope_ok by metis
next
  case (turn now bid q tracked res)
  then show ?thesis using pruneExpired_inv [OF assms(2)] send_turn_state by metis
next
  case (restart config prepared)
  then show ?thesis using New_broker_inv by blast
next
  case (register tool draws res)
  then show ?thesis using register_inv_broker [OF assms(2)] by blast
next
  case (authorize tool nonce uid res)
  then show ?thesis using authorize_inv [OF assms(2)] validOpaqueText_nonempty by blast
next
  case (unregister now tool expected ok toClose)
  then show ?thesis using unregister_inv [OF assms(2)] by blast
next
  case (expire now r c)
  then show ?thesis using expire_locked_inv [OF assms(2)] by blast
next
  case (failure now r c)
  then show ?thesis using mark_failure_inv [OF assms(2)] by blast
next
  case (renew clk m response d r e)
  then show ?thesis using renew_commit_inv [OF assms(2)] by blast
next
  case (revoke now bid gen c)
  then show ?thesis using revoke_inv [OF assms(2)] by blast
next
  case (reload now)
  then show ?thesis using reload_inv(1) [OF assms(2)] by blast
next
  case (reload_session now tool toClose)
  then show ?thesis using reload_inv(2) [OF assms(2)] by blast
next
  case (consume now bid gen rid q n res)
  then show ?thesis using consume_inv [OF assms(2)] by blast
next
  case (cancel bid gen rid q res)
  then show ?thesis using cancel_inv [OF assms(2)] by blast
next
  case (sent bid q e)
  then show ?thesis using sent_inv [OF assms(2)] by blast
next
  case (finish q obs)
  then show ?thesis using finish_inv [OF assms(2)] by blast
next
  case (release q)
  then show ?thesis using release_inv [OF assms(2)] by blast
next
  case (close_relay r reason)
  then show ?thesis using closeRelay_inv [OF assms(2)] by blast
next
  case (fail_relay r q reason)
  then show ?thesis using failRelay_inv [OF assms(2)] by blast
next
  case (install r epoch res)
  then show ?thesis using relay_install_inv [OF assms(2)] by blast
next
  case (relay q session e session')
  then show ?thesis using relay_update_inv [OF assms(2)] by blast
next
  case closing
  then show ?thesis using closed_inv [OF assms(2)] by blast
next
  case close_clear
  then show ?thesis using close_clear_inv [OF assms(2)] by blast
qed

subsection \<open>What a step can change\<close>

text \<open>
  Apart from admission and restart, no step creates a permit or moves the sequence number,
  and bindings that stay registered keep their object, which only advances.
\<close>

definition keeps :: "broker \<Rightarrow> broker \<Rightarrow> bool" where
  "keeps b b' \<longleftrightarrow> heap_adv b b' \<and>
     (\<forall>x r r'. map_of (br_bindings b) x = Some r \<longrightarrow> map_of (br_bindings b') x = Some r' \<longrightarrow> r' = r)"

lemma keeps_same: "heap_adv b b' \<Longrightarrow> br_bindings b' = br_bindings b \<Longrightarrow> keeps b b'"
  by (simp add: keeps_def)

lemma keeps_heap: "br_heap b' = br_heap b \<Longrightarrow> br_bindings b' = br_bindings b \<Longrightarrow> keeps b b'"
  by (simp add: keeps_same heap_adv_same)

lemma heap_adv_upd_clear:
  assumes "\<And>st. br_heap b r = Some st \<Longrightarrow> advances st (f st)"
  shows "heap_adv b (clearBindingMaterialsLocked now bid (upd_state r f b))"
  by (rule heap_adv_trans [OF heap_adv_upd [OF assms] heap_adv_clear])

lemma shrinks_upd_clear: "shrinks b (clearBindingMaterialsLocked now bid (upd_state r f b))"
  by (rule shrinks_trans [OF _ shrinks_clear]) simp

lemma advances_simps [simp]:
  "advances st (st\<lparr>bs_relay := q\<rparr>)"
  "BindingGeneration m = BindingGeneration (bs_metadata st) \<Longrightarrow> advances st (st\<lparr>bs_metadata := m\<rparr>)"
  "BindingGeneration m = BindingGeneration (bs_metadata st) \<Longrightarrow>
     advances st (st\<lparr>bs_metadata := m, bs_terminal := True, bs_terminalGeneration := g\<rparr>)"
  by (simp_all add: advances_def)

lemma expireBindingLocked_frame:
  "shrinks b (expireBindingLocked now r b) \<and> heap_adv b (expireBindingLocked now r b) \<and>
   br_bindings (expireBindingLocked now r b) = br_bindings b"
  unfolding expireBindingLocked_def Let_def upd_metadata_def upd_state_comp comp_def
  by (intro conjI shrinks_upd_clear heap_adv_upd_clear) simp_all

lemma mark_failure_frame:
  assumes "mark_failure_locked now r b = (b', c)"
  shows "shrinks b b' \<and> heap_adv b b' \<and> br_bindings b' = br_bindings b"
proof -
  have 1: "shrinks b (clearBindingMaterialsLocked now x (expireBindingLocked now r b)) \<and>
      heap_adv b (clearBindingMaterialsLocked now x (expireBindingLocked now r b)) \<and>
      br_bindings (clearBindingMaterialsLocked now x (expireBindingLocked now r b)) = br_bindings b" for x
    using expireBindingLocked_frame [of b now r] shrinks_trans [OF _ shrinks_clear]
      heap_adv_trans [OF _ heap_adv_clear] by simp
  have 2: "shrinks b (clearBindingMaterialsLocked now x (upd_metadata r g b)) \<and>
      heap_adv b (clearBindingMaterialsLocked now x (upd_metadata r g b)) \<and>
      br_bindings (clearBindingMaterialsLocked now x (upd_metadata r g b)) = br_bindings b"
    if "\<And>m. BindingGeneration (g m) = BindingGeneration m" for x g
    unfolding upd_metadata_def
    by (intro conjI shrinks_upd_clear heap_adv_upd_clear) (simp_all add: that)
  show ?thesis
    using assms unfolding mark_failure_locked_def Let_def
    by (auto simp: 1 2 expireBindingLocked_frame split: if_splits)
qed

lemma renew_commit_frame:
  assumes "renew_answer clk m response = Inr d" "renew_commit r m d b = (b', e)"
  shows "shrinks b b' \<and> heap_adv b b' \<and> br_bindings b' = br_bindings b"
proof (cases "b' = b")
  case False
  let ?f = "\<lambda>st. st\<lparr>bs_metadata := (bs_metadata st)\<lparr>BindingGeneration := rd_BindingGeneration d,
               Generation := rd_BindingGeneration d, LeaseUntil := rd_LeaseUntil d,
               LeaseHealth := rd_LeaseHealth d, LeaseGraceUntil := rd_LeaseGraceUntil d,
               AbsoluteTTLUntil := rd_AbsoluteTTLUntil d\<rparr>\<rparr>"
  have gen: "BindingGeneration (metadata_of b r) = BindingGeneration m"
    and b': "b' = upd_state r ?f b"
    using assms(2) False by (auto simp: renew_commit_def upd_metadata_def split: if_splits)
  have "heap_adv b b'"
    unfolding b' by (rule heap_adv_upd) (use gen renew_answer_ok(2) [OF assms(1)] in \<open>simp add: deref_def\<close>)
  then show ?thesis by (simp add: b')
qed simp

lemma revoke_frame:
  assumes "revoke_locked now bid gen b = (b', c)"
  shows "shrinks b b' \<and> heap_adv b b' \<and> br_bindings b' = br_bindings b"
proof (cases "b' = b")
  case False
  then obtain r where "b' = clearBindingMaterialsLocked now bid (upd_state r
      (\<lambda>st. st\<lparr>bs_metadata := (bs_metadata st)\<lparr>Status := ''revoked'', LeaseHealth := ''expired'',
      LeaseGraceUntil := None\<rparr>, bs_terminal := True, bs_terminalGeneration := BindingGeneration (bs_metadata st)\<rparr>) b)"
    using assms by (auto simp: revoke_locked_def Let_def upd_metadata_def upd_state_comp comp_def
        split: option.splits if_splits)
  then show ?thesis by (simp add: shrinks_upd_clear heap_adv_upd_clear)
qed simp

lemma clear_bindings_frame: "shrinks b (clear_bindings now ids b) \<and> heap_adv b (clear_bindings now ids b)"
proof (induction ids arbitrary: b)
  case (Cons i ids)
  then show ?case
    using shrinks_trans [OF shrinks_clear [of b now i]] heap_adv_trans [OF heap_adv_clear [of b now i]]
    by (simp add: clear_bindings_def)
qed (simp add: clear_bindings_def)

lemma unregister_frame:
  assumes "unregister_locked now tool expected b = (b', ok, toClose)"
  shows "shrinks b b' \<and> heap_adv b b' \<and> br_bindings b' = br_bindings b"
  using assms
proof (cases rule: unregister_cases)
  case (removed b1)
  have "shrinks b b1" "heap_adv b b1" by (simp_all add: removed(4) shrinks_def heap_adv_def)
  then have "shrinks b b'" "heap_adv b b'"
    using clear_bindings_frame [of b1 now "map fst (session_bindings tool b)"] shrinks_trans [of b b1 b']
      heap_adv_trans [of b b1 b'] by (simp_all add: removed(5))
  then show ?thesis by (simp add: removed(4,5) clear_bindings_fields)
qed simp

lemma relay_frame:
  "shrinks b (closeRelay r reason b) \<and> heap_adv b (closeRelay r reason b) \<and>
     br_bindings (closeRelay r reason b) = br_bindings b"
  "shrinks b (failRelay r q reason b) \<and> heap_adv b (failRelay r q reason b) \<and>
     br_bindings (failRelay r q reason b) = br_bindings b"
  "relay_install r epoch b = (b', res) \<Longrightarrow> shrinks b b' \<and> heap_adv b b' \<and> br_bindings b' = br_bindings b"
  by (auto simp: closeRelay_def failRelay_def relay_install_def Let_def shrinks_def heap_adv_def
      split: option.splits prod.splits if_splits)

lemma register_frame:
  assumes "RegisterToolSession tool draws b = Some (b', res)"
  shows "shrinks b b' \<and> heap_adv b b' \<and> br_bindings b' = br_bindings b"
proof -
  have "register_loop tool draws b = Some (b', res) \<Longrightarrow> shrinks b b' \<and> heap_adv b b' \<and> br_bindings b' = br_bindings b"
    by (induction tool draws b rule: register_loop.induct)
      (auto simp: shrinks_def heap_adv_def split: sum.splits if_splits)
  then show ?thesis
    using assms by (auto simp: RegisterToolSession_def Let_def split: if_splits sum.splits)
qed

lemma admit_frame:
  assumes "admit now env rndID rndKey nonce tool dts sc b = (b', res)" "broker_inv b"
  shows "br_heap b' = br_heap b \<and> br_bindings b' = br_bindings b \<and> br_sequence b \<le> br_sequence b' \<and>
    (\<forall>q \<in> keys (br_permits b'). q \<in> keys (br_permits b) \<or> br_sequence b < q) \<and>
    (\<forall>p. res = Inr p \<longrightarrow> br_sequence b < p_Sequence p \<and> p_Sequence p = br_sequence b')"
proof -
  have root: "c_StateRoot (br_cfg b) \<noteq> []" using assms(2) by (simp add: broker_inv_def config_inv_def)
  have sub: "q \<in> keys (br_permits b)" if "q \<in> keys (br_permits (pruneExpiredPermitsLocked now b))" for q
    using that by auto
  from assms(1) root show ?thesis
  proof (cases rule: admit_cases)
    case refused
    then show ?thesis using sub by auto
  next
    case gap
    then show ?thesis using sub by auto
  next
    case (issued r m requestID expiresAt key permit)
    have "\<forall>q \<in> keys (br_permits b'). q \<in> keys (br_permits b) \<or> br_sequence b < q"
      using sub issued(8) unfolding issued(12) notify_fields(8) by (auto simp del: pruneExpired_fields)
    then show ?thesis using issued(8,10,11,12) by (auto simp: new_permit_def)
  qed
qed

lemma restart_sequence:
  assumes "New_broker config prepared (br_file b) = Inr b'" "broker_inv b"
  shows "br_sequence b' = br_sequence b \<and> br_permits b' = []"
proof (rule New_broker_ok [OF assms(1)])
  assume b': "b' = new_broker (withDefaults config) (br_sequence b') (br_file b)"
    and root: "c_StateRoot (withDefaults config) \<noteq> []"
    and load: "loadSequence (c_StateRoot (withDefaults config)) (br_file b) = Inr (br_sequence b')"
  have "loadSequence (c_StateRoot (br_cfg b)) (br_file b) = Inr (br_sequence b)" "c_StateRoot (br_cfg b) \<noteq> []"
    using assms(2) by (simp_all add: broker_inv_def config_inv_def)
  then show ?thesis using load root by (subst (2) b') (simp add: loadSequence_def new_broker_def)
qed

lemma broker_step_frame:
  assumes "broker_step b e b'" "broker_inv b" "e \<noteq> EvRestart"
  shows "keeps b b' \<and> ((\<exists>res. e = EvAdmit res) \<or> shrinks b b')"
  using assms(1)
proof (cases rule: broker_step.cases)
  case (register tool draws res)
  then show ?thesis using register_frame keeps_same by blast
next
  case (unregister now tool expected ok toClose)
  then show ?thesis using unregister_frame keeps_same by blast
next
  case (snapshot ms snap now toClose)
  then show ?thesis using snapshot_inv(2,3,5) [OF snapshot(2,3) assms(2)] unfolding keeps_def by blast
next
  case (expire now r c)
  then show ?thesis
    using expireBindingLocked_frame [of b now r] keeps_same [of b]
    by (auto simp: expire_locked_def keeps_def split: if_splits)
next
  case (failure now r c)
  then show ?thesis using mark_failure_frame keeps_same by blast
next
  case (renew clk m response d r e)
  then show ?thesis using renew_commit_frame keeps_same by blast
next
  case (revoke now bid gen c)
  then show ?thesis using revoke_frame keeps_same by blast
next
  case (reload now)
  then show ?thesis
    using clear_bindings_frame [of b now] keeps_same [of b b'] by (simp add: reload_locked_def clear_bindings_fields)
next
  case (reload_session now tool toClose)
  then have "b' = clear_bindings now (map fst (session_bindings tool b)) b"
    by (simp add: reload_session_locked_def Let_def)
  then show ?thesis using clear_bindings_frame [of b now] keeps_same [of b b'] by (simp add: clear_bindings_fields)
next
  case (admit request b0 tool r dts sc now env rndID rndKey res)
  then show ?thesis using admit_frame [OF admit(3) assms(2)] keeps_heap by blast
next
  case (consume now bid gen rid q n res)
  from consume(2) show ?thesis
  proof (cases rule: consume_cases)
    case refused
    then show ?thesis by (simp add: keeps_heap shrinks_same)
  next
    case (expired p)
    then show ?thesis by (auto simp: keeps_heap shrinks_def)
  next
    case (taken p)
    then show ?thesis by (auto simp: keeps_heap shrinks_def same_bindings_def)
  qed
next
  case (turn now bid q tracked res)
  then show ?thesis using send_turn_state [OF turn(2)] by (auto simp: keeps_heap shrinks_def)
next
  case (close_relay r reason)
  then show ?thesis using relay_frame(1) keeps_same by blast
next
  case (fail_relay r q reason)
  then show ?thesis using relay_frame(2) keeps_same by blast
next
  case (install r epoch res)
  then show ?thesis using relay_frame(3) keeps_same by blast
next
  case restart
  then show ?thesis using assms(3) by simp
qed (auto simp: keeps_heap shrinks_same authorize_commit_def cancel_mark_def markRequestSent_def
    finishRequestForward_def relay_update_def close_clear_def shrinks_def release_fields
    release_fields(6) [unfolded same_bindings_def] split: if_splits option.splits)

subsection \<open>Single use and order\<close>

fun consumed_by :: "broker_event \<Rightarrow> u64 list" where
  "consumed_by (EvConsume q (Inr p)) = [q]"
| "consumed_by _ = []"

fun issued_by :: "broker_event \<Rightarrow> u64 list" where
  "issued_by (EvAdmit (Inr p)) = [p_Sequence p]"
| "issued_by _ = []"

definition permit_spent :: "broker \<Rightarrow> u64 \<Rightarrow> bool" where
  "permit_spent b q \<longleftrightarrow> q \<le> br_sequence b \<and> q \<notin> keys (br_permits b)"

inductive_cases admit_stepE: "broker_step b (EvAdmit res) b'"
inductive_cases restart_stepE: "broker_step b EvRestart b'"
inductive_cases consume_stepE: "broker_step b (EvConsume q res) b'"

lemma admit_step_frame:
  assumes "broker_step b (EvAdmit res) b'" "broker_inv b"
  shows "br_sequence b \<le> br_sequence b' \<and>
    (\<forall>q \<in> keys (br_permits b'). q \<in> keys (br_permits b) \<or> br_sequence b < q)"
  using assms(1)
proof (rule admit_stepE)
  fix request b0 tool r dts sc now env rndID rndKey
  assume "admit now env rndID rndKey (q_StartupNonce request) tool dts sc b = (b', res)"
  from admit_frame [OF this assms(2)] show ?thesis by blast
qed

lemma restart_step_frame:
  assumes "broker_step b EvRestart b'" "broker_inv b"
  shows "br_sequence b' = br_sequence b \<and> br_permits b' = []"
  using assms(1) by (rule restart_stepE) (rule restart_sequence [OF _ assms(2)])

lemma consumed_step:
  assumes "broker_step b e b'" "q \<in> set (consumed_by e)"
  obtains now bid gen rid n p where "e = EvConsume q (Inr p)" "ConsumePermit now bid gen rid q n b = (b', Inr p)"
  using assms by (cases rule: broker_step.cases; cases e rule: consumed_by.cases) auto

lemma issued_step:
  assumes "broker_step b e b'" "q \<in> set (issued_by e)"
  obtains request b0 tool r dts sc now env rndID rndKey p where "e = EvAdmit (Inr p)" "q = p_Sequence p"
    "permit_scope request b0 = Inr (tool, r, dts, sc)"
    "admit now env rndID rndKey (q_StartupNonce request) tool dts sc b = (b', Inr p)"
  using assms by (cases rule: broker_step.cases; cases e rule: issued_by.cases) auto

interpretation permits: single_use_system broker_step broker_inv consumed_by permit_spent
proof
  fix b e b' and q :: u64
  assume step: "broker_step b e b'" and inv: "broker_inv b"
  have req: "requests_inv b" using inv by (simp add: broker_inv_def)
  show "broker_inv b'" using broker_step_inv [OF step inv] .
  show "distinct (consumed_by e)" by (cases e rule: consumed_by.cases) auto
  show "\<not> permit_spent b q" if q: "q \<in> set (consumed_by e)"
  proof (rule consumed_step [OF step q])
    fix now bid gen rid n p assume "ConsumePermit now bid gen rid q n b = (b', Inr p)"
    then have "map_of (br_permits b) q = Some p" by (cases rule: consume_cases) auto
    then show ?thesis unfolding permit_spent_def in_keys_Some by blast
  qed
  show "permit_spent b' q" if q: "q \<in> set (consumed_by e)"
  proof (rule consumed_step [OF step q])
    fix now bid gen rid n p assume "ConsumePermit now bid gen rid q n b = (b', Inr p)"
    then show ?thesis
    proof (cases rule: consume_cases)
      case (taken p')
      then obtain a where "map_of (br_active b) q = Some a"
        using permit_okD [OF req] by (auto simp: permit_ok_def)
      then have "q \<le> br_sequence b" using request_okD [OF req] by (simp add: request_ok_def)
      then show ?thesis using taken by (simp add: permit_spent_def)
    qed auto
  qed
  show "permit_spent b' q" if q: "permit_spent b q"
  proof (cases "e = EvRestart")
    case True
    then show ?thesis using restart_step_frame [OF _ inv] step q by (simp add: permit_spent_def)
  next
    case False
    then consider res where "e = EvAdmit res" | "shrinks b b'" using broker_step_frame [OF step inv] by blast
    then show ?thesis
    proof cases
      case (1 res)
      then show ?thesis
        using admit_step_frame [OF _ inv] step q unfolding permit_spent_def by (meson leD order_trans)
    next
      case 2
      then have "keys (br_permits b') \<subseteq> keys (br_permits b)" "br_sequence b' = br_sequence b"
        by (simp_all only: shrinks_def)
      then show ?thesis
        using q contra_subsetD [of "keys (br_permits b')" "keys (br_permits b)" q]
        unfolding permit_spent_def by (simp only: simp_thms)
    qed
  qed
qed

lemma broker_level:
  assumes step: "broker_step b e b'" and inv: "broker_inv b"
  shows "br_sequence b \<le> br_sequence b'"
proof (cases "e = EvRestart")
  case True
  then show ?thesis using restart_step_frame [OF _ inv] step by simp
next
  case False
  then consider res where "e = EvAdmit res" | "shrinks b b'" using broker_step_frame [OF step inv] by blast
  then show ?thesis
  proof cases
    case (1 res)
    then show ?thesis using admit_step_frame [OF _ inv] step by blast
  next
    case 2
    then show ?thesis by (simp add: shrinks_def)
  qed
qed

interpretation sequences: counter_system broker_step broker_inv br_sequence issued_by
proof
  fix b e b' and q :: u64
  assume step: "broker_step b e b'" and inv: "broker_inv b"
  show "br_sequence b \<le> br_sequence b'" by (rule broker_level [OF step inv])
  show "sorted_wrt (<) (issued_by e)" by (cases e rule: issued_by.cases) auto
  show "br_sequence b < q \<and> q \<le> br_sequence b'" if q: "q \<in> set (issued_by e)"
  proof (rule issued_step [OF step q])
    fix request tool dts sc now env rndID rndKey p
    assume p: "q = p_Sequence p"
      and "admit now env rndID rndKey (q_StartupNonce request) tool dts sc b = (b', Inr p)"
    from admit_frame [OF this(2) inv] show ?thesis unfolding p by auto
  qed
qed

end
