(* ===== verification/Broker_Claims.thy ===== *)
theory Broker_Claims
  imports Broker_Props
begin

section \<open>What the broker promises\<close>

text \<open>
  The properties of the broker's runs and of its operations, and a concrete run that shows
  their hypotheses can hold: a tool session is registered, a snapshot with one binding is
  loaded, a permit is issued and consumed.
\<close>

subsection \<open>A concrete run\<close>

definition sample_config :: config where
  "sample_config = \<lparr>c_Enabled = True, c_NodeID = ''node-1'', c_SocketPath = [], c_StateRoot = [],
     c_ControlPlaneConfigured = True, c_LeaseSeconds = 0, c_RenewIntervalSeconds = 0,
     c_RenewGraceSeconds = 0, c_AdmissionMinRemainingSeconds = 0, c_MaxParallelRequests = 0,
     c_MaxScriptBytes = 0, c_MaxExecuteTimeoutMS = 0, c_WrapperVersion = []\<rparr>"

definition sample_binding :: ego_binding where
  "sample_binding = \<lparr>BindingID = ''b1'', EgoBrowserDeviceID = ''d1'',
     EncryptionPublicKey = b64_encode (replicate 32 (CHR 0x09)), ToolSessionID = ''t1'', NodeID = ''node-1'',
     Status = ''active'', ControlChannel = ''ego_browser_bridge'', RelayBindingKind = ''ego_browser'',
     AuthorizationMode = ''ego_browser_script_full_trust'', AuthorizationPolicyVersion = 1,
     BindingGeneration = 1, Generation = 0, ReleaseProfile = [], SignerCertificateSHA256 = [],
     CredentialProfile = [], RemotePlatform = ''linux'', LocalPlatform = ''macos'',
     BridgeProtocolVersion = ProtocolVersion, LocalRuntimeVersion = None, EgoLiteRuntimeVersion = None,
     SkillVersion = None, TaskSpaceLabel = None, AllowlistRevision = 1, AllowlistRootsDigest = None,
     LearningBundleDigest = None, ConcurrencyMode = [], MaxParallelRequests = 2,
     Capabilities = requiredBridgeCapabilities, LeaseUntil = Some (Stamp (100 * second)),
     LeaseHealth = ''healthy'', LeaseGraceUntil = None, LeaseRenewIntervalSeconds = 0,
     LeaseRenewFailureGraceSeconds = 0, AbsoluteTTLUntil = Stamp (1000 * second)\<rparr>"

definition sample_broker :: broker where
  "sample_broker = new_broker (withDefaults sample_config) 0 NoSequence"

lemma sample_New: "New_broker sample_config None NoSequence = Inr sample_broker"
  by (simp add: New_broker_def sample_config_def withDefaults_def Let_def defaultMaxScriptBytes_def
      defaultMaxExecuteTimeoutMS_def loadSequence_def sample_broker_def)

lemma length_sextets_le: "length (sextets bs) \<le> 2 * length bs"
  by (induction bs rule: sextets.induct) auto

lemma b64_encode_valid:
  assumes "bs \<noteq> []" "2 * length bs \<le> n"
  shows "validOpaqueText (b64_encode bs) n"
proof -
  have lt: "\<forall>b\<in>set (map of_char bs). b < (256 :: nat)" by auto
  have "c \<notin> {CHR 0x00, CHR 0x0D, CHR 0x0A}" if c: "c \<in> set (b64_encode bs)" for c
  proof -
    obtain k where k: "k < 64" "c = b64_char k"
      using c sextets_lt [OF lt] by (auto simp: b64_encode_def)
    have "45 \<le> (of_char c :: nat)"
      unfolding k(2) of_char_b64_char [OF k(1)] by arith
    then show ?thesis by auto
  qed
  then show ?thesis
    using b64_encode_nonempty [OF assms(1)] length_sextets_le [of "map of_char bs"] assms(2)
    by (auto simp: validOpaqueText_def contains_any_iff b64_encode_def)
qed

lemma randomToken_valid:
  assumes "randomToken k rnd = Inr token" "0 < k" "2 * k \<le> n"
  shows "validOpaqueText token n"
  using assms by (auto simp: randomToken_def rand_read_def split: option.splits intro!: b64_encode_valid)

definition sample_nonce :: string where
  "sample_nonce = b64_encode (map (\<lambda>_. CHR 0x00) [0..<32])"

lemma sample_token: "randomToken 32 (Some (\<lambda>_. CHR 0x00)) = Inr sample_nonce"
  by (simp add: randomToken_def rand_read_def sample_nonce_def)

lemma sample_nonce_valid: "validOpaqueText sample_nonce 256"
  by (rule randomToken_valid [OF sample_token]) simp_all

lemma sample_binding_valid: "validateBinding ''node-1'' (sample_binding\<lparr>Generation := 1\<rparr>) = None"
proof -
  have "validCanonicalBase64URL (b64_encode (replicate 32 (CHR 0x09))) 32"
    using b64_encode_nonempty [of "replicate 32 (CHR 0x09)"]
    by (auto simp: validCanonicalBase64URL_def b64_decode_encode)
  moreover have "validBindingCapabilities (sample_binding\<lparr>Generation := 1\<rparr>)"
    by (simp add: validBindingCapabilities_def sample_binding_def requiredBridgeCapabilities_def)
  ultimately show ?thesis
    by (simp add: validateBinding_def sample_binding_def validOpaqueText_def contains_any_def bindingStatuses_def)
qed

lemma sample_load: "load_snapshot ''node-1'' [] [sample_binding] = Inr [(''b1'', sample_binding\<lparr>Generation := 1\<rparr>)]"
proof -
  have norm: "NormalizeBindingGeneration sample_binding = Inr (sample_binding\<lparr>Generation := 1\<rparr>)"
    by (simp add: NormalizeBindingGeneration_def normalizeGeneration_def sample_binding_def)
  have id: "BindingID (sample_binding\<lparr>Generation := 1\<rparr>) = ''b1''" by (simp add: sample_binding_def)
  show ?thesis
    unfolding load_snapshot.simps norm sum.case sample_binding_valid option.case id by (simp add: put_def)
qed

definition sample_registered :: broker where
  "sample_registered = sample_broker\<lparr>br_sessions := [(''t1'', sample_nonce)], br_nonces := [(sample_nonce, ''t1'')]\<rparr>"

definition sample_authorized :: broker where
  "sample_authorized = sample_registered\<lparr>br_peerUIDs := [(''t1'', 1000)]\<rparr>"

definition sample_bound :: broker where
  "sample_bound = sample_authorized\<lparr>br_heap := [0 \<mapsto> fresh_state (sample_binding\<lparr>Generation := 1\<rparr>)],
      br_nextState := 1, br_bindings := [(''b1'', 0)]\<rparr>"

lemmas sample_simps = sample_bound_def sample_authorized_def sample_registered_def sample_broker_def new_broker_def
  sample_config_def withDefaults_def Let_def

lemma sample_task_space: "dedicatedTaskSpace ''t1'' = Inr ''agent-remote:t1''"
  by (simp add: dedicatedTaskSpace_def label_char_def Let_def)

lemma sample_step1: "broker_step sample_broker (EvRegister ''t1'' (Inr (sample_nonce, True))) sample_registered"
  by (rule broker_step.register [where draws = "[Some (\<lambda>_. CHR 0x00)]"])
    (simp add: RegisterToolSession_def sample_token sample_simps validOpaqueText_def contains_any_def
      sample_task_space put_def)

lemma sample_step_authorize: "broker_step sample_registered (EvAuthorize ''t1'' 1000 None) sample_authorized"
  by (rule broker_step.authorize [where nonce = sample_nonce])
    (simp_all add: authorize_commit_def sample_simps validOpaqueText_def contains_any_def get_str_def put_def)

lemma sample_step2: "broker_step sample_authorized (EvSetBindings [sample_binding]) sample_bound"
proof (rule broker_step.snapshot)
  have "c_NodeID (br_cfg sample_authorized) = ''node-1''" by (simp add: sample_simps)
  then show "load_snapshot (c_NodeID (br_cfg sample_authorized)) [] [sample_binding] =
      Inr [(''b1'', sample_binding\<lparr>Generation := 1\<rparr>)]" by (simp only: sample_load)
  show "set_bindings_locked 0 [(''b1'', sample_binding\<lparr>Generation := 1\<rparr>)] sample_authorized = (sample_bound, [])"
    by (simp add: set_bindings_locked_def sample_simps fresh_state_def fun_upd_def)
qed

definition sample_request :: PermitRequest where
  "sample_request = \<lparr>q_Protocol = ProtocolVersion, q_Type = ''permit_request'', q_StartupNonce = sample_nonce,
     q_ScriptBytes = 10, q_TimeoutMS = 1000, q_CWDLabel = ''work'', q_ConcurrencyMode = ''binding'',
     q_TaskSpaceScope = [], q_TabScope = []\<rparr>"

definition sample_scope :: scope where
  "sample_scope = \<lparr>sc_mode = ''binding'', sc_taskSpace = [], sc_tab = []\<rparr>"

lemma sample_normalize: "normalizeScope ''binding'' [] [] = Inr sample_scope"
  by code_simp

lemma sample_nonce_session: "bindingForNonce sample_nonce sample_bound = Inr (''t1'', 0)"
  by (simp add: bindingForNonce_def sessionForNonceLocked_def sample_nonce_valid bindingForSessionLocked_def
      session_bindings_def deref_def fresh_state_def get_str_def sample_simps sample_binding_def)

lemma sample_checks: "permit_request_checks sample_request sample_bound = None"
  by (simp add: permit_request_checks_def sample_request_def sample_simps defaultMaxScriptBytes_def
      defaultMaxExecuteTimeoutMS_def validOpaqueText_def contains_any_def has_prefix_def)

lemma sample_permit_scope:
  "permit_scope sample_request sample_bound = Inr (''t1'', 0, ''agent-remote:t1'', sample_scope)"
  by (simp add: permit_scope_def sample_checks)
    (simp add: sample_request_def sample_nonce_session sample_task_space sample_normalize, simp add: sample_scope_def)

definition sample_permit :: Permit where
  "sample_permit = new_permit (br_cfg sample_bound) (sample_binding\<lparr>Generation := 1\<rparr>)
     (b64_encode (map (\<lambda>_. CHR 0x01) [0..<18])) 1 (20 * second) ''agent-remote:t1'' sample_scope
     (map (\<lambda>_. CHR 0x02) [0..<32])"

definition sample_issued :: broker where
  "sample_issued = sample_bound\<lparr>br_sequence := 1, br_file := SequenceState 1, br_permits := [(1, sample_permit)],
     br_active := [(1, new_request (sample_binding\<lparr>Generation := 1\<rparr>)
        (b64_encode (map (\<lambda>_. CHR 0x01) [0..<18])) 1 (20 * second))], br_changed := 1\<rparr>"

lemma sample_binding_sel [simp]:
  "BindingID sample_binding = ''b1''" "ToolSessionID sample_binding = ''t1''" "Status sample_binding = ''active''"
  "LeaseHealth sample_binding = ''healthy''" "BindingGeneration sample_binding = 1" "MaxParallelRequests sample_binding = 2"
  "LeaseUntil sample_binding = Some (Stamp (100 * second))" "AbsoluteTTLUntil sample_binding = Stamp (1000 * second)"
  by (simp_all add: sample_binding_def)

lemma sample_admit:
  "admit 0 (\<lambda>_. RenameOK) (Some (\<lambda>_. CHR 0x01)) (Some (\<lambda>_. CHR 0x02)) sample_nonce ''t1'' ''agent-remote:t1''
     sample_scope sample_bound = (sample_issued, Inr sample_permit)"
  by (simp add: admit_def pruneExpiredPermitsLocked_def get_str_def bindingForSessionLocked_def session_bindings_def
      deref_def fresh_state_def sample_simps sample_issued_def sample_permit_def activeRequestCountLocked_def
      nextSequenceLocked_def persistSequence_def randomToken_def rand_read_def permit_expiry_def
      notifyRequestChangeLocked_def put_def)

definition sample_consumed :: broker where
  "sample_consumed = sample_issued\<lparr>br_permits := [], br_consumed := [(1, 5)],
     br_active := [(1, (new_request (sample_binding\<lparr>Generation := 1\<rparr>)
        (b64_encode (map (\<lambda>_. CHR 0x01) [0..<18])) 1 (20 * second))\<lparr>ar_submitted := True\<rparr>)], br_changed := 2\<rparr>"

lemma sample_step3: "broker_step sample_bound (EvAdmit (Inr sample_permit)) sample_issued"
  by (rule broker_step.admit [OF sample_permit_scope, of 0 "\<lambda>_. RenameOK" "Some (\<lambda>_. CHR 0x01)" "Some (\<lambda>_. CHR 0x02)"])
    (simp add: sample_admit sample_request_def)

lemma sample_ConsumePermit:
  "ConsumePermit 5 ''b1'' 1 (b64_encode (map (\<lambda>_. CHR 0x01) [0..<18])) 1 100 sample_issued =
     (sample_consumed, Inr sample_permit)"
  by (simp add: ConsumePermit_def pruneConsumedLocked_def evict_oldest.simps sample_issued_def sample_consumed_def
      sample_permit_def new_permit_def new_request_def defaultMaxPayloadBytes_def sample_simps
      notifyRequestChangeLocked_def upd_active_def adjust_def put_def del_def)

lemma sample_step4: "broker_step sample_issued (EvConsume 1 (Inr sample_permit)) sample_consumed"
  by (rule broker_step.consume [OF sample_ConsumePermit])

lemma sample_run:
  "runs broker_step sample_broker [EvRegister ''t1'' (Inr (sample_nonce, True)), EvAuthorize ''t1'' 1000 None,
     EvSetBindings [sample_binding],
     EvAdmit (Inr sample_permit)] sample_issued"
  by (rule runs_Cons [OF sample_step1 runs_Cons [OF sample_step_authorize runs_Cons [OF sample_step2
      runs_Cons [OF sample_step3 runs_Nil [where step = broker_step]]]]])

lemma sample_full_run:
  "runs broker_step sample_broker [EvRegister ''t1'' (Inr (sample_nonce, True)), EvAuthorize ''t1'' 1000 None,
     EvSetBindings [sample_binding],
     EvAdmit (Inr sample_permit), EvConsume 1 (Inr sample_permit)] sample_consumed"
  by (rule runs_Cons [OF sample_step1 runs_Cons [OF sample_step_authorize runs_Cons [OF sample_step2
      runs_Cons [OF sample_step3 runs_Cons [OF sample_step4 runs_Nil [where step = broker_step]]]]]])

subsection \<open>Runs from a fresh broker\<close>

lemma New_runs_inv:
  assumes "New_broker config prepared file = Inr b" "runs broker_step b es b'"
  shows "broker_inv b'"
  by (rule permits.runs_inv [OF assms(2) New_broker_inv [OF assms(1)]])

text \<open>
  C1: a permit is consumed at most once. In every run of the broker from \<open>New\<close>, whatever the
  interleaving of wrappers, cancellations, renewals, snapshots and restarts of the node, no
  sequence number is accepted twice by \<open>ConsumePermit\<close>.
\<close>

theorem permits_consumed_once:
  assumes "New_broker config prepared file = Inr b" "runs broker_step b es b'"
  shows "distinct (concat (map consumed_by es))"
  by (rule permits.uses_distinct [OF assms(2) New_broker_inv [OF assms(1)]])

theorem permits_consumed_once_witness:
  "New_broker sample_config None NoSequence = Inr sample_broker \<and>
   distinct (concat (map consumed_by [EvRegister ''t1'' (Inr (sample_nonce, True)), EvAuthorize ''t1'' 1000 None,
     EvSetBindings [sample_binding],
     EvAdmit (Inr sample_permit), EvConsume 1 (Inr sample_permit)]))"
  by (rule conjI [OF sample_New permits_consumed_once [OF sample_New sample_full_run]])

text \<open>
  C3: sequence numbers are never reused. The permits issued in a run carry strictly increasing
  sequence numbers above the one loaded at the start, also when the node restarts between
  them, because the number is persisted before the permit exists.
\<close>

theorem issued_sequences_increase:
  assumes "New_broker config prepared file = Inr b" "runs broker_step b es b'"
  shows "sorted_wrt (<) (concat (map issued_by es)) \<and>
    (\<forall>q \<in> set (concat (map issued_by es)). br_sequence b < q)"
  by (rule sequences.runs_issued [OF assms(2) New_broker_inv [OF assms(1)]])

theorem issued_sequences_increase_witness:
  "sorted_wrt (<) (concat (map issued_by [EvRegister ''t1'' (Inr (sample_nonce, True)), EvAuthorize ''t1'' 1000 None,
     EvSetBindings [sample_binding],
     EvAdmit (Inr sample_permit)])) \<and> br_sequence sample_broker < p_Sequence sample_permit"
  using issued_sequences_increase [OF sample_New sample_run] by simp



text \<open>
  concurrency stays bounded. No run registers more requests for a binding than the
  configured limit, which is at most four, and pruning leaves at most 4096 entries in the
  replay window.
\<close>

theorem broker_bounds:
  assumes "New_broker config prepared file = Inr b" "runs broker_step b es b'"
  shows "activeRequestCountLocked bid b' \<le> c_MaxParallelRequests (br_cfg b') \<and>
    c_MaxParallelRequests (br_cfg b') \<le> 4 \<and>
    length (br_consumed (pruneConsumedLocked now b')) \<le> maximumReplayEntries"
  using New_runs_inv [OF assms] evict_oldest_length
  by (simp add: broker_inv_def requests_inv_def config_inv_def pruneConsumedLocked_def)

theorem broker_bounds_witness:
  "activeRequestCountLocked ''b1'' sample_issued = 1 \<and>
   activeRequestCountLocked ''b1'' sample_issued \<le> c_MaxParallelRequests (br_cfg sample_issued)"
  using broker_bounds [OF sample_New sample_run, of "''b1''"]
  by (simp add: activeRequestCountLocked_def sample_issued_def new_request_def)

end
