(* ===== verification/Broker_Ops.thy ===== *)
theory Broker_Ops
  imports Broker_Claims
begin

section \<open>The broker's operations\<close>

text \<open>
  What each exported operation of \<open>broker.go\<close> does as a whole, and that each of them is a
  sequence of the locked sections of the step relation, so that the properties of runs apply
  to every composition of operations.
\<close>

subsection \<open>Operations are runs\<close>

definition reach :: "broker \<Rightarrow> broker \<Rightarrow> bool" where
  "reach b b' \<longleftrightarrow> (\<exists>es. runs broker_step b es b' \<and> EvRestart \<notin> set es)"

lemma reach_refl [simp]: "reach b b"
  unfolding reach_def by (rule exI [of _ "[]"]) auto

lemma reach_step: "broker_step b e b' \<Longrightarrow> e \<noteq> EvRestart \<Longrightarrow> reach b b'"
  unfolding reach_def by (rule exI [of _ "[e]"]) auto

lemma reach_trans [trans]: "reach b c \<Longrightarrow> reach c d \<Longrightarrow> reach b d"
  unfolding reach_def using runs_append [of broker_step] by (metis Un_iff set_append)

lemma reach_inv: "reach b b' \<Longrightarrow> broker_inv b \<Longrightarrow> broker_inv b'"
  unfolding reach_def using permits.runs_inv by blast

lemma reach_foldl: "(\<And>b x. reach b (f b x)) \<Longrightarrow> reach b (foldl f b xs)"
  by (induction xs arbitrary: b) (auto intro: reach_trans)

lemma reach_closeRelay: "reach b (closeRelay r reason b)"
  by (rule reach_step [OF broker_step.close_relay [OF refl]]) simp

lemma reach_close_all: "reach b (close_all rs reason b)"
  unfolding close_all_def by (rule reach_foldl, rule reach_closeRelay)

lemma reach_revoke: "reach b (RevokeBinding now bid gen b)"
proof -
  obtain b1 c where r: "revoke_locked now bid gen b = (b1, c)" by fastforce
  have "reach b b1" by (rule reach_step [OF broker_step.revoke [OF r]]) simp
  then show ?thesis by (auto simp: RevokeBinding_def r intro: reach_trans reach_closeRelay split: option.split)
qed

lemma reach_reload: "reach b (Reload now b)"
  unfolding Reload_def by (rule reach_trans [OF reach_step [OF broker_step.reload [OF refl]] reach_close_all]) simp

lemma reach_reload_session: "reach b (reloadToolSession now tool b)"
proof -
  obtain b1 c where r: "reload_session_locked now tool b = (b1, c)" by fastforce
  have "reach b b1" by (rule reach_step [OF broker_step.reload_session [OF r]]) simp
  then show ?thesis by (simp add: reloadToolSession_def r reach_trans [OF _ reach_close_all])
qed

lemma reach_unregister: "reach b (fst (UnregisterToolSession now tool expected b))"
proof -
  obtain b1 ok c where r: "unregister_locked now tool expected b = (b1, ok, c)" by (metis prod_cases3)
  have "reach b b1" by (rule reach_step [OF broker_step.unregister [OF r]]) simp
  then show ?thesis by (cases ok) (auto simp: UnregisterToolSession_def r intro: reach_trans [OF _ reach_close_all])
qed

lemma reach_set_bindings: "reach b (fst (SetBindings now ms b))"
proof (cases "load_snapshot (c_NodeID (br_cfg b)) [] ms")
  case (Inr snap)
  obtain b1 c where r: "set_bindings_locked now snap b = (b1, c)" by fastforce
  have "reach b b1" by (rule reach_step [OF broker_step.snapshot [OF Inr r]]) simp
  then show ?thesis by (simp add: SetBindings_def Inr r reach_trans [OF _ reach_close_all])
qed (simp add: SetBindings_def)

lemma reach_refresh: "reach b (fst (Refresh now response b))"
  using reach_set_bindings by (auto simp: Refresh_def split: sum.split)

lemma reach_expire: "reach b (expireBinding now r b)"
proof -
  obtain b1 c where r: "expire_locked now r b = (b1, c)" by fastforce
  have "reach b b1" by (rule reach_step [OF broker_step.expire [OF r]]) simp
  then show ?thesis by (simp add: expireBinding_def r reach_trans [OF _ reach_closeRelay])
qed

lemma reach_failure: "reach b (markRenewalFailureFor now r b)"
proof -
  obtain b1 c where r: "mark_failure_locked now r b = (b1, c)" by fastforce
  have "reach b b1" by (rule reach_step [OF broker_step.failure [OF r]]) simp
  then show ?thesis by (simp add: markRenewalFailureFor_def r reach_trans [OF _ reach_closeRelay])
qed

lemma reach_renew: "reach b (fst (renewBinding clk response r b))"
proof (cases "\<exists>m d. renew_precheck r b = Inr m \<and> renew_answer clk m response = Inr d")
  case True
  then obtain m d where md: "renew_precheck r b = Inr m" "renew_answer clk m response = Inr d" by blast
  obtain b1 e where c: "renew_commit r m d b = (b1, e)" by fastforce
  have "reach b b1" by (rule reach_step [OF broker_step.renew [OF md(2) c]]) simp
  then show ?thesis by (simp add: renewBinding_def md c)
next
  case False
  then show ?thesis by (auto simp: renewBinding_def reach_failure split: sum.splits)
qed

lemma reach_ensureLease: "reach b (fst (ensureLease clk response r b))"
proof -
  obtain b1 e where c: "renewBinding clk response r b = (b1, e)" by fastforce
  then have "reach b b1" using reach_renew [of b clk response r] by simp
  then show ?thesis
    by (cases e) (auto simp: ensureLease_def Let_def c reach_expire split: option.split)
qed

lemma reach_renew_due: "reach b (fst (renew_due clk response r b))"
  by (auto simp: renew_due_def Let_def reach_expire reach_renew split: option.split)

lemma reach_RenewDue: "reach b (fst (RenewDue clk response b))"
proof -
  let ?f = "\<lambda>(b, firstErr) r. case renew_due (clk r) (response r) r b of
             (b, err) \<Rightarrow> (b, if firstErr = None then err else firstErr)"
  have "reach (fst s) (fst (foldl ?f s rs))" for s :: "broker \<times> ego_error option" and rs
  proof (induction rs arbitrary: s)
    case (Cons r rs)
    have "reach (fst s) (fst (?f s r))"
      using reach_renew_due [of "fst s" "clk r" "response r" r] by (auto simp: split_beta)
    then show ?case using Cons.IH [of "?f s r"] reach_trans by auto
  qed simp
  from this [of "(b, None)"] show ?thesis by (simp add: RenewDue_def)
qed

lemma reach_issue: "reach b (fst (IssuePermit clk response env rndID rndKey request b))"
proof (cases "permit_scope request b")
  case (Inr s)
  obtain tool r dts sc where s: "s = (tool, r, dts, sc)" by (cases s)
  obtain b1 e where c: "ensureLease clk response r b = (b1, e)" by fastforce
  have 1: "reach b b1" using reach_ensureLease [of b clk response r] by (simp add: c)
  obtain b2 res where a: "admit (clk 7) env rndID rndKey (q_StartupNonce request) tool dts sc b1 = (b2, res)"
    by fastforce
  have "reach b1 b2" by (rule reach_step [OF broker_step.admit [OF Inr [unfolded s] a]]) simp
  then show ?thesis using 1 reach_trans [OF 1] by (auto simp: IssuePermit_def Inr s c a split: option.split)
qed (simp add: IssuePermit_def)

lemma reach_close: "reach b (Close_broker now b)"
proof (cases "br_closed b")
  case False
  let ?b = "b\<lparr>br_closed := True\<rparr>"
  have closed: "br_closed (closeRelay r reason x) = br_closed x" for r reason x
    by (simp add: closeRelay_def Let_def split: option.split prod.split)
  have "br_closed (close_all rs reason x) = br_closed x" for rs reason x
    by (induction rs arbitrary: x) (simp_all add: close_all_def closed)
  then have "br_closed (Reload now ?b)"
    by (simp add: Reload_def reload_locked_def clear_bindings_fields)
  then have "broker_step (Reload now ?b) EvClose (close_clear (Reload now ?b))"
    by (rule broker_step.close_clear) simp
  moreover have "broker_step b EvClose ?b" by (rule broker_step.closing) simp
  ultimately show ?thesis
    using False reach_trans [OF reach_step reach_trans [OF reach_reload reach_step]] by (simp add: Close_broker_def)
qed (simp add: Close_broker_def)

lemma reach_authorize: "reach b (fst (AuthorizeToolSessionPeer tool nonce uid listenErr grantErr b))"
proof -
  obtain b1 res where c: "authorize_commit tool nonce uid b = (b1, res)" by fastforce
  have "reach b b1" if "validOpaqueText tool 128"
    by (rule reach_step [OF broker_step.authorize [OF that c]]) simp
  then show ?thesis by (auto simp: AuthorizeToolSessionPeer_def c)
qed

lemma reach_relay_session: "reach b (fst (ensureRelaySession now ticket openErr r gen epoch b))"
proof -
  obtain b1 res where c: "relay_install r epoch b = (b1, res)" by fastforce
  have "reach b b1" by (rule reach_step [OF broker_step.install [OF c]]) simp
  then show ?thesis by (simp add: ensureRelaySession_def c split: sum.split option.split)
qed


subsection \<open>Generations\<close>

lemma runs_heap_adv:
  assumes "runs broker_step b es b'" "broker_inv b" "EvRestart \<notin> set es"
  shows "heap_adv b b'"
  using assms
proof (induction rule: runs.induct)
  case (runs_Cons b e c es d)
  then have "heap_adv b c" using broker_step_frame [OF runs_Cons.hyps(1)] by (auto simp: keeps_def)
  moreover have "heap_adv c d" using runs_Cons broker_step_inv by auto
  ultimately show ?case by (rule heap_adv_trans)
qed simp

text \<open>
  C7: generations never go back. As long as the node runs, the object of a binding keeps a
  generation that only grows, whatever snapshots, renewals and revocations arrive; once it is
  revoked or expired, only a snapshot with a greater generation makes it usable again.
\<close>

theorem generations_never_go_back:
  assumes "New_broker config prepared file = Inr b" "runs broker_step b es b1"
    and "reach b1 b2" "br_heap b1 r = Some st"
  shows "\<exists>st'. br_heap b2 r = Some st' \<and>
    BindingGeneration (bs_metadata st) \<le> BindingGeneration (bs_metadata st') \<and>
    (bs_terminal st \<and> \<not> bs_terminal st' \<longrightarrow>
       BindingGeneration (bs_metadata st) < BindingGeneration (bs_metadata st'))"
proof -
  have "heap_adv b1 b2"
    using assms(3) runs_heap_adv New_runs_inv [OF assms(1,2)] unfolding reach_def by blast
  then obtain st' where "br_heap b2 r = Some st'" "advances st st'" using assms(4) unfolding heap_adv_def by blast
  then show ?thesis unfolding advances_def by blast
qed

theorem generations_never_go_back_witness:
  "\<exists>st'. br_heap (RevokeBinding 3 ''b1'' 0 sample_issued) 0 = Some st' \<and> (1 :: u64) \<le> BindingGeneration (bs_metadata st')"
proof -
  have "br_heap sample_issued 0 = Some (fresh_state (sample_binding\<lparr>Generation := 1\<rparr>))"
    by (simp add: sample_issued_def sample_bound_def)
  from generations_never_go_back [OF sample_New sample_run reach_revoke this]
  show ?thesis by (auto simp: fresh_state_def)
qed

subsection \<open>Revocation\<close>

lemma closeRelay_fields [simp]:
  "br_cfg (closeRelay r reason b) = br_cfg b" "br_bindings (closeRelay r reason b) = br_bindings b"
  "br_sessions (closeRelay r reason b) = br_sessions b" "br_nonces (closeRelay r reason b) = br_nonces b"
  "br_permits (closeRelay r reason b) = br_permits b" "br_active (closeRelay r reason b) = br_active b"
  "br_detached (closeRelay r reason b) = br_detached b" "br_consumed (closeRelay r reason b) = br_consumed b"
  "br_closed (closeRelay r reason b) = br_closed b" "br_sequence (closeRelay r reason b) = br_sequence b"
  by (simp_all add: closeRelay_def Let_def split: option.split prod.split)

lemma closeRelay_state:
  "br_heap b r = Some st \<Longrightarrow> br_heap (closeRelay r reason b) r = Some (st\<lparr>bs_relay := None\<rparr>)"
  by (auto simp: closeRelay_def deref_def Let_def split: option.split prod.split)

lemma clear_detached:
  assumes "wf_map (br_active b)" "map_of (br_active b) q = Some a" "ar_bindingID a = bid"
  shows "request_object q (clearBindingMaterialsLocked now bid b) = Some (a\<lparr>ar_forwardDone := True\<rparr>)"
proof -
  let ?b = "clearBindingMaterialsLocked now bid b"
  have gone: "map_of (filter (\<lambda>(q, a). ar_bindingID a = bid) (br_active b)) q = Some a"
    using assms by (simp add: map_of_filter_wf)
  have "br_detached ?b = map (\<lambda>(q, a). (q, a\<lparr>ar_forwardDone := True\<rparr>))
      (filter (\<lambda>(q, a). ar_bindingID a = bid) (br_active b)) @ br_detached b"
    by (simp add: clearBindingMaterialsLocked_def Let_def split: option.split)
  moreover have "map_of (map (\<lambda>(q, a). (q, a\<lparr>ar_forwardDone := True\<rparr>)) m) q =
      map_option (\<lambda>a. a\<lparr>ar_forwardDone := True\<rparr>) (map_of m q)" for m :: "(u64 \<times> activeRequest) list"
    by (induction m) auto
  moreover have "map_of (br_active ?b) q = None" using assms by (simp add: map_of_filter_wf)
  ultimately show ?thesis by (simp add: request_object_def map_add_def gone)
qed

lemma request_object_cong:
  "br_active b' = br_active b \<Longrightarrow> br_detached b' = br_detached b \<Longrightarrow> request_object q b' = request_object q b"
  by (simp add: request_object_def split: option.split)

definition revoked_state :: "bindingState \<Rightarrow> bindingState" where
  "revoked_state st = st\<lparr>bs_metadata := (bs_metadata st)\<lparr>Status := ''revoked'', LeaseHealth := ''expired'',
      LeaseGraceUntil := None\<rparr>, bs_terminal := True, bs_terminalGeneration := BindingGeneration (bs_metadata st)\<rparr>"

lemma revoke_eq:
  assumes "map_of (br_bindings b) bid = Some r" "gen = 0 \<or> BindingGeneration (metadata_of b r) = gen"
  shows "RevokeBinding now bid gen b =
    closeRelay r ErrRevoked (clearBindingMaterialsLocked now bid (upd_state r revoked_state b))"
  using assms by (auto simp: RevokeBinding_def revoke_locked_def Let_def upd_metadata_def upd_state_comp comp_def
      revoked_state_def [abs_def])

text \<open>
  C6: revocation withdraws everything. After \<open>RevokeBinding\<close> of a registered binding, no
  permit and no request of the binding is left, everything of other bindings is untouched,
  whoever waits in \<open>CancelRequestAndWait\<close> for one of its requests is woken, the relay is
  detached, the relay epoch has moved on so that a connection opened before is not installed,
  and the forwarding check refuses the binding.
\<close>

theorem revoke_withdraws_everything:
  assumes "broker_inv b" "map_of (br_bindings b) bid = Some r" "br_heap b r = Some st"
    and "gen = 0 \<or> BindingGeneration (bs_metadata st) = gen"
    and "b' = RevokeBinding now bid gen b"
  shows "br_permits b' = filter (\<lambda>(q, p). p_BindingID p \<noteq> bid) (br_permits b) \<and>
    br_active b' = filter (\<lambda>(q, a). ar_bindingID a \<noteq> bid) (br_active b) \<and>
    (\<forall>q a. map_of (br_active b) q = Some a \<longrightarrow> ar_bindingID a = bid \<longrightarrow>
       cancel_wait q WaitForwardDone b' = Some (True, ar_serverTerminalObserved a, None)) \<and>
    bs_relay (deref b' r) = None \<and> relay_lookup r (bs_relayEpoch st) b' = Inl ErrRevoked \<and>
    snd (relay_install r (bs_relayEpoch st) b') = Inl ErrRevoked \<and> validateForwardBinding r gen' b' \<noteq> None"
proof -
  let ?c = "clearBindingMaterialsLocked now bid (upd_state r revoked_state b)"
  have b': "b' = closeRelay r ErrRevoked ?c"
    unfolding assms(5) using assms(3,4) by (intro revoke_eq [OF assms(2)]) (simp add: deref_def)
  have wf: "wf_map (br_active b)" using assms(1) by (simp add: broker_inv_def requests_inv_def)
  have "br_heap ?c r = Some ((revoked_state st)\<lparr>bs_relayEpoch := bs_relayEpoch st + 1\<rparr>)"
    using assms(2,3) by (simp add: revoked_state_def)
  then have state: "deref b' r = (revoked_state st)\<lparr>bs_relayEpoch := bs_relayEpoch st + 1, bs_relay := None\<rparr>"
    unfolding b' using closeRelay_state [of ?c r _ ErrRevoked] by (simp add: deref_def)
  have wake: "cancel_wait q WaitForwardDone b' = Some (True, ar_serverTerminalObserved a, None)"
    if "map_of (br_active b) q = Some a" "ar_bindingID a = bid" for q a
  proof -
    have "request_object q b' = Some (a\<lparr>ar_forwardDone := True\<rparr>)"
      using clear_detached [of "upd_state r revoked_state b" q a bid now] that wf
        request_object_cong [of b' ?c q] by (simp add: b')
    then show ?thesis by (simp add: cancel_wait_def)
  qed
  show ?thesis
    using wake by (simp add: state revoked_state_def relay_lookup_def relay_install_def validateForwardBinding_def Let_def)
      (simp add: b')
qed

lemma sample_state: "br_heap sample_issued 0 = Some (fresh_state (sample_binding\<lparr>Generation := 1\<rparr>))"
  "map_of (br_bindings sample_issued) ''b1'' = Some 0"
  by (simp_all add: sample_issued_def sample_bound_def)

lemma sample_issued_inv: "broker_inv sample_issued"
  by (rule New_runs_inv [OF sample_New sample_run])

theorem revoke_withdraws_everything_witness:
  "br_permits sample_issued \<noteq> [] \<and> br_permits (RevokeBinding 3 ''b1'' 1 sample_issued) = [] \<and>
   cancel_wait 1 WaitForwardDone (RevokeBinding 3 ''b1'' 1 sample_issued) = Some (True, False, None)"
  using revoke_withdraws_everything [OF sample_issued_inv sample_state(2,1) _ refl, of 1 3]
  by (simp add: fresh_state_def sample_issued_def sample_permit_def new_permit_def new_request_def)

subsection \<open>The order of requests on a relay\<close>

lemma earlier_unsent:
  assumes "wf_map (br_active b)"
  shows "list_ex (\<lambda>(x, a). ar_bindingID a = bid \<and> x < q \<and> \<not> ar_sent a) (br_active b) \<longleftrightarrow>
    (\<exists>x a. map_of (br_active b) x = Some a \<and> ar_bindingID a = bid \<and> x < q \<and> \<not> ar_sent a)"
  using wf_map_set [OF assms] by (fastforce simp: list_ex_iff)



lemma sample_consumed_inv: "broker_inv sample_consumed"
  by (rule New_runs_inv [OF sample_New sample_full_run])



subsection \<open>Issuing permits\<close>

lemma step_cfg:
  assumes "broker_step b e b'" "broker_inv b" "e \<noteq> EvRestart"
  shows "br_cfg b' = br_cfg b"
proof -
  consider res where "e = EvAdmit res" | "shrinks b b'" using broker_step_frame [OF assms] by blast
  then show ?thesis
  proof cases
    case (1 res)
    have root: "c_StateRoot (br_cfg b) \<noteq> []" using assms(2) by (simp add: broker_inv_def config_inv_def)
    from assms(1) show ?thesis unfolding 1
    proof (rule admit_stepE)
      fix request b0 tool r dts sc now env rndID rndKey
      assume "admit now env rndID rndKey (q_StartupNonce request) tool dts sc b = (b', res)"
      then show ?thesis using root by (cases rule: admit_cases) auto
    qed
  qed (simp add: shrinks_def)
qed

lemma reach_cfg:
  assumes "reach b b'" "broker_inv b"
  shows "br_cfg b' = br_cfg b"
proof -
  obtain es where "runs broker_step b es b'" "EvRestart \<notin> set es" using assms(1) by (auto simp: reach_def)
  then show ?thesis using assms(2)
  proof (induction rule: runs.induct)
    case (runs_Cons b e c es d)
    then show ?case using step_cfg [OF runs_Cons.hyps(1)] broker_step_inv [OF runs_Cons.hyps(1)] by auto
  qed simp
qed

lemma permit_expiry_bounds:
  assumes "permit_expiry now m = Inr t"
  shows "now < t" "t \<le> now + 20 * second"
    "LeaseUntil m = Some l \<Longrightarrow> parse_stamp l = Some until \<Longrightarrow> t \<le> until"
    "parse_stamp (AbsoluteTTLUntil m) = Some limit \<Longrightarrow> t \<le> limit"
  using assms by (auto simp: permit_expiry_def Let_def split: option.splits if_splits sum.splits)


lemma sample_bound_inv: "broker_inv sample_bound"
  by (rule New_runs_inv [OF sample_New
        runs_Cons [OF sample_step1 runs_Cons [OF sample_step_authorize
          runs_Cons [OF sample_step2 runs_Nil [where step = broker_step]]]]])

lemma sample_lease: "ensureLease (\<lambda>_. 0) response 0 sample_bound = (sample_bound, None)"
  by (simp add: ensureLease_def is_current_def deref_def sample_bound_def fresh_state_def)
    (simp add: sample_simps)

lemma sample_IssuePermit:
  "IssuePermit (\<lambda>_. 0) (Inl ErrUnavailable) (\<lambda>_. RenameOK) (Some (\<lambda>_. CHR 0x01)) (Some (\<lambda>_. CHR 0x02))
     sample_request sample_bound = (sample_issued, Inr sample_permit)"
  by (simp add: IssuePermit_def sample_permit_scope sample_lease) (simp add: sample_request_def sample_admit)


subsection \<open>Snapshots\<close>

lemma close_all_fields [simp]:
  "br_bindings (close_all rs reason b) = br_bindings b" "br_permits (close_all rs reason b) = br_permits b"
  "br_active (close_all rs reason b) = br_active b"
  by (induction rs arbitrary: b) (simp_all add: close_all_def)

lemma load_snapshot_keys:
  "load_snapshot nodeID nxt ms = Inr snap \<Longrightarrow> keys snap = keys nxt \<union> BindingID ` set ms"
proof (induction nodeID nxt ms rule: load_snapshot.induct)
  case (2 nodeID nxt m rest)
  have same: "BindingID m' = BindingID m" if "NormalizeBindingGeneration m = Inr m'" for m'
    using that by (auto simp: NormalizeBindingGeneration_def Let_def split: sum.splits if_splits)
  obtain m' where m': "NormalizeBindingGeneration m = Inr m'" "validateBinding nodeID m' = None"
    "BindingID m' \<notin> keys nxt" "load_snapshot nodeID (put (BindingID m') m' nxt) rest = Inr snap"
    using 2(2) by (auto split: sum.splits option.splits if_splits)
  have "keys snap = insert (BindingID m) (keys nxt) \<union> BindingID ` set rest"
    unfolding 2(1) [OF m'] keys_put same [OF m'(1)] ..
  then show ?case by simp
qed simp

text \<open>
  C8: a snapshot is applied as a whole or not at all. \<open>SetBindings\<close> that fails (a malformed
  binding, a duplicate, generations that disagree) leaves the broker as it was; one that
  succeeds leaves exactly the bindings of the snapshot registered, moves no binding to an older
  generation, and keeps only permits of bindings that are still registered with the permit's
  generation and usable.
\<close>

theorem snapshot_all_or_nothing:
  assumes "broker_inv b" "SetBindings now ms b = (b', res)"
  shows "(res \<noteq> None \<longrightarrow> b' = b) \<and>
    (res = None \<longrightarrow> keys (br_bindings b') = BindingID ` set ms \<and>
      (\<forall>bid st st'. view b bid = Some st \<longrightarrow> view b' bid = Some st' \<longrightarrow>
         BindingGeneration (bs_metadata st) \<le> BindingGeneration (bs_metadata st')) \<and>
      (\<forall>q p. map_of (br_permits b') q = Some p \<longrightarrow>
         (\<exists>st. view b' (p_BindingID p) = Some st \<and> BindingGeneration (bs_metadata st) = p_Generation p \<and>
            Status (bs_metadata st) = ''active'' \<and> LeaseHealth (bs_metadata st) = ''healthy'' \<and> \<not> bs_terminal st)))"
proof (cases "res = None")
  case False
  then show ?thesis using assms(2) by (auto simp: SetBindings_def split: if_splits sum.splits prod.splits)
next
  case True
  then obtain snap b1 toClose where load: "load_snapshot (c_NodeID (br_cfg b)) [] ms = Inr snap"
    and set: "set_bindings_locked now snap b = (b1, toClose)" and b': "b' = close_all toClose ErrRevoked b1"
    using assms(2) by (auto simp: SetBindings_def split: if_splits sum.splits prod.splits)
  note snap = snapshot_inv [OF load set assms(1)]
  have adv: "heap_adv b1 b'"
    using reach_close_all [of b1 toClose ErrRevoked] runs_heap_adv snap(1) unfolding reach_def b' by blast
  have inv: "broker_inv b'" by (rule reach_inv [OF _ snap(1)]) (simp add: b' reach_close_all)
  have gen: "BindingGeneration (bs_metadata st) \<le> BindingGeneration (bs_metadata st')"
    if v: "view b bid = Some st" "view b' bid = Some st'" for bid st st'
  proof -
    obtain r r' where r: "map_of (br_bindings b) bid = Some r" "br_heap b r = Some st"
      "map_of (br_bindings b1) bid = Some r'" "br_heap b' r' = Some st'"
      using v by (auto simp: view_def b' split: option.splits)
    have "heap_adv b b'" by (rule heap_adv_trans [OF snap(2) adv])
    then obtain st'' where "br_heap b' r = Some st''" "advances st st''" using r(2) unfolding heap_adv_def by blast
    then show ?thesis using r(4) snap(5) [OF r(1,3)] by (simp add: advances_def)
  qed
  have "requests_inv b'" using inv by (simp add: broker_inv_def)
  then have usable: "\<exists>st. view b' (p_BindingID p) = Some st \<and> BindingGeneration (bs_metadata st) = p_Generation p \<and>
      Status (bs_metadata st) = ''active'' \<and> LeaseHealth (bs_metadata st) = ''healthy'' \<and> \<not> bs_terminal st"
    if "map_of (br_permits b') q = Some p" for q p
    using permit_okD [OF _ that] unfolding permit_ok_def supports_def by blast
  have ids: "keys (br_bindings b') = BindingID ` set ms"
    using snap(4) load_snapshot_keys [OF load] by (simp add: b')
  show ?thesis
  proof (intro conjI impI allI)
    show "b' = b" if "res \<noteq> None" using that True by simp
  qed (rule ids, erule (1) gen, erule usable)
qed

theorem snapshot_all_or_nothing_witness:
  "keys (br_bindings (fst (SetBindings 0 [sample_binding] sample_issued))) = {''b1''}"
proof -
  obtain b' res where s: "SetBindings 0 [sample_binding] sample_issued = (b', res)" by fastforce
  have cfg: "c_NodeID (br_cfg sample_issued) = ''node-1''" "c_Enabled (br_cfg sample_issued)"
    by (simp_all add: sample_issued_def sample_simps)
  have "res = None"
    using s unfolding SetBindings_def cfg sample_load by (auto simp: cfg split: prod.splits)
  then show ?thesis using snapshot_all_or_nothing [OF sample_issued_inv s] by (simp add: s)
qed

subsection \<open>Replay, waiting and registration\<close>

lemma evict_oldest_short: "length m \<le> n \<Longrightarrow> evict_oldest n m = m"
  by (subst evict_oldest.simps) simp

lemma length_put_le: "length (put k v m) \<le> Suc (length m)"
  unfolding put_def by (induction m) auto

text \<open>
  a second use of a permit is reported as a replay. After a permit was consumed, any
  message with its sequence number within the next ten minutes is answered with
  \<open>ErrReplay\<close>, whatever else it claims, as long as the replay window had room.
\<close>

theorem second_use_is_replay:
  assumes "broker_inv b" "ConsumePermit now bid gen rid q n b = (b', Inr p)"
    and "length (br_consumed b) < maximumReplayEntries" "now' < now + replayWindow"
  shows "snd (ConsumePermit now' bid' gen' rid' q n' b') = Inl ErrReplay"
  using assms(2)
proof (cases rule: consume_cases)
  case (taken p')
  have len: "length (br_consumed (pruneConsumedLocked now b)) \<le> length (br_consumed b)"
    using evict_oldest_filter [of maximumReplayEntries] unfolding pruneConsumedLocked_def
    by simp (metis (no_types, lifting) dual_order.trans length_filter_le)
  have "length (br_consumed b') \<le> maximumReplayEntries"
    using len assms(3) length_put_le [of q now "br_consumed (pruneConsumedLocked now b)"] unfolding taken(11) by simp
  then have "br_consumed (pruneConsumedLocked now' b') =
      filter (\<lambda>(q, t). t + replayWindow > now') (br_consumed b')"
    unfolding pruneConsumedLocked_def
    by simp (rule evict_oldest_short, rule le_trans [OF length_filter_le])
  moreover have "(q, now) \<in> set (br_consumed b')"
    using map_of_SomeD [of "br_consumed b'" q now] by (simp add: taken(11))
  ultimately have "q \<in> keys (br_consumed (pruneConsumedLocked now' b'))" using assms(4) by force
  moreover have "map_of (br_permits (pruneConsumedLocked now' b')) q = None" by (simp add: taken(10))
  ultimately show ?thesis by (simp add: ConsumePermit_def Let_def)
qed auto

theorem second_use_is_replay_witness:
  "snd (ConsumePermit 5 ''b1'' 1 (b64_encode (map (\<lambda>_. CHR 0x01) [0..<18])) 1 100 sample_issued) = Inr sample_permit \<and>
   snd (ConsumePermit 7 ''b1'' 1 [] 1 0 sample_consumed) = Inl ErrReplay"
  using second_use_is_replay [OF sample_issued_inv sample_ConsumePermit, of 7]
  by (simp add: sample_ConsumePermit) (simp add: sample_issued_def sample_simps maximumReplayEntries_def replayWindow_def)



lemma register_loop_returns:
  assumes "rnd \<in> set draws" "\<And>t. randomToken 32 rnd = Inr t \<Longrightarrow> t \<notin> keys (br_nonces b)"
  shows "register_loop tool draws b \<noteq> None"
  using assms
proof (induction draws)
  case (Cons r draws)
  then show ?case by (cases "randomToken 32 r") auto
qed simp

text \<open>
  registration ends with a capability of its own. The loop of \<open>RegisterToolSession\<close>
  returns once the random source delivers a token that is not in use (or fails); the token it
  returns is acceptable as opaque text, was not a capability of any session before, leads back
  to the tool session, and all other sessions keep theirs.
\<close>

theorem registration_ends:
  assumes "broker_inv b" "rnd \<in> set draws" "\<And>t. randomToken 32 rnd = Inr t \<Longrightarrow> t \<notin> keys (br_nonces b)"
  shows "\<exists>b' res. RegisterToolSession tool draws b = Some (b', res) \<and>
    (\<forall>nonce. res = Inr (nonce, True) \<longrightarrow> validOpaqueText nonce 256 \<and> nonce \<notin> keys (br_nonces b) \<and>
       sessionForNonceLocked nonce b' = Inr tool \<and>
       (\<forall>t. t \<noteq> tool \<longrightarrow> map_of (br_sessions b') t = map_of (br_sessions b) t))"
proof -
  have loop: "validOpaqueText nonce 256 \<and> nonce \<notin> keys (br_nonces b) \<and> sessionForNonceLocked nonce b' = Inr tool \<and>
      (\<forall>t. t \<noteq> tool \<longrightarrow> map_of (br_sessions b') t = map_of (br_sessions b) t)"
    if "register_loop tool draws b = Some (b', Inr (nonce, True))" "tool \<noteq> []" for b' nonce
    using that
  proof (induction draws)
    case (Cons r draws)
    show ?case
    proof (cases "randomToken 32 r")
      case (Inr t)
      have "validOpaqueText t 256" by (rule randomToken_valid [OF Inr]) simp_all
      then show ?thesis
        using Cons Inr by (auto simp: sessionForNonceLocked_def validOpaqueText_def split: if_splits)
    qed (use Cons in auto)
  qed simp
  obtain x where x: "register_loop tool draws b = Some x" using register_loop_returns [OF assms(2,3)] by blast
  show ?thesis
    using loop [of "fst x"] x validOpaqueText_nonempty [of tool 128]
    by (cases x) (auto simp: RegisterToolSession_def Let_def split: sum.splits)
qed

theorem registration_ends_witness:
  "\<exists>b' res. RegisterToolSession ''t2'' [Some (\<lambda>_. CHR 0x01)] sample_broker = Some (b', res)"
  using registration_ends [OF New_broker_inv [OF sample_New], of "Some (\<lambda>_. CHR 0x01)" "[Some (\<lambda>_. CHR 0x01)]" "''t2''"]
  by (simp add: sample_broker_def new_broker_def) blast

end
