(* ===== verification/Forward.thy ===== *)
theory Forward
  imports Broker_Ops
begin

section \<open>Forwarding a request, and the wrapper's connection\<close>

text \<open>
  \<open>forward\<close> of \<open>broker.go\<close> runs beside every other goroutine of the broker: between two of its
  locked sections anything may happen. It is modelled as a machine with a program counter, one
  step per section, whose local variables are a record; what the environment decides at a step
  (the clock, random bytes, the answers of the control plane, the outcome of a write, which
  ready branch a \<open>select\<close> takes) is an argument. \<open>None\<close> is a step that has to wait.
  \<open>handleConnection\<close>, which issues the permit, consumes it and calls \<open>forward\<close>, is modelled
  on top. JSON encoding and the cipher are arguments of the definitions.
\<close>

subsection \<open>Cancellation frames\<close>

definition InnerProtocolVersion :: string where
  "InnerProtocolVersion = ''ego-browser-bridge-v1-inner''"

record innerCancelRequest =
  ic_Protocol :: string
  ic_RequestID :: string
  ic_Sequence :: u64
  ic_Type :: string

record cancel_primitives =
  marshalInner :: "innerCancelRequest \<Rightarrow> bytes"
  marshalAAD :: "outerEnvelope \<Rightarrow> bytes"
  marshalOuter :: "outerEnvelope \<Rightarrow> bytes"
  sealCancel :: "bytes \<Rightarrow> bytes \<Rightarrow> bytes \<Rightarrow> bytes \<Rightarrow> bytes"

definition cancelFrame :: "cancel_primitives \<Rightarrow> bytes option \<Rightarrow> outerEnvelope \<Rightarrow> bytes \<Rightarrow>
    ego_error + outerEnvelope \<times> bytes" where
  "cancelFrame prim nonceBytes request sessionKey =
     (let plaintext = marshalInner prim \<lparr>ic_Protocol = InnerProtocolVersion, ic_RequestID = oe_RequestID request,
            ic_Sequence = oe_Sequence request, ic_Type = ''cancel''\<rparr>;
          cancel = request\<lparr>oe_Type := ''cancel'', oe_Direction := ''request'',
            oe_PayloadBytes := int (length plaintext), oe_KeyWrap := []\<rparr> in
      case nonceBytes of None \<Rightarrow> Inl (ErrProtocol ''cancel nonce'')
      | Some nonce \<Rightarrow>
          (let cancel = cancel\<lparr>oe_Nonce := b64_encode nonce\<rparr>;
               sealed = sealCancel prim sessionKey nonce plaintext (marshalAAD prim cancel) in
           if length sessionKey \<noteq> 32 then Inl (ErrProtocol ''cancel cipher'')
           else if length sealed \<noteq> length plaintext + 16 then Inl (ErrProtocol ''cancel ciphertext'')
           else (let cancel = cancel\<lparr>oe_Ciphertext := b64_encode (take (length plaintext) sealed),
                       oe_AuthTag := b64_encode (drop (length plaintext) sealed)\<rparr>;
                     frame = marshalOuter prim cancel in
                 case validateCancelOuter cancel (int (length frame)) of
                   Some e \<Rightarrow> Inl e | None \<Rightarrow> Inr (cancel, frame))))"

subsection \<open>The forwarder\<close>

datatype fwd_pc = AtLookup | AtSnapshot | AtPrepare | AtCancellation | AtEpoch | AtTurn | AtValidate
  | AtRelay | AtRegister | AtSend | AtMark | AtSelect | AtReturn | Returned

record fwd =
  fw_pc :: fwd_pc
  fw_bindingID :: string
  fw_frame :: bytes
  fw_decoded :: "outerEnvelope option"
  fw_permit :: Permit
  fw_state :: nat
  fw_request :: outerEnvelope
  fw_metadata :: ego_binding
  fw_cancellation :: bool
  fw_epoch :: u64
  fw_tracked :: bool
  fw_session :: nat
  fw_result :: nat
  fw_cancelSent :: bool
  fw_return :: "ego_error + bytes"

datatype select_choice = SelResult | SelCancel | SelContext ego_error | SelClosed

record fwd_input =
  in_now :: gotime
  in_wrap :: wrap_primitives
  in_keyPair :: "(bytes \<times> bytes) option"
  in_nonce :: "bytes option"
  in_cancel :: cancel_primitives
  in_ticket :: "ego_error + EgoBrowserRelayTicket"
  in_openErr :: "ego_error option"
  in_sendErr :: "ego_error option"
  in_choice :: select_choice

definition fwd_fail :: "ego_error \<Rightarrow> fwd \<Rightarrow> fwd" where
  "fwd_fail e f = f\<lparr>fw_pc := AtReturn, fw_return := Inl e\<rparr>"

definition fwd_answer :: "relayResult \<Rightarrow> fwd \<Rightarrow> fwd" where
  "fwd_answer res f =
     f\<lparr>fw_pc := AtReturn, fw_return := (case res of RelayFrame frame \<Rightarrow> Inr frame | RelayErr e \<Rightarrow> Inl e)\<rparr>"

text \<open>What is waiting on the result channel; \<open>binaryRelayMessage.Send\<close> is the argument of \<open>send\<close>.\<close>

definition result_of :: "fwd \<Rightarrow> broker \<Rightarrow> relayResult option" where
  "result_of f b =
     (case find (\<lambda>(q, ch, res). q = fw_session f \<and> ch = fw_result f) (br_results b) of
        None \<Rightarrow> None | Some (q, ch, res) \<Rightarrow> Some res)"

definition send_relay :: "nat \<Rightarrow> ego_error option \<Rightarrow> broker \<Rightarrow> ego_error option" where
  "send_relay q sendErr b =
     (case br_relays b q of None \<Rightarrow> Some ErrUnavailable
      | Some session \<Rightarrow> if rs_closed session then Some ErrUnavailable else sendErr)"

definition sendCancelFrame :: "fwd_input \<Rightarrow> fwd \<Rightarrow> broker \<Rightarrow> ego_error option" where
  "sendCancelFrame inp f b =
     (case cancelFrame (in_cancel inp) (in_nonce inp) (fw_request f) (p_SessionKey (fw_permit f)) of
        Inl e \<Rightarrow> Some e
      | Inr (cancel, frame) \<Rightarrow> send_relay (fw_session f) (in_sendErr inp) b)"

definition abandon_relay :: "fwd \<Rightarrow> broker \<Rightarrow> broker" where
  "abandon_relay f b =
     (case br_relays b (fw_session f) of None \<Rightarrow> b
      | Some session \<Rightarrow>
          (case abandon session (relayKey (fw_request f)) (fw_result f) of
             (session', None) \<Rightarrow> relay_update (fw_session f) session' [] b
           | (session', Some e) \<Rightarrow>
               failRelay (fw_state f) (fw_session f) e (relay_update (fw_session f) session' [] b)))"

text \<open>One iteration of the loop around the final \<open>select\<close>.\<close>

definition select_step :: "fwd_input \<Rightarrow> fwd \<Rightarrow> broker \<Rightarrow> (broker \<times> fwd) option" where
  "select_step inp f b =
     (case in_choice inp of
        SelResult \<Rightarrow> map_option (\<lambda>res. (b, fwd_answer res f)) (result_of f b)
      | SelCancel \<Rightarrow>
          if \<not> fw_cancellation f
             \<or> \<not> (case request_object (oe_Sequence (fw_request f)) b of None \<Rightarrow> False | Some a \<Rightarrow> ar_cancel a) then None
          else (case result_of f b of Some res \<Rightarrow> Some (b, fwd_answer res f)
                | None \<Rightarrow>
                    if fw_cancelSent f then Some (b, f\<lparr>fw_cancellation := False\<rparr>)
                    else (case sendCancelFrame inp f b of
                            Some e \<Rightarrow> Some (failRelay (fw_state f) (fw_session f) e b, fwd_fail e f)
                          | None \<Rightarrow> Some (b, f\<lparr>fw_cancelSent := True, fw_cancellation := False\<rparr>)))
      | SelContext e \<Rightarrow>
          (case result_of f b of Some res \<Rightarrow> Some (b, fwd_answer res f)
           | None \<Rightarrow>
               (let b = (if fw_cancelSent f then b
                         else (case sendCancelFrame inp f b of None \<Rightarrow> b
                               | Some err \<Rightarrow> failRelay (fw_state f) (fw_session f) err b))
                in Some (abandon_relay f b, fwd_fail e f)))
      | SelClosed \<Rightarrow> if br_closed b then Some (abandon_relay f b, fwd_fail ErrUnavailable f) else None)"

text \<open>\<open>AtPrepare\<close>: the status of the snapshot, the key wrap and the checks on the wrapped envelope.\<close>

definition prepare_step :: "fwd_input \<Rightarrow> fwd \<Rightarrow> fwd" where
  "prepare_step inp f =
     (let m = fw_metadata f; request = fw_request f in
      if Status m \<noteq> ''active'' \<or> LeaseHealth m \<noteq> ''healthy'' then
        fwd_fail (if Status m = ''expired'' \<or> LeaseHealth m = ''expired'' then ErrLeaseExpired else ErrRevoked) f
      else (case wrapSessionKey (in_wrap inp) (in_keyPair inp) (in_nonce inp) (p_SessionKey (fw_permit f))
                   (EncryptionPublicKey m) (oe_BindingID request) (oe_Generation request)
                   (oe_RequestID request) (oe_Sequence request) of
              Inl e \<Rightarrow> fwd_fail e f
            | Inr wrapped \<Rightarrow>
                (let request = request\<lparr>oe_KeyWrap := wrapped\<rparr>;
                     frame = marshalOuter (in_cancel inp) request in
                 case validateWrappedOuter request (int (length frame)) of
                   Some e \<Rightarrow> fwd_fail e f
                 | None \<Rightarrow> f\<lparr>fw_pc := AtCancellation, fw_request := request, fw_frame := frame\<rparr>)))"

text \<open>\<open>AtRegister\<close>: \<open>session.register\<close> on the relay session.\<close>

definition register_step :: "fwd \<Rightarrow> broker \<Rightarrow> broker \<times> fwd" where
  "register_step f b =
     (case br_relays b (fw_session f) of None \<Rightarrow> (b, fwd_fail ErrUnavailable f)
      | Some session \<Rightarrow>
          (case register_relay session (fw_request f) of
             (session', Inl e) \<Rightarrow> (relay_update (fw_session f) session' [] b, fwd_fail e f)
           | (session', Inr ch) \<Rightarrow>
               (relay_update (fw_session f) session' [] b, f\<lparr>fw_pc := AtSend, fw_result := ch\<rparr>)))"

definition forward_step :: "fwd_input \<Rightarrow> fwd \<Rightarrow> broker \<Rightarrow> (broker \<times> fwd) option" where
  "forward_step inp f b =
     (case fw_pc f of
        AtLookup \<Rightarrow>
          (case binding (fw_bindingID f) b of None \<Rightarrow> Some (b, fwd_fail ErrUnavailable f)
           | Some r \<Rightarrow>
               (case fw_decoded f of None \<Rightarrow> Some (b, fwd_fail (ErrProtocol ''request envelope'') f)
                | Some request \<Rightarrow>
                    (case validateOuter request (int (length (fw_frame f))) of
                       Some e \<Rightarrow> Some (b, fwd_fail e f)
                     | None \<Rightarrow> Some (b, f\<lparr>fw_pc := AtSnapshot, fw_state := r, fw_request := request\<rparr>))))
      | AtSnapshot \<Rightarrow>
          if map_of (br_bindings b) (fw_bindingID f) \<noteq> Some (fw_state f) then Some (b, fwd_fail ErrRevoked f)
          else Some (b, f\<lparr>fw_pc := AtPrepare, fw_metadata := metadata_of b (fw_state f)\<rparr>)
      | AtPrepare \<Rightarrow> Some (b, prepare_step inp f)
      | AtCancellation \<Rightarrow>
          (case requestCancellation (fw_request f) b of Inl e \<Rightarrow> Some (b, fwd_fail e f)
           | Inr c \<Rightarrow> Some (b, f\<lparr>fw_pc := AtEpoch, fw_cancellation := c\<rparr>))
      | AtEpoch \<Rightarrow>
          Some (b, f\<lparr>fw_pc := AtTurn, fw_epoch := bs_relayEpoch (deref b (fw_state f)), fw_tracked := False\<rparr>)
      | AtTurn \<Rightarrow>
          (case send_turn (in_now inp) (fw_bindingID f) (oe_Sequence (fw_request f)) (fw_tracked f) b of
             (b', TurnGo) \<Rightarrow> Some (b', f\<lparr>fw_pc := AtValidate\<rparr>)
           | (b', TurnError e) \<Rightarrow> Some (b', fwd_fail e f)
           | (b', TurnBlocked) \<Rightarrow>
               (case in_choice inp of
                  SelContext e \<Rightarrow> Some (b', fwd_fail e f)
                | SelClosed \<Rightarrow> if br_closed b' then Some (b', fwd_fail ErrUnavailable f) else None
                | _ \<Rightarrow> Some (b', f\<lparr>fw_tracked := True\<rparr>)))
      | AtValidate \<Rightarrow>
          (case validateForwardBinding (fw_state f) (BindingGeneration (fw_metadata f)) b of
             Some e \<Rightarrow> Some (b, fwd_fail e f) | None \<Rightarrow> Some (b, f\<lparr>fw_pc := AtRelay\<rparr>))
      | AtRelay \<Rightarrow>
          (case ensureRelaySession (in_now inp) (in_ticket inp) (in_openErr inp) (fw_state f)
                  (BindingGeneration (fw_metadata f)) (fw_epoch f) b of
             (b', Inl e) \<Rightarrow> Some (b', fwd_fail e f)
           | (b', Inr q) \<Rightarrow> Some (b', f\<lparr>fw_pc := AtRegister, fw_session := q\<rparr>))
      | AtRegister \<Rightarrow> Some (register_step f b)
      | AtSend \<Rightarrow>
          (case send_relay (fw_session f) (in_sendErr inp) b of
             Some e \<Rightarrow> Some (failRelay (fw_state f) (fw_session f) e b, fwd_fail e f)
           | None \<Rightarrow> Some (b, f\<lparr>fw_pc := AtMark\<rparr>))
      | AtMark \<Rightarrow>
          (case markRequestSent (fw_bindingID f) (oe_Sequence (fw_request f)) b of
             (b', Some e) \<Rightarrow> Some (failRelay (fw_state f) (fw_session f) e b', fwd_fail e f)
           | (b', None) \<Rightarrow> Some (b', f\<lparr>fw_pc := AtSelect, fw_cancelSent := False\<rparr>))
      | AtSelect \<Rightarrow> select_step inp f b
      | AtReturn \<Rightarrow>
          Some (finishRequestForward (p_Sequence (fw_permit f)) (is_ok (fw_return f)) b, f\<lparr>fw_pc := Returned\<rparr>)
      | Returned \<Rightarrow> None)"

definition zero_outer :: outerEnvelope where
  "zero_outer = \<lparr>oe_Protocol = [], oe_Channel = [], oe_RelayBindingKind = [], oe_Type = [], oe_RequestID = [],
     oe_BindingID = [], oe_Generation = 0, oe_Sequence = 0, oe_Direction = [], oe_PayloadBytes = 0, oe_Nonce = [],
     oe_Ciphertext = [], oe_AuthTag = [], oe_KeyWrap = []\<rparr>"

definition zero_metadata :: ego_binding where
  "zero_metadata = \<lparr>BindingID = [], EgoBrowserDeviceID = [], EncryptionPublicKey = [], ToolSessionID = [], NodeID = [],
     Status = [], ControlChannel = [], RelayBindingKind = [], AuthorizationMode = [], AuthorizationPolicyVersion = 0,
     BindingGeneration = 0, Generation = 0, ReleaseProfile = [], SignerCertificateSHA256 = [],
     CredentialProfile = [], RemotePlatform = [], LocalPlatform = [], BridgeProtocolVersion = [],
     LocalRuntimeVersion = None, EgoLiteRuntimeVersion = None, SkillVersion = None, TaskSpaceLabel = None,
     AllowlistRevision = 0, AllowlistRootsDigest = None, LearningBundleDigest = None, ConcurrencyMode = [],
     MaxParallelRequests = 0, Capabilities = [], LeaseUntil = None, LeaseHealth = [], LeaseGraceUntil = None,
     LeaseRenewIntervalSeconds = 0, LeaseRenewFailureGraceSeconds = 0, AbsoluteTTLUntil = NoStamp\<rparr>"

text \<open>
  \<open>forward\<close> is called with a frame, what \<open>decodeStrictJSON\<close> makes of it and the permit
  \<open>ConsumePermit\<close> returned; the other variables are set before they are read.
\<close>

definition forward_start :: "string \<Rightarrow> bytes \<Rightarrow> outerEnvelope option \<Rightarrow> Permit \<Rightarrow> fwd" where
  "forward_start bindingID frame decoded permit =
     \<lparr>fw_pc = AtLookup, fw_bindingID = bindingID, fw_frame = frame, fw_decoded = decoded, fw_permit = permit,
      fw_state = 0, fw_request = zero_outer, fw_metadata = zero_metadata, fw_cancellation = False, fw_epoch = 0, fw_tracked = False,
      fw_session = 0, fw_result = 0, fw_cancelSent = False, fw_return = Inl ErrUnavailable\<rparr>"

text \<open>A forwarder beside the other goroutines of the broker.\<close>

inductive forward_run :: "broker \<times> fwd \<Rightarrow> broker \<times> fwd \<Rightarrow> bool" where
  stay: "forward_run s s"
| own: "forward_run s (b, f) \<Longrightarrow> forward_step inp f b = Some (b', f') \<Longrightarrow> forward_run s (b', f')"
| other: "forward_run s (b, f) \<Longrightarrow> reach b b' \<Longrightarrow> forward_run s (b', f)"

subsection \<open>The forwarder's steps are steps of the broker\<close>

lemma reach_relay_update:
  assumes "br_relays b q = Some session" "relay_step session e session'" "relay_sends e = []"
  shows "reach b (relay_update q session' [] b)"
  by (rule reach_step [OF broker_step.relay [OF assms(1,2)]]) (simp_all add: assms(3))

lemma reach_failRelay: "reach b (failRelay r q reason b)"
  by (rule reach_step [OF broker_step.fail_relay [OF refl]]) simp

lemma reach_abandon: "reach b (abandon_relay f b)"
proof (cases "br_relays b (fw_session f)")
  case (Some session)
  obtain session' e where a: "abandon session (relayKey (fw_request f)) (fw_result f) = (session', e)" by fastforce
  have "reach b (relay_update (fw_session f) session' [] b)"
    by (rule reach_relay_update [OF Some relay_step.intros(2) [OF a]]) simp
  then show ?thesis by (auto simp: abandon_relay_def Some a split: option.split intro: reach_trans reach_failRelay)
qed (simp add: abandon_relay_def)

lemma reach_register: "reach b (fst (register_step f b))"
proof (cases "br_relays b (fw_session f)")
  case (Some session)
  obtain session' res where a: "register_relay session (fw_request f) = (session', res)" by fastforce
  have "reach b (relay_update (fw_session f) session' [] b)"
    by (rule reach_relay_update [OF Some relay_step.intros(1) [OF a]]) simp
  then show ?thesis by (auto simp: register_step_def Some a split: sum.split)
qed (simp add: register_step_def)

lemma reach_select:
  assumes "select_step inp f b = Some (b', f')"
  shows "reach b b'"
proof -
  have ctx: "reach b (abandon_relay f c)" if "reach b c" for c by (rule reach_trans [OF that reach_abandon])
  show ?thesis
    using assms reach_failRelay [of b] ctx
    by (auto simp: select_step_def Let_def split: select_choice.splits option.splits if_splits)
qed

lemma forward_step_reach:
  assumes "forward_step inp f b = Some (b', f')"
  shows "reach b b'"
proof (cases "fw_pc f")
  case AtTurn
  obtain b1 t where s: "send_turn (in_now inp) (fw_bindingID f) (oe_Sequence (fw_request f)) (fw_tracked f) b = (b1, t)"
    by fastforce
  have "reach b b1" by (rule reach_step [OF broker_step.turn [OF s]]) simp
  then show ?thesis using assms AtTurn
    by (auto simp: forward_step_def s split: turn.splits select_choice.splits if_splits)
next
  case AtRelay
  let ?e = "ensureRelaySession (in_now inp) (in_ticket inp) (in_openErr inp) (fw_state f)
     (BindingGeneration (fw_metadata f)) (fw_epoch f) b"
  have "reach b (fst ?e)" by (rule reach_relay_session)
  then show ?thesis using assms AtRelay by (auto simp: forward_step_def split: prod.splits sum.splits)
next
  case AtRegister
  then show ?thesis using assms reach_register [of b f] by (simp add: forward_step_def)
next
  case AtMark
  obtain b1 e where s: "markRequestSent (fw_bindingID f) (oe_Sequence (fw_request f)) b = (b1, e)" by fastforce
  have "reach b b1" by (rule reach_step [OF broker_step.sent [OF s]]) simp
  then show ?thesis using assms AtMark reach_trans [OF _ reach_failRelay]
    by (auto simp: forward_step_def s split: option.splits)
next
  case AtReturn
  have "reach b (finishRequestForward (p_Sequence (fw_permit f)) (is_ok (fw_return f)) b)"
    by (rule reach_step [OF broker_step.finish [OF refl]]) simp
  then show ?thesis using assms AtReturn by (simp add: forward_step_def)
next
  case AtSelect
  then show ?thesis using assms reach_select by (simp add: forward_step_def)
next
  case AtSend
  then show ?thesis using assms reach_failRelay by (auto simp: forward_step_def split: option.splits)
qed (use assms in \<open>auto simp: forward_step_def split: option.splits if_splits sum.splits\<close>)

lemma forward_run_reach: "forward_run s t \<Longrightarrow> reach (fst s) (fst t)"
  by (induction rule: forward_run.induct) (auto intro: reach_trans dest: forward_step_reach)

subsection \<open>What is sent\<close>

fun fwd_rank :: "fwd_pc \<Rightarrow> nat" where
  "fwd_rank AtLookup = 13" | "fwd_rank AtSnapshot = 12" | "fwd_rank AtPrepare = 11" | "fwd_rank AtCancellation = 10"
| "fwd_rank AtEpoch = 9" | "fwd_rank AtTurn = 8" | "fwd_rank AtValidate = 7" | "fwd_rank AtRelay = 6"
| "fwd_rank AtRegister = 5" | "fwd_rank AtSend = 4" | "fwd_rank AtMark = 3" | "fwd_rank AtSelect = 2"
| "fwd_rank AtReturn = 1" | "fwd_rank Returned = 0"

definition prepared :: "fwd \<Rightarrow> bool" where
  "prepared f \<longleftrightarrow>
     (\<exists>request. fw_decoded f = Some request \<and> relayKey (fw_request f) = relayKey request) \<and>
     validateWrappedOuter (fw_request f) (int (length (fw_frame f))) = None \<and>
     Status (fw_metadata f) = ''active'' \<and> LeaseHealth (fw_metadata f) = ''healthy''"

abbreviation past_prepare :: "fwd_pc \<Rightarrow> bool" where
  "past_prepare pc \<equiv> 2 \<le> fwd_rank pc \<and> fwd_rank pc \<le> 10"

definition fwd_inv :: "fwd \<Rightarrow> bool" where
  "fwd_inv f \<longleftrightarrow>
     (fw_pc f = AtSnapshot \<or> fw_pc f = AtPrepare \<longrightarrow> fw_decoded f = Some (fw_request f)) \<and>
     (past_prepare (fw_pc f) \<longrightarrow> prepared f)"

lemma fwd_rank_return [simp]: "fw_pc (fwd_fail e f) = AtReturn" "fw_pc (fwd_answer res f) = AtReturn"
  by (simp_all add: fwd_fail_def fwd_answer_def)

lemma fwd_inv_return [simp]:
  "fwd_inv (fwd_fail e f)" "fwd_inv (fwd_answer res f)" "fwd_inv (f\<lparr>fw_pc := Returned\<rparr>)"
  by (simp_all add: fwd_inv_def fwd_fail_def fwd_answer_def)

lemma fwd_fixed [simp]:
  "fw_decoded (fwd_fail e f) = fw_decoded f" "fw_decoded (fwd_answer res f) = fw_decoded f"
  "fw_bindingID (fwd_fail e f) = fw_bindingID f" "fw_bindingID (fwd_answer res f) = fw_bindingID f"
  "fw_permit (fwd_fail e f) = fw_permit f" "fw_permit (fwd_answer res f) = fw_permit f"
  by (simp_all add: fwd_fail_def fwd_answer_def)

lemma fwd_inv_next:
  assumes "fwd_inv f" "past_prepare (fw_pc f)"
    and "fw_request f' = fw_request f" "fw_decoded f' = fw_decoded f" "fw_metadata f' = fw_metadata f"
      "fw_frame f' = fw_frame f" "fw_pc f' \<noteq> AtSnapshot" "fw_pc f' \<noteq> AtPrepare"
  shows "fwd_inv f'"
  using assms unfolding fwd_inv_def prepared_def by simp

lemma prepare_inv: "fwd_inv f \<Longrightarrow> fw_pc f = AtPrepare \<Longrightarrow> fwd_inv (prepare_step inp f)"
  by (auto simp: prepare_step_def Let_def fwd_inv_def [of f] split: sum.split option.split)
    (simp add: fwd_inv_def prepared_def relayKey_def)

lemma select_inv:
  assumes "select_step inp f b = Some (b', f')" "fwd_inv f" "fw_pc f = AtSelect"
  shows "fwd_inv f'"
proof -
  have "fwd_inv (f\<lparr>fw_cancellation := False\<rparr>)" "fwd_inv (f\<lparr>fw_cancelSent := True, fw_cancellation := False\<rparr>)"
    using assms(2,3) by (simp_all add: fwd_inv_def prepared_def)
  then show ?thesis
    using assms(1) by (auto simp: select_step_def Let_def split: select_choice.splits option.splits if_splits)
qed

lemma forward_step_inv:
  assumes "forward_step inp f b = Some (b', f')" "fwd_inv f"
  shows "fwd_inv f'"
proof (cases "fw_pc f")
  case AtPrepare
  then show ?thesis using assms prepare_inv [OF assms(2)] by (auto simp: forward_step_def)
next
  case AtSelect
  then show ?thesis using assms select_inv [OF _ assms(2)] by (simp add: forward_step_def)
next
  case AtLookup
  then show ?thesis using assms by (auto simp: forward_step_def fwd_inv_def fwd_fail_def split: option.splits)
next
  case AtSnapshot
  then show ?thesis using assms by (auto simp: forward_step_def fwd_inv_def fwd_fail_def split: if_splits)
next
  case AtRegister
  then show ?thesis using assms fwd_inv_next [OF assms(2)]
    by (auto simp: forward_step_def register_step_def split: option.splits prod.splits sum.splits)
qed (use assms fwd_inv_next [OF assms(2)] in \<open>auto simp: forward_step_def
      split: option.splits if_splits sum.splits prod.splits turn.splits select_choice.splits\<close>)

lemma forward_step_fixed:
  assumes "forward_step inp f b = Some (b', f')"
  shows "fw_decoded f' = fw_decoded f" "fw_bindingID f' = fw_bindingID f" "fw_permit f' = fw_permit f"
  using assms
  by (auto simp: forward_step_def prepare_step_def register_step_def select_step_def Let_def
      split: fwd_pc.splits option.splits if_splits sum.splits prod.splits turn.splits select_choice.splits)

lemma forward_run_inv:
  "forward_run s t \<Longrightarrow> fwd_inv (snd s) \<Longrightarrow>
     fwd_inv (snd t) \<and> fw_decoded (snd t) = fw_decoded (snd s) \<and> fw_permit (snd t) = fw_permit (snd s)"
  by (induction rule: forward_run.induct) (auto dest: forward_step_inv forward_step_fixed)


definition sample_input :: "select_choice \<Rightarrow> fwd_input" where
  "sample_input choice =
     \<lparr>in_now = 6, in_wrap = sample_primitives, in_keyPair = Some (replicate 32 (CHR 0x05), replicate 32 (CHR 0x06)),
      in_nonce = Some (replicate 12 (CHR 0x07)),
      in_cancel = \<lparr>marshalInner = (\<lambda>_. ''cancel''), marshalAAD = (\<lambda>_. ''aad''), marshalOuter = (\<lambda>_. ''frame''),
        sealCancel = (\<lambda>k n m a. m @ replicate 16 (CHR 0x00))\<rparr>,
      in_ticket = Inr \<lparr>tk_Role = ''wrapper'', tk_RelayBindingKind = ''ego_browser'', tk_RelayPath = ''/relay'',
        tk_RelayTicket = ''ticket'', tk_BindingGeneration = 1, tk_ExpiresAt = Stamp (50 * second)\<rparr>,
      in_openErr = None, in_sendErr = None, in_choice = choice\<rparr>"

definition sample_meta :: ego_binding where
  "sample_meta = sample_binding\<lparr>Generation := 1\<rparr>"

lemma sample_bound_state: "deref sample_bound 0 = fresh_state sample_meta"
  "br_bindings sample_bound = [(''b1'', 0)]" "br_active sample_bound = []" "br_relays sample_bound = (\<lambda>_. None)"
  "br_closed sample_bound = False" "c_ControlPlaneConfigured (br_cfg sample_bound)" "br_nextRelay sample_bound = 0"
  by (simp_all add: sample_simps sample_meta_def deref_def)

lemma sample_meta_sel:
  "BindingID sample_meta = ''b1''" "Status sample_meta = ''active''" "LeaseHealth sample_meta = ''healthy''"
  "BindingGeneration sample_meta = 1" "EncryptionPublicKey sample_meta = b64_encode (replicate 32 (CHR 0x09))"
  by (simp_all add: sample_meta_def sample_binding_def)

lemma sample_wrap:
  obtains wrapped where "wrapSessionKey sample_primitives (Some (replicate 32 (CHR 0x05), replicate 32 (CHR 0x06)))
      (Some (replicate 12 (CHR 0x07))) (replicate 32 (CHR 0x02)) (b64_encode (replicate 32 (CHR 0x09)))
      ''b1'' 1 ''r1'' 7 = Inr wrapped"
    "validateWrappedOuter (sample_outer\<lparr>oe_KeyWrap := wrapped\<rparr>) 5 = None"
proof -
  let ?sk = "replicate 32 (CHR 0x05)" and ?pk = "replicate 32 (CHR 0x06)" and ?nonce = "replicate 12 (CHR 0x07)"
    and ?rcp = "b64_encode (replicate 32 (CHR 0x09))" and ?key = "replicate 32 (CHR 0x02)"
  have ne: "?rcp \<noteq> []" by (rule b64_encode_nonempty) simp
  obtain wrapped where w: "wrapSessionKey sample_primitives (Some (?sk, ?pk)) (Some ?nonce) ?key ?rcp
      ''b1'' 1 ''r1'' 7 = Inr wrapped"
    using ne by (simp add: wrapSessionKey_def sample_primitives_def b64_decode_encode Let_def)
  have "validateWrappedOuter (sample_outer\<lparr>oe_KeyWrap := wrapped\<rparr>) 5 = None"
    by (rule validateWrappedOuter_wrapped [OF sample_outer_valid wrapSessionKey_ok [OF w]]) simp_all
  then show thesis by (rule that [OF w])
qed

lemma forward_run_own:
  "forward_step inp f b = Some (b', f') \<Longrightarrow> forward_run (b', f') t \<Longrightarrow> forward_run (b, f) t"
proof -
  assume step: "forward_step inp f b = Some (b', f')"
  have "forward_run s t \<Longrightarrow> s = (b', f') \<Longrightarrow> forward_run (b, f) t" for s t
    by (induction rule: forward_run.induct) (use step in \<open>auto intro: forward_run.intros\<close>)
  then show "forward_run (b', f') t \<Longrightarrow> forward_run (b, f) t" by blast
qed

lemma sample_forward:
  obtains b f where "forward_run (sample_bound, forward_start ''b1'' (replicate 500 (CHR 0x00)) (Some sample_outer)
      sample_permit) (b, f)" "fw_pc f = AtMark" "relayKey (fw_request f) = relayKey sample_outer"
proof -
  let ?inp = "sample_input SelResult" and ?s = "sample_bound"
  obtain wrapped where w: "wrapSessionKey sample_primitives (Some (replicate 32 (CHR 0x05), replicate 32 (CHR 0x06)))
      (Some (replicate 12 (CHR 0x07))) (replicate 32 (CHR 0x02)) (b64_encode (replicate 32 (CHR 0x09)))
      ''b1'' 1 ''r1'' 7 = Inr wrapped"
    "validateWrappedOuter (sample_outer\<lparr>oe_KeyWrap := wrapped\<rparr>) 5 = None" by (rule sample_wrap)
  define r where "r = sample_outer\<lparr>oe_KeyWrap := wrapped\<rparr>"
  define f0 where "f0 = forward_start ''b1'' (replicate 500 (CHR 0x00)) (Some sample_outer) sample_permit"
  define f1 where "f1 = f0\<lparr>fw_pc := AtSnapshot, fw_state := 0, fw_request := sample_outer\<rparr>"
  define f2 where "f2 = f1\<lparr>fw_pc := AtPrepare, fw_metadata := sample_meta\<rparr>"
  define f3 where "f3 = f2\<lparr>fw_pc := AtCancellation, fw_request := r, fw_frame := ''frame''\<rparr>"
  define f4 where "f4 = f3\<lparr>fw_pc := AtTurn, fw_epoch := 0\<rparr>"
  define f5 where "f5 = f4\<lparr>fw_pc := AtRelay\<rparr>"
  define f6 where "f6 = f5\<lparr>fw_pc := AtRegister\<rparr>"
  define f7 where "f7 = f6\<lparr>fw_pc := AtSend\<rparr>"
  have key: "p_SessionKey sample_permit = replicate 32 (CHR 0x02)"
    by (simp add: sample_permit_def new_permit_def map_replicate_const)
  have outer: "oe_BindingID sample_outer = ''b1''" "oe_Generation sample_outer = 1" "oe_RequestID sample_outer = ''r1''"
    "oe_Sequence sample_outer = 7" by (simp_all add: sample_outer_def)
  have s1: "forward_step ?inp f0 ?s = Some (?s, f1)"
    by (simp add: forward_step_def f0_def f1_def forward_start_def binding_def sample_bound_state sample_outer_valid
        sample_meta_sel fresh_state_def)
  have s2: "forward_step ?inp f1 ?s = Some (?s, f2)"
    by (simp add: forward_step_def f0_def f1_def f2_def forward_start_def sample_bound_state fresh_state_def)
  have s3: "forward_step ?inp f2 ?s = Some (?s, f3)"
    using w by (simp add: forward_step_def prepare_step_def f0_def f1_def f2_def f3_def forward_start_def Let_def
        sample_meta_sel key outer sample_input_def r_def)
  note fs = f0_def f1_def f2_def f3_def f4_def f5_def f6_def f7_def forward_start_def
  have s4: "forward_step ?inp f3 ?s = Some (?s, f3\<lparr>fw_pc := AtEpoch\<rparr>)"
    by (simp add: forward_step_def requestCancellation_def sample_bound_state fs)
  have s5: "forward_step ?inp (f3\<lparr>fw_pc := AtEpoch\<rparr>) ?s = Some (?s, f4)"
    by (simp add: forward_step_def sample_bound_state fresh_state_def fs)
  have "pruneExpiredPermitsLocked 6 ?s = ?s"
    by (simp add: pruneExpiredPermitsLocked_def sample_simps)
  then have s6: "forward_step ?inp f4 ?s = Some (?s, f4\<lparr>fw_pc := AtValidate\<rparr>)"
    by (simp add: forward_step_def send_turn_def sample_bound_state sample_input_def fs)
  have s7: "forward_step ?inp (f4\<lparr>fw_pc := AtValidate\<rparr>) ?s = Some (?s, f5)"
    by (simp add: forward_step_def validateForwardBinding_def is_current_def sample_bound_state fresh_state_def
        sample_meta_sel fs)
  obtain b6 where b6: "relay_install 0 0 ?s = (b6, Inr 0)" "br_relays b6 0 = Some newRelaySession"
    by (simp add: relay_install_def sample_bound_state fresh_state_def)
  have s8: "forward_step ?inp f5 ?s = Some (b6, f6)"
    using b6(1) by (simp add: forward_step_def ensureRelaySession_def relay_lookup_def relay_ticket_check_def
        sample_bound_state fresh_state_def sample_meta_sel sample_input_def fs)
  obtain session where reg: "register_relay newRelaySession r = (session, Inr 0)" "\<not> rs_closed session"
    by (simp add: register_relay_def newRelaySession_def)
  have s9: "forward_step ?inp f6 b6 = Some (relay_update 0 session [] b6, f7)"
    using reg b6(2) by (simp add: forward_step_def register_step_def fs)
  have s10: "forward_step ?inp f7 (relay_update 0 session [] b6) = Some (relay_update 0 session [] b6, f7\<lparr>fw_pc := AtMark\<rparr>)"
    using reg(2) by (simp add: forward_step_def send_relay_def relay_update_def sample_input_def fs)
  note run = forward_run_own [OF s1] forward_run_own [OF s2] forward_run_own [OF s3] forward_run_own [OF s4]
    forward_run_own [OF s5] forward_run_own [OF s6] forward_run_own [OF s7] forward_run_own [OF s8]
    forward_run_own [OF s9] forward_run_own [OF s10]
  show thesis
    by (rule that [of "relay_update 0 session [] b6" "f7\<lparr>fw_pc := AtMark\<rparr>"])
      (unfold f0_def [symmetric], rule run, rule run, rule run, rule run, rule run, rule run, rule run, rule run,
       rule run, rule run, rule forward_run.stay, simp_all add: fs r_def relayKey_def)
qed




subsection \<open>Returning\<close>



text \<open>
  a cancellation that waits for a forwarder learns its outcome. When \<open>forward\<close> returns,
  the registered request is marked done, \<open>CancelRequestAndWait\<close> returns, and what it reports
  as observed is whether \<open>forward\<close> returned a response of the Server.
\<close>

theorem waiter_learns_outcome:
  assumes "fw_pc f = AtReturn" "forward_step inp f b = Some (b', f')"
    and "map_of (br_active b) (p_Sequence (fw_permit f)) = Some a" "\<not> ar_forwardDone a"
  shows "fw_pc f' = Returned \<and>
    cancel_wait (p_Sequence (fw_permit f)) WaitForwardDone b' = Some (True, is_ok (fw_return f), None)"
  using assms
  by (auto simp: forward_step_def finishRequestForward_def cancel_wait_def request_object_def)

theorem waiter_learns_outcome_witness:
  "cancel_wait 1 WaitForwardDone (finishRequestForward 1 True sample_consumed) = Some (True, True, None)"
proof -
  let ?f = "(forward_start ''b1'' [] None sample_permit)\<lparr>fw_pc := AtReturn, fw_return := Inr ''ok''\<rparr>"
  have "p_Sequence sample_permit = 1" by (simp add: sample_permit_def new_permit_def)
  then have "forward_step (sample_input SelResult) ?f sample_consumed =
      Some (finishRequestForward 1 True sample_consumed, ?f\<lparr>fw_pc := Returned\<rparr>)"
    by (simp add: forward_step_def forward_start_def)
  from waiter_learns_outcome [OF _ this] show ?thesis
    by (simp add: forward_start_def sample_permit_def new_permit_def sample_consumed_def new_request_def)
qed

text \<open>
  a cancellation can always be built. For a request that passed the checks on submission,
  given twelve random bytes, a 32-byte session key and a cipher that appends a 16-byte tag,
  \<open>cancelFrame\<close> succeeds; the frame carries the identity of the request, no key wrap, and
  ciphertext and tag together are what the cipher produced.
\<close>

theorem cancel_frame_built:
  assumes "validateOuter request n = None" "length nonce = 12" "length key = 32"
    and "\<And>k v m a. length (sealCancel prim k v m a) = length m + 16"
    and "\<And>inner. marshalInner prim inner \<noteq> []"
    and "\<And>outer. 0 < length (marshalOuter prim outer) \<and> int (length (marshalOuter prim outer)) \<le> defaultMaxPayloadBytes"
  shows "\<exists>cancel aad. cancelFrame prim (Some nonce) request key = Inr (cancel, marshalOuter prim cancel) \<and>
    relayKey cancel = relayKey request \<and> oe_Type cancel = ''cancel'' \<and> oe_KeyWrap cancel = [] \<and>
    (\<exists>body tag. b64_decode (oe_Ciphertext cancel) = Some body \<and> b64_decode (oe_AuthTag cancel) = Some tag \<and>
       body @ tag = sealCancel prim key nonce (marshalInner prim \<lparr>ic_Protocol = InnerProtocolVersion,
         ic_RequestID = oe_RequestID request, ic_Sequence = oe_Sequence request, ic_Type = ''cancel''\<rparr>) aad)"
proof -
  define plaintext where "plaintext = marshalInner prim \<lparr>ic_Protocol = InnerProtocolVersion,
    ic_RequestID = oe_RequestID request, ic_Sequence = oe_Sequence request, ic_Type = ''cancel''\<rparr>"
  define c0 where "c0 = request\<lparr>oe_Type := ''cancel'', oe_Direction := ''request'',
    oe_PayloadBytes := int (length plaintext), oe_KeyWrap := [], oe_Nonce := b64_encode nonce\<rparr>"
  define sealed where "sealed = sealCancel prim key nonce plaintext (marshalAAD prim c0)"
  define cancel where "cancel = c0\<lparr>oe_Ciphertext := b64_encode (take (length plaintext) sealed),
    oe_AuthTag := b64_encode (drop (length plaintext) sealed)\<rparr>"
  have len: "length sealed = length plaintext + 16" "0 < length plaintext"
    using assms(4,5) by (simp_all add: sealed_def plaintext_def)
  have "validateCancelOuter cancel m = None" if "0 < m" "m \<le> defaultMaxPayloadBytes" for m
    using assms(1,2) len that
    by (auto simp: validateCancelOuter_def validateOuterPayload_def validateOuter_def cancel_def c0_def
        defaultMaxPayloadBytes_def split: if_splits)
  then have "validateCancelOuter cancel (int (length (marshalOuter prim cancel))) = None"
    using assms(6) [of cancel] by simp
  then have "cancelFrame prim (Some nonce) request key = Inr (cancel, marshalOuter prim cancel)"
    using len(1) assms(3)
    by (simp add: cancelFrame_def Let_def flip: plaintext_def)
      (simp add: cancel_def c0_def sealed_def Let_def)
  moreover have "relayKey cancel = relayKey request" "oe_Type cancel = ''cancel''" "oe_KeyWrap cancel = []"
    "b64_decode (oe_Ciphertext cancel) = Some (take (length plaintext) sealed)"
    "b64_decode (oe_AuthTag cancel) = Some (drop (length plaintext) sealed)"
    by (simp_all add: cancel_def c0_def relayKey_def b64_decode_encode)
  ultimately show ?thesis
    unfolding plaintext_def [symmetric] using append_take_drop_id [of "length plaintext" sealed]
    unfolding sealed_def by metis
qed

theorem cancel_frame_built_witness:
  "\<exists>cancel frame. cancelFrame (in_cancel (sample_input SelResult)) (Some (replicate 12 (CHR 0x01))) sample_outer
     (replicate 32 (CHR 0x02)) = Inr (cancel, frame) \<and> relayKey cancel = relayKey sample_outer"
  using cancel_frame_built [OF sample_outer_valid, of "replicate 12 (CHR 0x01)" "replicate 32 (CHR 0x02)"
      "in_cancel (sample_input SelResult)"]
  by (force simp: sample_input_def defaultMaxPayloadBytes_def)

end
