(* ===== verification/Connection.thy ===== *)
theory Connection
  imports Forward
begin

section \<open>A wrapper's connection\<close>

text \<open>
  \<open>handleConnection\<close> of \<open>broker.go\<close>: what one accepted connection does from the first frame to
  its end, on every path, with the other goroutines of the broker running between its calls
  (\<open>reach\<close>). \<open>json_decoders\<close> stands for what \<open>decodeStrictJSON\<close> makes of a frame.
\<close>

subsection \<open>Responses\<close>

record permitWire =
  pw_BindingID :: string
  pw_Generation :: u64
  pw_RequestID :: string
  pw_Sequence :: u64
  pw_ExpiresAtUnixMS :: u64
  pw_MaxPayloadBytes :: int
  pw_MaxScriptBytes :: int
  pw_DefaultTaskSpace :: string
  pw_AllowlistRevision :: u64
  pw_LearningBundleDigest :: "string option"
  pw_ConcurrencyMode :: string
  pw_TaskSpaceScope :: "string option"
  pw_TabScope :: "string option"

record bridgeCapabilityWire =
  cw_BridgeProtocolVersion :: string
  cw_RemoteWrapperVersion :: string
  cw_LocalRuntimeVersion :: string
  cw_EgoLiteRuntimeVersion :: string
  cw_SkillVersion :: string
  cw_ReleaseProfile :: string
  cw_SignerCertificateSHA256 :: string
  cw_CredentialProfile :: string
  cw_AllowlistRevision :: u64
  cw_AllowlistRootsDigest :: "string option"
  cw_LearningBundleDigest :: "string option"
  cw_MaxParallelRequests :: int
  cw_MaxScriptBytes :: int
  cw_MaxExecuteTimeoutMS :: int
  cw_SupportedConcurrency :: "string list"
  cw_Capabilities :: "string list"
  cw_RemotePlatform :: string
  cw_LocalPlatform :: string

record permitResponseWire =
  pr_Protocol :: string
  pr_Type :: string
  pr_Status :: string
  pr_Permit :: permitWire
  pr_SessionKey :: string
  pr_Capability :: bridgeCapabilityWire

definition deref_text :: "string option \<Rightarrow> string" where
  "deref_text value = (case value of None \<Rightarrow> ''unknown'' | Some v \<Rightarrow> v)"

definition optionalString :: "string \<Rightarrow> string option" where
  "optionalString value = (if value = [] then None else Some value)"

definition empty_capability :: bridgeCapabilityWire where
  "empty_capability = \<lparr>cw_BridgeProtocolVersion = [], cw_RemoteWrapperVersion = [], cw_LocalRuntimeVersion = [],
     cw_EgoLiteRuntimeVersion = [], cw_SkillVersion = [], cw_ReleaseProfile = [], cw_SignerCertificateSHA256 = [],
     cw_CredentialProfile = [], cw_AllowlistRevision = 0, cw_AllowlistRootsDigest = None, cw_LearningBundleDigest = None,
     cw_MaxParallelRequests = 0, cw_MaxScriptBytes = 0, cw_MaxExecuteTimeoutMS = 0, cw_SupportedConcurrency = [],
     cw_Capabilities = [], cw_RemotePlatform = [], cw_LocalPlatform = []\<rparr>"

definition capabilityWire :: "string \<Rightarrow> broker \<Rightarrow> bridgeCapabilityWire" where
  "capabilityWire bindingID b =
     (case map_of (br_bindings b) bindingID of None \<Rightarrow> empty_capability
      | Some r \<Rightarrow>
          (let m = metadata_of b r in
           \<lparr>cw_BridgeProtocolVersion = ProtocolVersion, cw_RemoteWrapperVersion = c_WrapperVersion (br_cfg b),
            cw_LocalRuntimeVersion = deref_text (LocalRuntimeVersion m),
            cw_EgoLiteRuntimeVersion = deref_text (EgoLiteRuntimeVersion m),
            cw_SkillVersion = deref_text (SkillVersion m), cw_ReleaseProfile = ReleaseProfile m,
            cw_SignerCertificateSHA256 = SignerCertificateSHA256 m, cw_CredentialProfile = CredentialProfile m,
            cw_AllowlistRevision = AllowlistRevision m, cw_AllowlistRootsDigest = AllowlistRootsDigest m,
            cw_LearningBundleDigest = LearningBundleDigest m,
            cw_MaxParallelRequests = min (c_MaxParallelRequests (br_cfg b)) (MaxParallelRequests m),
            cw_MaxScriptBytes = c_MaxScriptBytes (br_cfg b),
            cw_MaxExecuteTimeoutMS = c_MaxExecuteTimeoutMS (br_cfg b),
            cw_SupportedConcurrency = [''task_space_tab'', ''task_space'', ''binding''],
            cw_Capabilities = Capabilities m, cw_RemotePlatform = ''linux'', cw_LocalPlatform = ''macos''\<rparr>))"

text \<open>\<open>UnixMilli\<close> of a time in nanoseconds, converted to \<open>uint64\<close>.\<close>

definition permitResponse :: "broker \<Rightarrow> Permit \<Rightarrow> permitResponseWire" where
  "permitResponse b permit =
     \<lparr>pr_Protocol = ProtocolVersion, pr_Type = ''permit_response'', pr_Status = ''ok'',
      pr_Permit =
        \<lparr>pw_BindingID = p_BindingID permit, pw_Generation = p_Generation permit, pw_RequestID = p_RequestID permit,
         pw_Sequence = p_Sequence permit, pw_ExpiresAtUnixMS = word_of_int (p_ExpiresAt permit div 1000000),
         pw_MaxPayloadBytes = p_MaxPayloadBytes permit, pw_MaxScriptBytes = p_MaxScriptBytes permit,
         pw_DefaultTaskSpace = p_DefaultTaskSpace permit, pw_AllowlistRevision = p_AllowlistRevision permit,
         pw_LearningBundleDigest = p_LearningBundleDigest permit, pw_ConcurrencyMode = p_ConcurrencyMode permit,
         pw_TaskSpaceScope = optionalString (p_TaskSpaceScope permit),
         pw_TabScope = optionalString (p_TabScope permit)\<rparr>,
      pr_SessionKey = b64_encode (p_SessionKey permit), pr_Capability = capabilityWire (p_BindingID permit) b\<rparr>"

record control_item =
  ci_binding_id :: string
  ci_generation :: u64
  ci_status :: string
  ci_lease_health :: string
  ci_relay_connected :: bool

definition relay_connected :: "broker \<Rightarrow> nat \<Rightarrow> bool" where
  "relay_connected b r =
     (case bs_relay (deref b r) of None \<Rightarrow> False
      | Some q \<Rightarrow> (case br_relays b q of None \<Rightarrow> False | Some session \<Rightarrow> \<not> rs_closed session))"

definition controlResponse :: "string \<Rightarrow> broker \<Rightarrow> control_item list" where
  "controlResponse toolSessionID b =
     map (\<lambda>(bindingID, r). let m = metadata_of b r in
        \<lparr>ci_binding_id = BindingID m, ci_generation = BindingGeneration m, ci_status = Status m,
         ci_lease_health = LeaseHealth m, ci_relay_connected = relay_connected b r\<rparr>)
       (session_bindings toolSessionID b)"

subsection \<open>Requests\<close>

record controlRequest =
  cr_Protocol :: string
  cr_Type :: string
  cr_StartupNonce :: string

record submitRequest =
  su_Protocol :: string
  su_StartupNonce :: string
  su_Envelope :: bytes

record json_decoders =
  dj_fields :: "bytes \<Rightarrow> (string \<times> string) option"
  dj_permit :: "bytes \<Rightarrow> PermitRequest option"
  dj_control :: "bytes \<Rightarrow> controlRequest option"
  dj_submit :: "bytes \<Rightarrow> submitRequest option"
  dj_outer :: "bytes \<Rightarrow> outerEnvelope option"

definition decodeSubmitOrOuter :: "json_decoders \<Rightarrow> bytes \<Rightarrow> string \<Rightarrow> ego_error + bytes \<times> outerEnvelope" where
  "decodeSubmitOrOuter dec frame startupNonce =
     (case dj_fields dec frame of None \<Rightarrow> Inl (ErrProtocol ''json'')
      | Some (type, _) \<Rightarrow>
          (case (if type = ''submit''
                 then (case dj_submit dec frame of None \<Rightarrow> Inl (ErrProtocol ''json'')
                       | Some submit \<Rightarrow>
                           if su_Protocol submit \<noteq> ProtocolVersion \<or> su_StartupNonce submit \<noteq> startupNonce
                              \<or> length (su_Envelope submit) = 0 then Inl (ErrProtocol ''submit metadata'')
                           else Inr (su_Envelope submit))
                 else Inr frame) of
             Inl e \<Rightarrow> Inl e
           | Inr frame \<Rightarrow>
               (case dj_outer dec frame of None \<Rightarrow> Inl (ErrProtocol ''json'')
                | Some outer \<Rightarrow>
                    (case validateOuter outer (int (length frame)) of Some e \<Rightarrow> Inl e
                     | None \<Rightarrow> Inr (frame, outer)))))"

datatype wrapper_reply =
    ReplyPermit permitResponseWire
  | ReplyError string ego_error
  | ReplyFrame bytes
  | ReplyControl string "control_item list"

definition same_identity :: "outerEnvelope \<Rightarrow> Permit \<Rightarrow> bool" where
  "same_identity outer permit =
     (oe_BindingID outer = p_BindingID permit \<and> oe_Generation outer = p_Generation permit \<and>
      oe_RequestID outer = p_RequestID permit \<and> oe_Sequence outer = p_Sequence permit)"

subsection \<open>The connection\<close>

text \<open>
  From the permit to the end of the connection. The replies are those the connection tries to
  write, with the status its metrics record.
\<close>

inductive serve_permit :: "json_decoders \<Rightarrow> PermitRequest \<Rightarrow> Permit \<Rightarrow> broker \<Rightarrow> wrapper_reply list \<times> string \<Rightarrow>
    broker \<Rightarrow> bool" for dec request permit where
  write_failed: "reach b b' \<Longrightarrow> serve_permit dec request permit b ([], ''rejected'') b'"
| read_failed: "reach b b' \<Longrightarrow>
    serve_permit dec request permit b ([ReplyPermit (permitResponse b permit)], ''rejected'') b'"
| bad_submit: "reach b b' \<Longrightarrow> decodeSubmitOrOuter dec frame (q_StartupNonce request) = Inl e \<Longrightarrow>
    serve_permit dec request permit b
      ([ReplyPermit (permitResponse b permit), ReplyError ''execute_result'' e], ''rejected'') b'"
| bad_identity: "reach b b' \<Longrightarrow> decodeSubmitOrOuter dec frame (q_StartupNonce request) = Inr (raw, outer) \<Longrightarrow>
    \<not> same_identity outer permit \<Longrightarrow>
    serve_permit dec request permit b
      ([ReplyPermit (permitResponse b permit), ReplyError ''execute_result'' (ErrProtocol ''outer identity'')],
       ''rejected'') b'"
| not_consumed: "reach b b1 \<Longrightarrow> decodeSubmitOrOuter dec frame (q_StartupNonce request) = Inr (raw, outer) \<Longrightarrow>
    same_identity outer permit \<Longrightarrow>
    ConsumePermit now (p_BindingID permit) (p_Generation permit) (p_RequestID permit) (p_Sequence permit)
      (oe_PayloadBytes outer) b1 = (b', Inl e) \<Longrightarrow>
    serve_permit dec request permit b
      ([ReplyPermit (permitResponse b permit), ReplyError ''execute_result'' e], executeMetricStatus e) b'"
| not_forwarded: "reach b b1 \<Longrightarrow> decodeSubmitOrOuter dec frame (q_StartupNonce request) = Inr (raw, outer) \<Longrightarrow>
    same_identity outer permit \<Longrightarrow>
    ConsumePermit now (p_BindingID permit) (p_Generation permit) (p_RequestID permit) (p_Sequence permit)
      (oe_PayloadBytes outer) b1 = (b2, Inr consumed) \<Longrightarrow>
    forward_run (b2, forward_start (p_BindingID permit) raw (dj_outer dec raw) consumed) (b', f) \<Longrightarrow>
    fw_pc f = Returned \<Longrightarrow> fw_return f = Inl e \<Longrightarrow>
    serve_permit dec request permit b
      ([ReplyPermit (permitResponse b permit), ReplyError ''execute_result'' e], executeMetricStatus e) b'"
| answered: "reach b b1 \<Longrightarrow> decodeSubmitOrOuter dec frame (q_StartupNonce request) = Inr (raw, outer) \<Longrightarrow>
    same_identity outer permit \<Longrightarrow>
    ConsumePermit now (p_BindingID permit) (p_Generation permit) (p_RequestID permit) (p_Sequence permit)
      (oe_PayloadBytes outer) b1 = (b2, Inr consumed) \<Longrightarrow>
    forward_run (b2, forward_start (p_BindingID permit) raw (dj_outer dec raw) consumed) (b', f) \<Longrightarrow>
    fw_pc f = Returned \<Longrightarrow> fw_return f = Inr response \<Longrightarrow> status \<in> {''completed'', ''unknown_result''} \<Longrightarrow>
    serve_permit dec request permit b
      ([ReplyPermit (permitResponse b permit), ReplyFrame response], status) b'"

text \<open>The \<open>doctor\<close> and \<open>reload\<close> commands.\<close>

definition handle_control :: "json_decoders \<Rightarrow> gotime \<Rightarrow> string \<Rightarrow> bytes \<Rightarrow> broker \<Rightarrow> broker \<times> wrapper_reply list" where
  "handle_control dec now messageType first b =
     (case dj_control dec first of None \<Rightarrow> (b, [])
      | Some request \<Rightarrow>
          if cr_Protocol request \<noteq> ProtocolVersion \<or> cr_Type request \<noteq> messageType
            then (b, [ReplyError (messageType @ ''_response'') (ErrProtocol ''startup nonce'')])
          else (case sessionForNonceLocked (cr_StartupNonce request) b of
                  Inl e \<Rightarrow> (b, [ReplyError (messageType @ ''_response'') e])
                | Inr toolSessionID \<Rightarrow>
                    (let b = (if messageType = ''reload'' then reloadToolSession now toolSessionID b else b)
                     in (b, [ReplyControl messageType (controlResponse toolSessionID b)]))))"

text \<open>
  \<open>handleConnection\<close> on the first frame (\<open>None\<close> when reading it failed) of a peer with user id
  \<open>uid\<close>; \<open>issued\<close> is the permit it was given, if any.
\<close>

inductive handle_connection :: "json_decoders \<Rightarrow> u32 \<Rightarrow> bytes option \<Rightarrow> broker \<Rightarrow> wrapper_reply list \<Rightarrow>
    Permit option \<Rightarrow> broker \<Rightarrow> bool" for dec uid where
  no_frame: "handle_connection dec uid None b [] None b"
| bad_frame: "dj_fields dec frame = None \<Longrightarrow> handle_connection dec uid (Some frame) b [] None b"
| bad_peer: "dj_fields dec frame = Some (type, nonce) \<Longrightarrow> authorizePeerUID nonce uid b = Some e \<Longrightarrow>
    handle_connection dec uid (Some frame) b [] None b"
| bad_request: "dj_fields dec frame = Some (''permit_request'', nonce) \<Longrightarrow> authorizePeerUID nonce uid b = None \<Longrightarrow>
    reach b b' \<Longrightarrow> dj_permit dec frame = None \<Longrightarrow> handle_connection dec uid (Some frame) b [] None b'"
| refused: "dj_fields dec frame = Some (''permit_request'', nonce) \<Longrightarrow> authorizePeerUID nonce uid b = None \<Longrightarrow>
    reach b b1 \<Longrightarrow> dj_permit dec frame = Some request \<Longrightarrow>
    IssuePermit clk response env rndID rndKey request b1 = (b', Inl e) \<Longrightarrow>
    handle_connection dec uid (Some frame) b [ReplyError ''permit_response'' e] None b'"
| served: "dj_fields dec frame = Some (''permit_request'', nonce) \<Longrightarrow> authorizePeerUID nonce uid b = None \<Longrightarrow>
    reach b b1 \<Longrightarrow> dj_permit dec frame = Some request \<Longrightarrow>
    IssuePermit clk response env rndID rndKey request b1 = (b2, Inr permit) \<Longrightarrow>
    reach b2 b3 \<Longrightarrow> serve_permit dec request permit b3 (replies, status) b4 \<Longrightarrow> reach b4 b5 \<Longrightarrow>
    b' = releaseRequest (p_Sequence permit) b5 \<Longrightarrow>
    handle_connection dec uid (Some frame) b replies (Some permit) b'"
| control: "dj_fields dec frame = Some (type, nonce) \<Longrightarrow> authorizePeerUID nonce uid b = None \<Longrightarrow>
    type \<in> {''doctor'', ''reload''} \<Longrightarrow> reach b b1 \<Longrightarrow> handle_control dec now type frame b1 = (b', replies) \<Longrightarrow>
    handle_connection dec uid (Some frame) b replies None b'"
| unknown: "dj_fields dec frame = Some (type, nonce) \<Longrightarrow> authorizePeerUID nonce uid b = None \<Longrightarrow>
    type \<notin> {''permit_request'', ''doctor'', ''reload''} \<Longrightarrow>
    handle_connection dec uid (Some frame) b [ReplyError ''error'' (ErrProtocol ''unsupported command'')] None b"

inductive_cases served_connectionE: "handle_connection dec uid first b replies (Some permit) b'"

subsection \<open>Properties\<close>

lemma reach_serve: "serve_permit dec request permit b out b' \<Longrightarrow> reach b b'"
proof (induction rule: serve_permit.induct)
  case (not_consumed b b1 frame raw outer now b' e)
  have "reach b1 b'" by (rule reach_step [OF broker_step.consume [OF not_consumed(4)]]) simp
  then show ?case by (rule reach_trans [OF not_consumed(1)])
next
  case (not_forwarded b b1 frame raw outer now b2 consumed b' f e)
  have "reach b1 b2" by (rule reach_step [OF broker_step.consume [OF not_forwarded(4)]]) simp
  moreover have "reach b2 b'" using forward_run_reach [OF not_forwarded(5)] by simp
  ultimately show ?case using not_forwarded(1) reach_trans by blast
next
  case (answered b b1 frame raw outer now b2 consumed b' f response status)
  have "reach b1 b2" by (rule reach_step [OF broker_step.consume [OF answered(4)]]) simp
  moreover have "reach b2 b'" using forward_run_reach [OF answered(5)] by simp
  ultimately show ?case using answered(1) reach_trans by blast
qed assumption+

lemma reach_release: "reach b (releaseRequest q b)"
  by (rule reach_step [OF broker_step.release [OF refl]]) simp

lemma reach_control: "reach b (fst (handle_control dec now type first b))"
  by (auto simp: handle_control_def Let_def reach_reload_session split: option.split sum.split)

lemma reach_connection: "handle_connection dec uid first b replies issued b' \<Longrightarrow> reach b b'"
proof (induction rule: handle_connection.induct)
  case (refused frame nonce b b1 request clk response env rndID rndKey b' e)
  have "reach b1 b'" using reach_issue [of b1 clk response env rndID rndKey request] refused(5) by simp
  then show ?case by (rule reach_trans [OF refused(3)])
next
  case (served frame nonce b b1 request clk response env rndID rndKey b2 permit b3 replies status b4 b5 b')
  have "reach b1 b2" using reach_issue [of b1 clk response env rndID rndKey request] served(5) by simp
  then have "reach b b3" using served(3,6) reach_trans by blast
  moreover have "reach b3 b5" by (rule reach_trans [OF reach_serve [OF served(7)] served(8)])
  ultimately have "reach b b5" by (rule reach_trans)
  then show ?case unfolding served(9) by (rule reach_trans [OF _ reach_release])
next
  case (control frame type nonce b b1 now b' replies)
  then show ?case using reach_trans [OF control(4) reach_control [of b1 dec now type frame]] by simp
qed simp_all

text \<open>
  C12: a connection leaves nothing behind. Whatever happens on a connection that was given a
  permit (the write of the permit fails, the wrapper submits something else or nothing, the
  permit expires, forwarding fails or succeeds), at its end neither the permit nor the
  request is registered, the broker's invariant holds, and the whole connection was a run of
  the broker's steps.
\<close>

theorem connection_leaves_nothing:
  assumes "broker_inv b" "handle_connection dec uid first b replies (Some permit) b'"
  shows "p_Sequence permit \<notin> keys (br_permits b') \<and> p_Sequence permit \<notin> keys (br_active b') \<and>
    broker_inv b' \<and> reach b b'"
proof -
  have r: "reach b b'" by (rule reach_connection [OF assms(2)])
  obtain b5 where "b' = releaseRequest (p_Sequence permit) b5" using assms(2) by (rule served_connectionE)
  then have "p_Sequence permit \<notin> keys (br_permits b') \<and> p_Sequence permit \<notin> keys (br_active b')"
    by (simp add: release_fields)
  then show ?thesis using r reach_inv [OF r assms(1)] by blast
qed

definition sample_decoders :: json_decoders where
  "sample_decoders = \<lparr>dj_fields = (\<lambda>_. Some (''permit_request'', sample_nonce)), dj_permit = (\<lambda>_. Some sample_request),
     dj_control = (\<lambda>_. None), dj_submit = (\<lambda>_. None), dj_outer = (\<lambda>_. None)\<rparr>"

lemma sample_connection:
  "handle_connection sample_decoders 1000 (Some ''frame'') sample_bound [] (Some sample_permit)
     (releaseRequest (p_Sequence sample_permit) sample_issued)"
proof (rule handle_connection.served [where ?b1.0 = sample_bound and ?b2.0 = sample_issued and ?b3.0 = sample_issued
      and ?b4.0 = sample_issued and ?b5.0 = sample_issued and request = sample_request and nonce = sample_nonce])
  show "authorizePeerUID sample_nonce 1000 sample_bound = None"
    by (simp add: authorizePeerUID_def get_str_def sample_simps)
  show "IssuePermit (\<lambda>_. 0) (Inl ErrUnavailable) (\<lambda>_. RenameOK) (Some (\<lambda>_. CHR 0x01)) (Some (\<lambda>_. CHR 0x02))
     sample_request sample_bound = (sample_issued, Inr sample_permit)" by (rule sample_IssuePermit)
  show "serve_permit sample_decoders sample_request sample_permit sample_issued ([], ''rejected'') sample_issued"
    by (rule serve_permit.write_failed) simp
qed (simp_all add: sample_decoders_def)

theorem connection_leaves_nothing_witness:
  "p_Sequence sample_permit \<in> keys (br_permits sample_issued) \<and>
   p_Sequence sample_permit \<notin> keys (br_active (releaseRequest (p_Sequence sample_permit) sample_issued))"
proof -
  have "p_Sequence sample_permit \<in> keys (br_permits sample_issued)"
    by (simp add: sample_issued_def sample_permit_def new_permit_def)
  then show ?thesis using connection_leaves_nothing [OF sample_bound_inv sample_connection] by blast
qed

lemma authorised_session:
  assumes "broker_inv b" "authorizePeerUID nonce uid b = None"
  obtains tool where "map_of (br_sessions b) tool = Some nonce" "map_of (br_peerUIDs b) tool = Some uid"
proof -
  let ?tool = "get_str (br_nonces b) nonce"
  have tool: "?tool \<noteq> []" "map_of (br_peerUIDs b) ?tool = Some uid"
    using assms(2) by (auto simp: authorizePeerUID_def Let_def split: option.splits if_splits)
  have "map_of (br_nonces b) nonce = Some ?tool" by (rule get_str_nonempty [OF refl tool(1)])
  then have "map_of (br_sessions b) ?tool = Some nonce"
    using assms(1) by (simp add: broker_inv_def sessions_inv_def)
  then show thesis using tool(2) by (rule that)
qed



end
