(* ===== verification/Json_Keys.thy ===== *)
theory Json_Keys
  imports Prelude
begin

section \<open>Duplicate keys in JSON frames\<close>

text \<open>
  Before a frame is decoded, \<open>rejectDuplicateKeys\<close> with \<open>walkJSON\<close> (\<open>egobrowser/json.go\<close>) walks
  the tokens of the frame and refuses an object that repeats a key at any depth;
  \<open>rejectDuplicateJSONObjectKeys\<close> (\<open>devicecontrol/bridge.go\<close>) and \<open>rejectDuplicateObjectKeys\<close>
  (\<open>portforward/tunnel.go\<close>) look at the outermost object only. The decoder is modelled as the
  list of tokens it delivers; past the last token it reports the end of the input. The walk
  recurses through a decoder it shares with its callers, so it is given fuel; twice the number
  of tokens is enough.
\<close>

subsection \<open>Tokens and values\<close>

datatype json_token = ObjOpen | ObjClose | ArrOpen | ArrClose | TokString string | TokLiteral string

datatype json_value = JString string | JLiteral string | JArray "json_value list" | JObject "(string \<times> json_value) list"

fun json_tokens :: "json_value \<Rightarrow> json_token list" where
  "json_tokens (JString s) = [TokString s]"
| "json_tokens (JLiteral s) = [TokLiteral s]"
| "json_tokens (JArray vs) = ArrOpen # concat (map json_tokens vs) @ [ArrClose]"
| "json_tokens (JObject kvs) = ObjOpen # concat (map (\<lambda>(k, v). TokString k # json_tokens v) kvs) @ [ObjClose]"

fun unique_keys :: "json_value \<Rightarrow> bool" where
  "unique_keys (JArray vs) \<longleftrightarrow> (\<forall>v \<in> set vs. unique_keys v)"
| "unique_keys (JObject kvs) \<longleftrightarrow> distinct (map fst kvs) \<and> (\<forall>(k, v) \<in> set kvs. unique_keys v)"
| "unique_keys _ \<longleftrightarrow> True"

subsection \<open>The walk\<close>

text \<open>\<open>decoder.More()\<close>\<close>

fun json_more :: "json_token list \<Rightarrow> bool" where
  "json_more [] = False"
| "json_more (t # _) = (t \<noteq> ObjClose \<and> t \<noteq> ArrClose)"

fun json_closing :: "json_token \<Rightarrow> string \<Rightarrow> json_token list \<Rightarrow> string + json_token list" where
  "json_closing t e [] = Inl e"
| "json_closing t e (u # ts) = (if u = t then Inr ts else Inl e)"

fun walkJSON :: "nat \<Rightarrow> json_token list \<Rightarrow> string + json_token list"
and walk_members :: "nat \<Rightarrow> string list \<Rightarrow> json_token list \<Rightarrow> string + json_token list"
and walk_elements :: "nat \<Rightarrow> json_token list \<Rightarrow> string + json_token list" where
  "walkJSON 0 ts = Inl ''fuel''"
| "walkJSON (Suc n) [] = Inl ''EOF''"
| "walkJSON (Suc n) (TokString s # ts) = Inr ts"
| "walkJSON (Suc n) (TokLiteral s # ts) = Inr ts"
| "walkJSON (Suc n) (ObjOpen # ts) =
     (case walk_members n [] ts of Inl e \<Rightarrow> Inl e
      | Inr ts \<Rightarrow> json_closing ObjClose ''JSON object is incomplete'' ts)"
| "walkJSON (Suc n) (ArrOpen # ts) =
     (case walk_elements n ts of Inl e \<Rightarrow> Inl e
      | Inr ts \<Rightarrow> json_closing ArrClose ''JSON array is incomplete'' ts)"
| "walkJSON (Suc n) (ObjClose # ts) = Inl ''JSON delimiter is invalid''"
| "walkJSON (Suc n) (ArrClose # ts) = Inl ''JSON delimiter is invalid''"
| "walk_members 0 seen ts = Inl ''fuel''"
| "walk_members (Suc n) seen ts =
     (if \<not> json_more ts then Inr ts
      else (case ts of
              TokString key # ts \<Rightarrow>
                if key \<in> set seen then Inl ''JSON frame contains a duplicate key''
                else (case walkJSON n ts of Inl e \<Rightarrow> Inl e | Inr ts \<Rightarrow> walk_members n (key # seen) ts)
            | _ \<Rightarrow> Inl ''JSON object key is invalid''))"
| "walk_elements 0 ts = Inl ''fuel''"
| "walk_elements (Suc n) ts =
     (if \<not> json_more ts then Inr ts
      else (case walkJSON n ts of Inl e \<Rightarrow> Inl e | Inr ts \<Rightarrow> walk_elements n ts))"

definition rejectDuplicateKeys :: "json_token list \<Rightarrow> string option" where
  "rejectDuplicateKeys ts =
     (case walkJSON (Suc (2 * length ts)) ts of Inl e \<Rightarrow> Some e
      | Inr ts \<Rightarrow> if ts \<noteq> [] then Some ''JSON frame contains trailing data'' else None)"

text \<open>\<open>decoder.Decode(&value)\<close> into a raw message: one value of any shape is skipped.\<close>

fun skip_value :: "nat \<Rightarrow> json_token list \<Rightarrow> json_token list option" where
  "skip_value depth [] = None"
| "skip_value depth (t # ts) =
     (case t of
        ObjOpen \<Rightarrow> skip_value (Suc depth) ts
      | ArrOpen \<Rightarrow> skip_value (Suc depth) ts
      | ObjClose \<Rightarrow> (case depth of 0 \<Rightarrow> None | Suc 0 \<Rightarrow> Some ts | Suc d \<Rightarrow> skip_value d ts)
      | ArrClose \<Rightarrow> (case depth of 0 \<Rightarrow> None | Suc 0 \<Rightarrow> Some ts | Suc d \<Rightarrow> skip_value d ts)
      | _ \<Rightarrow> if depth = 0 then Some ts else skip_value depth ts)"

fun object_members :: "nat \<Rightarrow> string list \<Rightarrow> json_token list \<Rightarrow> string + json_token list" where
  "object_members 0 seen ts = Inl ''fuel''"
| "object_members (Suc n) seen ts =
     (if \<not> json_more ts then Inr ts
      else (case ts of
              TokString key # ts \<Rightarrow>
                if key \<in> set seen then Inl ''JSON object contains a duplicate key''
                else (case skip_value 0 ts of None \<Rightarrow> Inl ''EOF'' | Some ts \<Rightarrow> object_members n (key # seen) ts)
            | _ \<Rightarrow> Inl ''JSON object key is invalid''))"

definition rejectDuplicateObjectKeys :: "json_token list \<Rightarrow> string option" where
  "rejectDuplicateObjectKeys ts =
     (case ts of
        ObjOpen # ts \<Rightarrow>
          (case object_members (Suc (length ts)) [] ts of Inl e \<Rightarrow> Some e
           | Inr ts \<Rightarrow>
               (case json_closing ObjClose ''JSON object is incomplete'' ts of Inl e \<Rightarrow> Some e
                | Inr ts \<Rightarrow> if ts \<noteq> [] then Some ''JSON object has trailing data'' else None))
      | _ \<Rightarrow> Some ''JSON value is not an object'')"

subsection \<open>Correctness\<close>

lemma json_tokens_nonempty [simp]: "json_tokens v \<noteq> []"
  by (cases v) auto

lemma json_more_tokens [simp]: "json_more (json_tokens v @ rest)"
  by (cases v) auto

definition element_tokens :: "json_value list \<Rightarrow> json_token list" where
  "element_tokens vs = concat (map json_tokens vs)"

definition member_tokens :: "(string \<times> json_value) list \<Rightarrow> json_token list" where
  "member_tokens kvs = concat (map (\<lambda>(k, v). TokString k # json_tokens v) kvs)"

lemma sequence_tokens [simp]:
  "element_tokens [] = []" "element_tokens (v # vs) = json_tokens v @ element_tokens vs"
  "member_tokens [] = []" "member_tokens ((k, v) # kvs) = TokString k # json_tokens v @ member_tokens kvs"
  by (simp_all add: element_tokens_def member_tokens_def)

definition walks :: "json_value \<Rightarrow> bool" where
  "walks v \<longleftrightarrow> (\<forall>n rest. 2 * length (json_tokens v @ rest) < n \<longrightarrow>
     (if unique_keys v then walkJSON n (json_tokens v @ rest) = Inr rest
      else \<exists>e. walkJSON n (json_tokens v @ rest) = Inl e))"

lemma walksD:
  assumes "walks v" "2 * length (json_tokens v @ rest) < n"
  shows "unique_keys v \<Longrightarrow> walkJSON n (json_tokens v @ rest) = Inr rest"
    and "\<not> unique_keys v \<Longrightarrow> \<exists>e. walkJSON n (json_tokens v @ rest) = Inl e"
  using assms unfolding walks_def by fastforce+

lemma walk_elements_tokens:
  assumes "\<forall>v \<in> set vs. walks v" "\<not> json_more rest" "2 * length (element_tokens vs @ rest) + 1 < n"
  shows "if \<forall>v \<in> set vs. unique_keys v then walk_elements n (element_tokens vs @ rest) = Inr rest
    else \<exists>e. walk_elements n (element_tokens vs @ rest) = Inl e"
  using assms
proof (induction vs arbitrary: n)
  case Nil
  then show ?case by (cases n) auto
next
  case (Cons v vs)
  obtain m where n: "n = Suc m" using Cons.prems(3) by (cases n) auto
  obtain a where a: "length (json_tokens v) = Suc a" using json_tokens_nonempty [of v] by (cases "json_tokens v") auto
  have len1: "2 * length (json_tokens v @ element_tokens vs @ rest) < m" using Cons.prems(3) by (simp add: n)
  have len2: "2 * length (element_tokens vs @ rest) + 1 < m" using len1 by (simp add: a)
  have "walks v" using Cons.prems(1) by simp
  note w = walksD [OF this len1]
  have IH: "if \<forall>v \<in> set vs. unique_keys v then walk_elements m (element_tokens vs @ rest) = Inr rest
      else \<exists>e. walk_elements m (element_tokens vs @ rest) = Inl e"
    using Cons.IH [OF _ Cons.prems(2) len2] Cons.prems(1) by simp
  show ?case
  proof (cases "unique_keys v")
    case True
    then show ?thesis using w(1) IH by (simp add: n)
  next
    case False
    then obtain e where "walkJSON m (json_tokens v @ element_tokens vs @ rest) = Inl e" using w(2) by blast
    then show ?thesis using False by (simp add: n)
  qed
qed

lemma walk_members_tokens:
  assumes "\<forall>(k, v) \<in> set kvs. walks v" "\<not> json_more rest" "2 * length (member_tokens kvs @ rest) + 1 < n"
  shows "if distinct (map fst kvs) \<and> set (map fst kvs) \<inter> set seen = {} \<and> (\<forall>(k, v) \<in> set kvs. unique_keys v)
    then walk_members n seen (member_tokens kvs @ rest) = Inr rest
    else \<exists>e. walk_members n seen (member_tokens kvs @ rest) = Inl e"
  using assms
proof (induction kvs arbitrary: n seen)
  case Nil
  then show ?case by (cases n) auto
next
  case (Cons kv kvs)
  obtain k v where kv: "kv = (k, v)" by (cases kv)
  obtain m where n: "n = Suc m" using Cons.prems(3) by (cases n) auto
  have len: "2 * length (json_tokens v @ member_tokens kvs @ rest) < m" "2 * length (member_tokens kvs @ rest) + 1 < m"
    using Cons.prems(3) by (simp_all add: n kv)
  have "walks v" using Cons.prems(1) by (simp add: kv)
  note w = walksD [OF this len(1)]
  have IH: "if distinct (map fst kvs) \<and> set (map fst kvs) \<inter> set (k # seen) = {} \<and> (\<forall>(k, v) \<in> set kvs. unique_keys v)
      then walk_members m (k # seen) (member_tokens kvs @ rest) = Inr rest
      else \<exists>e. walk_members m (k # seen) (member_tokens kvs @ rest) = Inl e"
    by (rule Cons.IH [OF _ Cons.prems(2) len(2)]) (use Cons.prems(1) in simp)
  show ?case
  proof (cases "unique_keys v \<and> k \<notin> set seen")
    case True
    then have "walk_members n seen (member_tokens (kv # kvs) @ rest) = walk_members m (k # seen) (member_tokens kvs @ rest)"
      using w(1) by (simp add: n kv)
    moreover have "distinct (map fst (kv # kvs)) \<and> set (map fst (kv # kvs)) \<inter> set seen = {} \<and>
        (\<forall>(k, v) \<in> set (kv # kvs). unique_keys v) \<longleftrightarrow>
      distinct (map fst kvs) \<and> set (map fst kvs) \<inter> set (k # seen) = {} \<and> (\<forall>(k, v) \<in> set kvs. unique_keys v)"
      using True by (auto simp: kv)
    ultimately show ?thesis using IH by simp
  next
    case False
    then have "\<exists>e. walk_members n seen (member_tokens (kv # kvs) @ rest) = Inl e"
      using w(2) by (auto simp: n kv split: sum.split)
    moreover have "\<not> (distinct (map fst (kv # kvs)) \<and> set (map fst (kv # kvs)) \<inter> set seen = {} \<and>
        (\<forall>(k, v) \<in> set (kv # kvs). unique_keys v))" using False by (auto simp: kv)
    ultimately show ?thesis by presburger
  qed
qed

lemma walk_value: "walks v"
proof (induction v)
  case (JArray vs)
  show ?case
    unfolding walks_def
  proof (intro allI impI)
    fix n rest assume len: "2 * length (json_tokens (JArray vs) @ rest) < n"
    then obtain m where n: "n = Suc m" by (cases n) auto
    have "2 * length (element_tokens vs @ ArrClose # rest) + 1 < m" using len by (simp add: n element_tokens_def)
    from walk_elements_tokens [OF _ _ this] JArray
    show "if unique_keys (JArray vs) then walkJSON n (json_tokens (JArray vs) @ rest) = Inr rest
        else \<exists>e. walkJSON n (json_tokens (JArray vs) @ rest) = Inl e"
      by (auto simp: n element_tokens_def split: if_splits)
  qed
next
  case (JObject kvs)
  show ?case
    unfolding walks_def
  proof (intro allI impI)
    fix n rest assume len: "2 * length (json_tokens (JObject kvs) @ rest) < n"
    then obtain m where n: "n = Suc m" by (cases n) auto
    have "2 * length (member_tokens kvs @ ObjClose # rest) + 1 < m" using len by (simp add: n member_tokens_def)
    moreover have "\<forall>(k, v) \<in> set kvs. walks v" using JObject by (fastforce simp: snds.simps)
    ultimately show "if unique_keys (JObject kvs) then walkJSON n (json_tokens (JObject kvs) @ rest) = Inr rest
        else \<exists>e. walkJSON n (json_tokens (JObject kvs) @ rest) = Inl e"
      using walk_members_tokens [of kvs "ObjClose # rest" m "[]"]
      by (auto simp: n member_tokens_def split: if_splits)
  qed
next
  case (JString s)
  show ?case unfolding walks_def by (intro allI impI, case_tac n) auto
next
  case (JLiteral s)
  show ?case unfolding walks_def by (intro allI impI, case_tac n) auto
qed

text \<open>Skipping a value ends after exactly that value.\<close>

lemma skip_nested:
  "skip_value (Suc d) (json_tokens v @ rest) = skip_value (Suc d) rest"
  "skip_value (Suc d) (element_tokens vs @ rest) = skip_value (Suc d) rest"
  "skip_value (Suc d) (member_tokens kvs @ rest) = skip_value (Suc d) rest"
proof -
  have nested: "\<forall>d rest. skip_value (Suc d) (json_tokens v @ rest) = skip_value (Suc d) rest" for v
  proof (induction v)
    case (JArray vs)
    have "skip_value (Suc d) (element_tokens vs @ rest) = skip_value (Suc d) rest" for d rest
      using JArray by (induction vs arbitrary: rest) simp_all
    then show ?case by (simp add: element_tokens_def)
  next
    case (JObject kvs)
    have "\<forall>(k, v) \<in> set kvs. \<forall>d rest. skip_value (Suc d) (json_tokens v @ rest) = skip_value (Suc d) rest"
      using JObject by (fastforce simp: snds.simps)
    then have "skip_value (Suc d) (member_tokens kvs @ rest) = skip_value (Suc d) rest" for d rest
      by (induction kvs arbitrary: rest) auto
    then show ?case by (simp add: member_tokens_def)
  qed simp_all
  then show "skip_value (Suc d) (json_tokens v @ rest) = skip_value (Suc d) rest" by blast
  show "skip_value (Suc d) (element_tokens vs @ rest) = skip_value (Suc d) rest"
    by (induction vs arbitrary: rest) (simp_all add: nested)
  show "skip_value (Suc d) (member_tokens kvs @ rest) = skip_value (Suc d) rest"
    by (induction kvs arbitrary: rest) (auto simp: nested)
qed

lemma skip_tokens: "skip_value 0 (json_tokens v @ rest) = Some rest"
  using skip_nested(2) [of 0 _ "ArrClose # rest"] skip_nested(3) [of 0 _ "ObjClose # rest"]
  by (cases v) (simp_all add: element_tokens_def member_tokens_def)

lemma object_members_tokens:
  assumes "\<not> json_more rest" "length (member_tokens kvs @ rest) < n"
  shows "if distinct (map fst kvs) \<and> set (map fst kvs) \<inter> set seen = {}
    then object_members n seen (member_tokens kvs @ rest) = Inr rest
    else \<exists>e. object_members n seen (member_tokens kvs @ rest) = Inl e"
  using assms(2)
proof (induction kvs arbitrary: n seen)
  case Nil
  then show ?case using assms(1) by (cases n) auto
next
  case (Cons kv kvs)
  obtain k v where kv: "kv = (k, v)" by (cases kv)
  obtain m where n: "n = Suc m" using Cons.prems by (cases n) auto
  have "length (member_tokens kvs @ rest) < m" using Cons.prems by (simp add: n kv)
  note IH = Cons.IH [OF this, of "k # seen"]
  show ?case
  proof (cases "k \<in> set seen")
    case False
    then have "distinct (map fst (kv # kvs)) \<and> set (map fst (kv # kvs)) \<inter> set seen = {} \<longleftrightarrow>
        distinct (map fst kvs) \<and> set (map fst kvs) \<inter> set (k # seen) = {}" by (auto simp: kv)
    then show ?thesis using IH False by (simp add: n kv skip_tokens)
  qed (simp add: n kv)
qed

text \<open>
  C26: the walks refuse exactly the frames with duplicate keys. For the tokens of any JSON value,
  \<open>rejectDuplicateKeys\<close> accepts if and only if no object in it, at any depth, repeats a key;
  the checks of the bridge and of the tunnel accept if and only if the value is an object
  whose own keys are distinct; and both refuse anything that follows the value.
\<close>

theorem duplicate_keys_refused:
  "(rejectDuplicateKeys (json_tokens v) = None \<longleftrightarrow> unique_keys v) \<and>
   (rejectDuplicateObjectKeys (json_tokens v) = None \<longleftrightarrow> (\<exists>kvs. v = JObject kvs \<and> distinct (map fst kvs))) \<and>
   rejectDuplicateKeys (json_tokens v @ t # ts) \<noteq> None \<and> rejectDuplicateObjectKeys (json_tokens v @ t # ts) \<noteq> None"
proof (intro conjI)
  have deep: "rejectDuplicateKeys (json_tokens v @ rest) = None \<longleftrightarrow> unique_keys v \<and> rest = []" for rest
    using walksD [OF walk_value, of v rest "Suc (2 * length (json_tokens v @ rest))"]
    by (cases "unique_keys v") (auto simp: rejectDuplicateKeys_def)
  have shallow: "rejectDuplicateObjectKeys (json_tokens v @ rest) = None \<longleftrightarrow>
      (\<exists>kvs. v = JObject kvs \<and> distinct (map fst kvs)) \<and> rest = []" for rest
  proof (cases v)
    case (JObject kvs)
    have ts: "json_tokens v @ rest = ObjOpen # member_tokens kvs @ ObjClose # rest"
      by (simp add: JObject member_tokens_def)
    show ?thesis
      unfolding ts rejectDuplicateObjectKeys_def
      using object_members_tokens [of "ObjClose # rest" kvs "Suc (length (member_tokens kvs @ ObjClose # rest))" "[]"]
      by (auto simp: JObject simp del: object_members.simps length_append split: if_splits)
  qed (simp_all add: rejectDuplicateObjectKeys_def)
  show "rejectDuplicateKeys (json_tokens v) = None \<longleftrightarrow> unique_keys v" using deep [of "[]"] by simp
  show "rejectDuplicateObjectKeys (json_tokens v) = None \<longleftrightarrow> (\<exists>kvs. v = JObject kvs \<and> distinct (map fst kvs))"
    using shallow [of "[]"] by simp
  show "rejectDuplicateKeys (json_tokens v @ t # ts) \<noteq> None" "rejectDuplicateObjectKeys (json_tokens v @ t # ts) \<noteq> None"
    using deep [of "t # ts"] shallow [of "t # ts"] by blast+
qed

end
