(* ===== verification/Ledger.thy ===== *)
theory Ledger
  imports Json_Keys "HOL-Library.List_Lexorder" "HOL-Library.Char_ord"
begin

section \<open>The task ledger\<close>

text \<open>
  \<open>ledger/ledger.go\<close> and \<open>ledger/publish.go\<close>: the results of tasks, in memory and in one file
  that is replaced by a rename. The state is the ledger object with the file beside it; what
  the file system answers at each stage of a publication is an argument. A record goes through
  JSON before it is kept, which drops empty maps (\<open>detach\<close>); values are JSON values, and a value
  that cannot be encoded is the encoding error of the argument.
\<close>

subsection \<open>State\<close>

record Entry =
  e_TaskID :: string
  e_Status :: string
  e_Result :: "json_value option"
  e_Error :: "json_value option"
  e_UpdatedAt :: gotime

datatype ledger_error = LedgerIO string | ErrConflict | LedgerUncertain | LedgerFormat string

record Ledger =
  lg_entries :: "(string \<times> Entry) list"
  lg_failed :: "ledger_error option"
  lg_disk :: "(string \<times> Entry) list option"

text \<open>\<open>json:",omitempty"\<close>: an empty map is not written and comes back as nil.\<close>

definition omit_empty :: "json_value option \<Rightarrow> json_value option" where
  "omit_empty v = (if v = Some (JObject []) then None else v)"

definition detach :: "Entry \<Rightarrow> Entry" where
  "detach e = e\<lparr>e_Result := omit_empty (e_Result e), e_Error := omit_empty (e_Error e)\<rparr>"

subsection \<open>Publication\<close>

text \<open>
  The stages of \<open>publish\<close> that can fail: creating the directory, examining the destination,
  opening the directory, creating, writing, syncing and closing the temporary file, renaming
  it, and syncing the directory.
\<close>

record publish_env =
  pe_mkdir :: "string option"
  pe_lstat :: "string option"
  pe_regular :: bool
  pe_open :: "string option"
  pe_create :: "string option"
  pe_write :: "string option"
  pe_sync :: "string option"
  pe_close :: "string option"
  pe_rename :: "string option"
  pe_dirSync :: "string option"

fun first_error :: "string option list \<Rightarrow> string option" where
  "first_error [] = None"
| "first_error (Some e # es) = Some e"
| "first_error (None # es) = first_error es"

definition publish :: "publish_env \<Rightarrow> 'd \<Rightarrow> 'd option \<Rightarrow> 'd option \<times> bool \<times> ledger_error option" where
  "publish env data disk =
     (case first_error [pe_mkdir env, pe_lstat env,
              (if pe_regular env then None else Some ''ledger path must be a regular file''),
              pe_open env, pe_create env, pe_write env, pe_sync env, pe_close env, pe_rename env] of
        Some e \<Rightarrow> (disk, False, Some (LedgerIO e))
      | None \<Rightarrow> (Some data, True, map_option LedgerIO (pe_dirSync env)))"

subsection \<open>Operations\<close>

text \<open>\<open>Open\<close>: \<open>None\<close> is a missing file; a file whose content is null or not JSON is refused.\<close>

datatype ledger_file = NoFile | Unreadable string | NotJSON | NullJSON | Entries "(string \<times> Entry) list"

definition Open_ledger :: "ledger_file \<Rightarrow> ledger_error + Ledger" where
  "Open_ledger file =
     (case file of
        NoFile \<Rightarrow> Inr \<lparr>lg_entries = [], lg_failed = None, lg_disk = None\<rparr>
      | Unreadable e \<Rightarrow> Inl (LedgerIO e)
      | NotJSON \<Rightarrow> Inl (LedgerFormat ''ledger must contain valid JSON'')
      | NullJSON \<Rightarrow> Inl (LedgerFormat ''ledger must contain a JSON object'')
      | Entries es \<Rightarrow> Inr \<lparr>lg_entries = es, lg_failed = None, lg_disk = Some es\<rparr>)"

definition Get :: "string \<Rightarrow> Ledger \<Rightarrow> ledger_error + Entry option" where
  "Get taskID l =
     (case lg_failed l of Some e \<Rightarrow> Inl e
      | None \<Rightarrow> Inr (map_option detach (map_of (lg_entries l) taskID)))"

definition saveLocked :: "gotime \<Rightarrow> string option \<Rightarrow> publish_env \<Rightarrow> Entry \<Rightarrow> Ledger \<Rightarrow> Ledger \<times> ledger_error option" where
  "saveLocked now encErr env entry l =
     (case lg_failed l of Some e \<Rightarrow> (l, Some e)
      | None \<Rightarrow>
          (let entry = entry\<lparr>e_UpdatedAt := now\<rparr>;
               nxt = map (\<lambda>(id, saved). (id, detach saved)) (put (e_TaskID entry) entry (lg_entries l)) in
           case encErr of Some e \<Rightarrow> (l, Some (LedgerFormat e))
           | None \<Rightarrow>
               (case publish env nxt (lg_disk l) of (disk, renamed, err) \<Rightarrow>
                  (let l = l\<lparr>lg_disk := disk\<rparr> in
                   case err of
                     Some e \<Rightarrow> ((if renamed then l\<lparr>lg_failed := Some LedgerUncertain\<rparr> else l), Some e)
                   | None \<Rightarrow> (l\<lparr>lg_entries := nxt\<rparr>, None)))))"

definition Save :: "gotime \<Rightarrow> string option \<Rightarrow> publish_env \<Rightarrow> Entry \<Rightarrow> Ledger \<Rightarrow> Ledger \<times> ledger_error option" where
  "Save = saveLocked"

text \<open>Two records have the same JSON exactly when they agree after \<open>detach\<close>.\<close>

definition CompareAndSwap :: "gotime \<Rightarrow> string option \<Rightarrow> publish_env \<Rightarrow> Entry option \<Rightarrow> Entry \<Rightarrow> Ledger \<Rightarrow>
    Ledger \<times> ledger_error option" where
  "CompareAndSwap now encErr env expected entry l =
     (case lg_failed l of Some e \<Rightarrow> (l, Some e)
      | None \<Rightarrow>
          (case (expected, map_of (lg_entries l) (e_TaskID entry)) of
             (None, None) \<Rightarrow> saveLocked now encErr env entry l
           | (None, Some _) \<Rightarrow> (l, Some ErrConflict)
           | (Some _, None) \<Rightarrow> (l, Some ErrConflict)
           | (Some before, Some current) \<Rightarrow>
               if e_TaskID before \<noteq> e_TaskID entry \<or> detach before \<noteq> detach current then (l, Some ErrConflict)
               else saveLocked now encErr env entry l))"

definition List_entries :: "string \<Rightarrow> Ledger \<Rightarrow> ledger_error + Entry list" where
  "List_entries status l =
     (case lg_failed l of Some e \<Rightarrow> Inl e
      | None \<Rightarrow> Inr (sort_key e_TaskID (map detach (filter (\<lambda>e. e_Status e = status) (map snd (lg_entries l))))))"

subsection \<open>Runs\<close>

definition disk_file :: "Ledger \<Rightarrow> ledger_file" where
  "disk_file l = (case lg_disk l of None \<Rightarrow> NoFile | Some es \<Rightarrow> Entries es)"

definition content :: "Ledger \<Rightarrow> (string \<times> Entry) list" where
  "content l = (case lg_disk l of None \<Rightarrow> [] | Some es \<Rightarrow> es)"

datatype ledger_event = LSave Entry "ledger_error option" | LSwap "Entry option" Entry "ledger_error option" | LReopen

inductive ledger_step :: "Ledger \<Rightarrow> ledger_event \<Rightarrow> Ledger \<Rightarrow> bool" where
  save: "Save now encErr env entry l = (l', res) \<Longrightarrow> ledger_step l (LSave entry res) l'"
| swap: "CompareAndSwap now encErr env expected entry l = (l', res) \<Longrightarrow> ledger_step l (LSwap expected entry res) l'"
| reopen: "Open_ledger (disk_file l) = Inr l' \<Longrightarrow> ledger_step l LReopen l'"

definition all_detached :: "(string \<times> Entry) list \<Rightarrow> bool" where
  "all_detached m = list_all (\<lambda>p. detach (snd p) = snd p) m"

definition ledger_inv :: "Ledger \<Rightarrow> bool" where
  "ledger_inv l \<longleftrightarrow> wf_map (lg_entries l) \<and> wf_map (content l) \<and>
     all_detached (lg_entries l) \<and> all_detached (content l) \<and>
     (lg_failed l = None \<longrightarrow> content l = lg_entries l)"

lemma detach_idem [simp]: "detach (detach e) = detach e"
  by (simp add: detach_def omit_empty_def)

lemma detach_id [simp]: "e_TaskID (detach e) = e_TaskID e" "e_Status (detach e) = e_Status e"
  by (simp_all add: detach_def)

definition detached :: "(string \<times> Entry) list \<Rightarrow> (string \<times> Entry) list" where
  "detached m = map (\<lambda>(id, e). (id, detach e)) m"

lemma detached_simps [simp]:
  "wf_map (detached m) = wf_map m" "map_of (detached m) tid = map_option detach (map_of m tid)"
  "keys (detached m) = keys m"
proof -
  have "map fst (detached m) = map fst m" by (simp add: detached_def case_prod_beta comp_def)
  then show "wf_map (detached m) = wf_map m" "keys (detached m) = keys m"
    unfolding wf_map_def by (simp, metis set_map)
  show "map_of (detached m) tid = map_option detach (map_of m tid)"
    by (induction m) (auto simp: detached_def)
qed

lemma detached_entries [simp]: "all_detached (detached m)"
  by (auto simp: detached_def all_detached_def list_all_iff)

lemma detached_same: "all_detached m \<Longrightarrow> map_of m tid = Some e \<Longrightarrow> detach e = e"
  using map_of_SomeD by (fastforce simp: all_detached_def list_all_iff)

text \<open>A publication either leaves the file alone or replaces it as a whole.\<close>

lemma publish_cases:
  assumes "publish env new disk = (disk', renamed, err)"
  obtains (unchanged) e where "disk' = disk" "\<not> renamed" "err = Some e"
  | (uncertain) e where "disk' = Some new" renamed "err = Some e"
  | (published) "disk' = Some new" renamed "err = None"
  using assms unfolding publish_def
  by (cases "pe_dirSync env") (auto split: option.splits simp del: first_error.simps)

lemma save_cases:
  fixes l now entry
  assumes "saveLocked now encErr env entry l = (l', res)"
  defines "nxt \<equiv> detached (put (e_TaskID entry) (entry\<lparr>e_UpdatedAt := now\<rparr>) (lg_entries l))"
  obtains (refused) "l' = l" "res \<noteq> None"
  | (uncertain) "lg_failed l = None" "l' = l\<lparr>lg_disk := Some nxt, lg_failed := Some LedgerUncertain\<rparr>" "res \<noteq> None"
  | (saved) "lg_failed l = None" "l' = l\<lparr>lg_disk := Some nxt, lg_entries := nxt\<rparr>" "res = None"
proof (cases "lg_failed l = None \<and> encErr = None")
  case True
  obtain disk renamed err where p: "publish env nxt (lg_disk l) = (disk, renamed, err)" by (metis prod_cases3)
  have l': "(l', res) = (case err of
      Some e \<Rightarrow> ((if renamed then l\<lparr>lg_disk := disk, lg_failed := Some LedgerUncertain\<rparr> else l\<lparr>lg_disk := disk\<rparr>), Some e)
    | None \<Rightarrow> (l\<lparr>lg_disk := disk, lg_entries := nxt\<rparr>, None))"
    using assms(1) True p unfolding nxt_def by (cases err) (auto simp: saveLocked_def detached_def Let_def)
  from p show thesis
    by (cases rule: publish_cases) (use True l' in \<open>auto intro: refused uncertain saved\<close>)
next
  case False
  then show thesis using assms(1) by (cases "lg_failed l"; intro refused) (auto simp: saveLocked_def Let_def split: option.splits)
qed

lemma saved_map:
  assumes "ledger_inv l"
  shows "wf_map (detached (put tid e (lg_entries l)))"
    and "map_of (detached (put tid e (lg_entries l))) tid' =
      (if tid' = tid then Some (detach e) else map_of (lg_entries l) tid')"
proof -
  have same: "all_detached (lg_entries l)" using assms by (simp add: ledger_inv_def)
  show "wf_map (detached (put tid e (lg_entries l)))" using assms by (simp add: ledger_inv_def)
  show "map_of (detached (put tid e (lg_entries l))) tid' =
      (if tid' = tid then Some (detach e) else map_of (lg_entries l) tid')"
    using detached_same [OF same, of tid'] by (cases "map_of (lg_entries l) tid'") auto
qed

lemma save_inv:
  assumes "saveLocked now encErr env entry l = (l', res)" "ledger_inv l"
  shows "ledger_inv l'"
  using assms(1)
proof (cases rule: save_cases)
  case refused
  then show ?thesis using assms(2) by simp
next
  case uncertain
  show ?thesis unfolding uncertain(2)
    using assms(2) saved_map(1) [OF assms(2)] by (simp add: ledger_inv_def content_def)
next
  case saved
  show ?thesis unfolding saved(2)
    using assms(2) saved_map(1) [OF assms(2)] by (simp add: ledger_inv_def content_def)
qed

lemma swap_cases:
  assumes "CompareAndSwap now encErr env expected entry l = (l', res)"
  obtains (refused) "l' = l" "res \<noteq> None"
  | (tried) "lg_failed l = None" "map_option detach (map_of (lg_entries l) (e_TaskID entry)) = map_option detach expected"
      "saveLocked now encErr env entry l = (l', res)"
proof (cases "lg_failed l")
  case None
  then show thesis using assms by (auto simp: CompareAndSwap_def split: option.splits if_splits intro: refused tried)
next
  case (Some e)
  show thesis by (rule refused) (use assms Some in \<open>simp_all add: CompareAndSwap_def, metis option.distinct(1)\<close>)
qed

lemma reopen_state:
  assumes "Open_ledger (disk_file l) = Inr l'"
  shows "l' = \<lparr>lg_entries = content l, lg_failed = None, lg_disk = lg_disk l\<rparr>"
  using assms by (auto simp: Open_ledger_def disk_file_def content_def split: option.splits)

lemma ledger_step_inv: "ledger_step l e l' \<Longrightarrow> ledger_inv l \<Longrightarrow> ledger_inv l'"
proof (induction rule: ledger_step.induct)
  case (save now encErr env entry l l' res)
  then show ?case using save_inv unfolding Save_def by blast
next
  case (swap now encErr env expected entry l l' res)
  from swap(1) show ?case by (cases rule: swap_cases) (use swap(2) save_inv in auto)
next
  case (reopen l l')
  then show ?case using reopen_state [OF reopen(1)] by (simp add: ledger_inv_def content_def)
qed

subsection \<open>Properties\<close>

fun created_by :: "ledger_event \<Rightarrow> string list" where
  "created_by (LSwap None entry None) = [e_TaskID entry]"
| "created_by _ = []"

lemma save_keys:
  assumes "saveLocked now encErr env entry l = (l', res)" "ledger_inv l"
  shows "keys (content l) \<subseteq> keys (content l')" "res = None \<Longrightarrow> e_TaskID entry \<in> keys (content l')"
proof -
  have "keys (content l) \<subseteq> keys (content l') \<and> (res = None \<longrightarrow> e_TaskID entry \<in> keys (content l'))"
    using assms(1)
  proof (cases rule: save_cases)
    case uncertain
    then have "content l = lg_entries l" using assms(2) by (simp add: ledger_inv_def)
    moreover have "content l' = detached (put (e_TaskID entry) (entry\<lparr>e_UpdatedAt := now\<rparr>) (lg_entries l))"
      by (simp add: uncertain(2) content_def)
    ultimately show ?thesis by auto
  next
    case saved
    then have "content l = lg_entries l" using assms(2) by (simp add: ledger_inv_def)
    moreover have "content l' = detached (put (e_TaskID entry) (entry\<lparr>e_UpdatedAt := now\<rparr>) (lg_entries l))"
      by (simp add: saved(2) content_def)
    ultimately show ?thesis by auto
  qed auto
  then show "keys (content l) \<subseteq> keys (content l')" "res = None \<Longrightarrow> e_TaskID entry \<in> keys (content l')" by blast+
qed

lemma ledger_keys_grow: "ledger_step l e l' \<Longrightarrow> ledger_inv l \<Longrightarrow> keys (content l) \<subseteq> keys (content l')"
proof (induction rule: ledger_step.induct)
  case (save now encErr env entry l l' res)
  then show ?case using save_keys(1) unfolding Save_def by blast
next
  case (swap now encErr env expected entry l l' res)
  from swap(1) show ?case
  proof (cases rule: swap_cases)
    case tried
    then show ?thesis using save_keys(1) swap(2) by blast
  qed simp
next
  case (reopen l l')
  then show ?case using reopen_state [OF reopen(1)] by (simp add: content_def)
qed

lemma created_step:
  assumes "ledger_step l e l'" "tid \<in> set (created_by e)"
  obtains now encErr env entry where "tid = e_TaskID entry" "lg_failed l = None" "map_of (lg_entries l) tid = None"
    "saveLocked now encErr env entry l = (l', None)"
  using assms(1)
proof (cases rule: ledger_step.cases)
  case (swap now encErr env expected entry res)
  then have "expected = None" "res = None" "tid = e_TaskID entry"
    using assms(2) by (cases e rule: created_by.cases; auto)+
  with swap(2) show thesis by (cases rule: swap_cases) (auto intro: that)
qed (use assms(2) in auto)

interpretation records: single_use_system ledger_step ledger_inv created_by "\<lambda>l tid. tid \<in> keys (content l)"
proof
  fix l e l' tid
  assume step: "ledger_step l e l'" and inv: "ledger_inv l"
  show "ledger_inv l'" by (rule ledger_step_inv [OF step inv])
  show "distinct (created_by e)" by (cases e rule: created_by.cases) auto
  show "tid \<notin> keys (content l)" if t: "tid \<in> set (created_by e)"
  proof (rule created_step [OF step t])
    assume "lg_failed l = None" "map_of (lg_entries l) tid = None"
    then show ?thesis using inv by (simp add: ledger_inv_def map_of_eq_None_iff)
  qed
  show "tid \<in> keys (content l')" if t: "tid \<in> set (created_by e)"
  proof (rule created_step [OF step t])
    fix now encErr env entry
    assume "tid = e_TaskID entry" "saveLocked now encErr env entry l = (l', None)"
    then show ?thesis using save_keys(2) inv by blast
  qed
  show "tid \<in> keys (content l')" if "tid \<in> keys (content l)"
    using ledger_keys_grow [OF step inv] that by blast
qed

lemma ledger_start: "Open_ledger NoFile = Inr l \<Longrightarrow> ledger_inv l"
  by (auto simp: Open_ledger_def ledger_inv_def content_def all_detached_def)

text \<open>
  a task record is created at most once. In every run of a ledger that starts without a
  file, with failing publications and reopenings in between, at most one \<open>CompareAndSwap\<close>
  that expects the absence of a given task's record succeeds.
\<close>

theorem records_created_once:
  assumes "Open_ledger NoFile = Inr l" "runs ledger_step l es l'"
  shows "distinct (concat (map created_by es))"
  by (rule records.uses_distinct [OF assms(2) ledger_start [OF assms(1)]])

definition sample_entry :: Entry where
  "sample_entry = \<lparr>e_TaskID = ''task-1'', e_Status = ''succeeded'', e_Result = Some (JObject [(''ok'', JLiteral ''true'')]),
     e_Error = None, e_UpdatedAt = 0\<rparr>"

definition good_disk :: publish_env where
  "good_disk = \<lparr>pe_mkdir = None, pe_lstat = None, pe_regular = True, pe_open = None, pe_create = None, pe_write = None,
     pe_sync = None, pe_close = None, pe_rename = None, pe_dirSync = None\<rparr>"

definition empty_ledger :: Ledger where
  "empty_ledger = \<lparr>lg_entries = [], lg_failed = None, lg_disk = None\<rparr>"

lemma empty_ledger_open: "Open_ledger NoFile = Inr empty_ledger"
  by (simp add: Open_ledger_def empty_ledger_def)

theorem records_created_once_witness:
  "\<exists>l. runs ledger_step empty_ledger [LSwap None sample_entry None] l \<and>
     distinct (concat (map created_by [LSwap None sample_entry None]))"
proof -
  obtain l where "CompareAndSwap 5 None good_disk None sample_entry empty_ledger = (l, None)"
    by (simp add: CompareAndSwap_def saveLocked_def publish_def good_disk_def empty_ledger_def Let_def)
  then have run: "runs ledger_step empty_ledger [LSwap None sample_entry None] l"
    using runs_Cons [OF ledger_step.swap runs_Nil [where step = ledger_step]] by blast
  from records_created_once [OF empty_ledger_open run] run show ?thesis by blast
qed

text \<open>
  C23: the ledger is a durable map. After any history of operations, failed publications and
  reopenings: a save that reports success is what every later read returns, from this object
  and from one opened on the file afterwards, and leaves other records alone; a save that
  fails before the rename changes nothing; and a save whose rename may have happened makes
  the object refuse every operation until the file is read again.
\<close>

theorem ledger_is_durable_map:
  assumes "Open_ledger NoFile = Inr l0" "runs ledger_step l0 es l" "Save now encErr env entry l = (l', res)"
  shows "(res = None \<longrightarrow>
      (\<forall>tid. Get tid l' = Inr (if tid = e_TaskID entry then Some (detach (entry\<lparr>e_UpdatedAt := now\<rparr>))
                              else map_of (content l) tid)) \<and>
      (\<exists>l''. Open_ledger (disk_file l') = Inr l'' \<and> (\<forall>tid. Get tid l'' = Get tid l'))) \<and>
    (res \<noteq> None \<and> lg_failed l' = None \<longrightarrow> l' = l) \<and>
    (lg_failed l' \<noteq> None \<longrightarrow> (\<forall>tid. \<exists>e. Get tid l' = Inl e) \<and>
      (\<forall>now encErr env expected entry. fst (CompareAndSwap now encErr env expected entry l') = l' \<and>
         snd (CompareAndSwap now encErr env expected entry l') \<noteq> None))"
proof -
  have inv: "ledger_inv l" by (rule records.runs_inv [OF assms(2) ledger_start [OF assms(1)]])
  have inv': "ledger_inv l'" using save_inv [OF _ inv] assms(3) unfolding Save_def by blast
  have failed: "(\<exists>e. Get tid l' = Inl e) \<and> fst (CompareAndSwap now encErr env expected entry l') = l' \<and>
      snd (CompareAndSwap now encErr env expected entry l') \<noteq> None" if "lg_failed l' \<noteq> None"
    for tid now encErr env expected entry
    using that by (auto simp: Get_def CompareAndSwap_def)
  have get: "Get tid l'' = Inr (map_of (lg_entries l'') tid)" if "lg_failed l'' = None" "all_detached (lg_entries l'')"
    for l'' tid
    using that detached_same [OF that(2)] by (cases "map_of (lg_entries l'') tid") (auto simp: Get_def)
  have reopen: "\<exists>l''. Open_ledger (disk_file l') = Inr l'' \<and> (\<forall>tid. Get tid l'' = Get tid l')" if "lg_failed l' = None"
    using that inv' by (cases "lg_disk l'") (auto simp: Open_ledger_def disk_file_def Get_def ledger_inv_def content_def)
  from assms(3) [unfolded Save_def] show ?thesis
  proof (cases rule: save_cases)
    case refused
    then show ?thesis using failed by blast
  next
    case uncertain
    have "lg_failed l' \<noteq> None" by (simp add: uncertain(2))
    then show ?thesis using failed uncertain(3) by blast
  next
    case saved
    have "lg_failed l' = None" "all_detached (lg_entries l')" "content l = lg_entries l"
      using saved(1,2) inv inv' by (simp_all add: ledger_inv_def)
    then show ?thesis using reopen get [of l'] saved_map(2) [OF inv] saved(3) by (simp add: saved(2))
  qed
qed

theorem ledger_is_durable_map_witness:
  "Get ''task-1'' (fst (Save 5 None good_disk sample_entry empty_ledger)) = Inr (Some (sample_entry\<lparr>e_UpdatedAt := 5\<rparr>))"
proof -
  obtain l where s: "Save 5 None good_disk sample_entry empty_ledger = (l, None)"
    by (simp add: Save_def saveLocked_def publish_def good_disk_def empty_ledger_def Let_def)
  have "e_TaskID sample_entry = ''task-1''" "detach (sample_entry\<lparr>e_UpdatedAt := 5\<rparr>) = sample_entry\<lparr>e_UpdatedAt := 5\<rparr>"
    by (simp_all add: sample_entry_def detach_def omit_empty_def)
  then show ?thesis
    using ledger_is_durable_map [OF empty_ledger_open runs_Nil [where step = ledger_step] s] by (simp add: s)
qed

end
