(* ===== verification/Worker.thy ===== *)
theory Worker
  imports Connection Ledger
begin

section \<open>The worker\<close>

text \<open>
  \<open>worker/worker.go\<close> and \<open>worker/task_lease.go\<close>: admission by the Server, the retry delays of the
  operation loops and the budget of a task lease. What the control plane and the probes answer
  is an argument.
\<close>

subsection \<open>Admission\<close>

record admission =
  ad_enrollment :: bool
  ad_enrollmentKnown :: bool
  ad_execution :: bool
  ad_executionKnown :: bool

definition New_admission :: "string \<Rightarrow> admission" where
  "New_admission serverURL =
     (let initialServerAdmission = (serverURL = []) in
      \<lparr>ad_enrollment = initialServerAdmission, ad_enrollmentKnown = (serverURL \<noteq> []),
       ad_execution = initialServerAdmission, ad_executionKnown = (serverURL \<noteq> [])\<rparr>)"

text \<open>\<open>Heartbeat\<close>: the answer of the Server is an error or the two optional fields.\<close>

definition Heartbeat :: "string + bool option \<times> bool option \<Rightarrow> admission \<Rightarrow> admission \<times> string option" where
  "Heartbeat response a =
     (case response of Inl e \<Rightarrow> (a, Some e)
      | Inr (enrollmentEnabled, executionAdmission) \<Rightarrow>
          (if enrollmentEnabled \<noteq> None \<or> executionAdmission \<noteq> None
           then (\<lparr>ad_enrollment = (enrollmentEnabled = Some True), ad_enrollmentKnown = True,
                  ad_execution = (executionAdmission = Some True), ad_executionKnown = True\<rparr>, None)
           else (\<lparr>ad_enrollment = True, ad_enrollmentKnown = False,
                  ad_execution = True, ad_executionKnown = False\<rparr>, None)))"

definition serverAdmissionAllowed :: "admission \<Rightarrow> bool" where
  "serverAdmissionAllowed a = ad_execution a"

definition serverEnrollmentAllowed :: "admission \<Rightarrow> bool" where
  "serverEnrollmentAllowed a = ad_enrollment a"

text \<open>The admission part of \<open>egoBrowserProbeConfig\<close>: execution, whether it is known, enrollment.\<close>

definition probe_admission :: "admission \<Rightarrow> bool \<times> bool \<times> bool option" where
  "probe_admission a =
     (serverAdmissionAllowed a, ad_executionKnown a,
      if ad_enrollmentKnown a then Some (serverEnrollmentAllowed a) else None)"

definition heartbeats :: "(string + bool option \<times> bool option) list \<Rightarrow> admission \<Rightarrow> admission" where
  "heartbeats rs a = foldl (\<lambda>a r. fst (Heartbeat r a)) a rs"

subsection \<open>Retries\<close>

function grow_delay :: "int \<Rightarrow> int \<Rightarrow> gotime \<Rightarrow> gotime \<Rightarrow> gotime" where
  "grow_delay attempt failures maximum delay =
     (if attempt < failures \<and> delay < maximum then grow_delay (attempt + 1) failures maximum (delay * 2) else delay)"
  by pat_completeness auto
termination by (relation "measure (\<lambda>(attempt, failures, _). nat (failures - attempt))") auto

declare grow_delay.simps [simp del]

definition retryDelay :: "int \<Rightarrow> gotime \<Rightarrow> gotime \<Rightarrow> gotime \<Rightarrow> gotime" where
  "retryDelay failures interval initial maximum =
     (let delay = grow_delay 1 failures maximum initial;
          delay = (if delay > maximum then maximum else delay)
      in if interval > 0 \<and> delay > interval then interval else delay)"

text \<open>
  One turn of \<open>runOperationLoop\<close> after its wait: \<open>None\<close> ends the loop, otherwise the failures
  and the next delay. \<open>ended\<close> tells whether the context ended during the operation.
\<close>

definition operation_turn :: "gotime \<Rightarrow> bool \<Rightarrow> bool \<Rightarrow> 'e option \<Rightarrow> int \<Rightarrow> (int \<times> gotime) option" where
  "operation_turn interval stopAfterSuccess ended err failures =
     (if ended then None
      else (case err of
              None \<Rightarrow> if stopAfterSuccess then None else Some (0, interval)
            | Some _ \<Rightarrow> Some (failures + 1, retryDelay (failures + 1) interval second (30 * second))))"

subsection \<open>Task leases\<close>

record taskLeaseTiming =
  tl_ServerTime :: gotime
  tl_LeaseUntil :: gotime
  tl_RenewAfterMilliseconds :: int

record taskLeaseBudget =
  tb_deadline :: gotime
  tb_renewAfter :: gotime

text \<open>
  \<open>renewTaskBudget\<close> with the clock before and after the call. \<open>Inl ()\<close> is \<open>lost\<close>. Division of
  durations truncates, which for a positive duration is \<open>div\<close>.
\<close>

definition renewTaskBudget :: "gotime \<Rightarrow> gotime \<Rightarrow> taskLeaseTiming option \<Rightarrow> unit + taskLeaseBudget" where
  "renewTaskBudget started answered lease =
     (case lease of None \<Rightarrow> Inl ()
      | Some l \<Rightarrow>
          (let duration = tl_LeaseUntil l - tl_ServerTime l;
               remaining = started + duration - answered in
           if tl_RenewAfterMilliseconds l \<le> 0 \<or> tl_RenewAfterMilliseconds l > 300000 then Inl ()
           else (let interval = tl_RenewAfterMilliseconds l * millisecond in
                 if duration \<le> 0 \<or> duration > 300 * second \<or> remaining \<le> 0 \<or> interval \<le> 0 \<or> interval \<ge> duration
                   then Inl ()
                 else (let interval = (if interval > remaining div 3 then remaining div 3 else interval) in
                       if interval \<le> 0 then Inl ()
                       else Inr \<lparr>tb_deadline = started + duration, tb_renewAfter = interval\<rparr>))))"

text \<open>One turn of \<open>maintainTaskLease\<close> when the timer fires.\<close>

definition maintain_turn :: "gotime \<Rightarrow> gotime \<Rightarrow> gotime \<Rightarrow> taskLeaseTiming option \<Rightarrow> taskLeaseBudget \<Rightarrow> unit + taskLeaseBudget" where
  "maintain_turn now started answered lease budget =
     (if \<not> now < tb_deadline budget then Inl () else renewTaskBudget started answered lease)"

text \<open>
  The end of \<open>withTaskLease\<close>: the cause the work context was cancelled with, the clock and the
  last budget decide whether the result of the work counts.
\<close>

definition lease_outcome :: "'e option \<Rightarrow> 'e \<Rightarrow> gotime \<Rightarrow> taskLeaseBudget \<Rightarrow> 'e option \<Rightarrow> 'e option" where
  "lease_outcome cause lost now budget workErr =
     (case cause of Some c \<Rightarrow> Some c
      | None \<Rightarrow> if \<not> now < tb_deadline budget then Some lost else workErr)"

subsection \<open>Properties of admission, retries and leases\<close>

text \<open>
  C24: admission fails closed. A worker with a Server starts without admission; after any
  heartbeats, failed ones included, execution is admitted exactly when the last answer that
  arrived admitted it explicitly or was the empty acknowledgement of an older Server; a field
  that is missing beside the other one denies.
\<close>

theorem admission_fails_closed:
  assumes "serverURL \<noteq> []"
  shows "serverAdmissionAllowed (heartbeats rs (New_admission serverURL)) \<longleftrightarrow>
    (\<exists>rs' r rs''. rs = rs' @ Inr r # rs'' \<and> (\<forall>x \<in> set rs''. \<exists>e. x = Inl e) \<and>
       (snd r = Some True \<or> r = (None, None)))"
proof (induction rs rule: rev_induct)
  case Nil
  then show ?case using assms by (simp add: heartbeats_def New_admission_def serverAdmissionAllowed_def Let_def)
next
  case (snoc r rs)
  let ?ok = "\<lambda>rs. \<exists>rs' r rs''. rs = rs' @ Inr r # rs'' \<and> (\<forall>x \<in> set rs''. \<exists>e. x = Inl e) \<and>
       (snd r = Some True \<or> r = (None, None))"
  show ?case
  proof (cases r)
    case (Inl e)
    have "?ok (rs @ [r]) \<longleftrightarrow> ?ok rs"
    proof
      assume "?ok (rs @ [r])"
      then obtain rs' x rs'' where eq: "rs @ [r] = rs' @ Inr x # rs''" and fails: "\<forall>x \<in> set rs''. \<exists>e. x = Inl e"
        and x: "snd x = Some True \<or> x = (None, None)" by blast
      have "rs'' \<noteq> []" using eq Inl by (cases rs'' rule: rev_cases) auto
      then obtain ys y where "rs'' = ys @ [y]" by (cases rs'' rule: rev_cases) auto
      then show "?ok rs" using eq fails x by (intro exI [of _ rs'] exI [of _ x] exI [of _ ys]) auto
    next
      assume "?ok rs"
      then obtain rs' x rs'' where "rs = rs' @ Inr x # rs''" "\<forall>x \<in> set rs''. \<exists>e. x = Inl e"
        "snd x = Some True \<or> x = (None, None)" by blast
      then show "?ok (rs @ [r])" using Inl by (intro exI [of _ rs'] exI [of _ x] exI [of _ "rs'' @ [r]"]) auto
    qed
    then show ?thesis using snoc Inl by (simp add: heartbeats_def Heartbeat_def)
  next
    case (Inr x)
    have "?ok (rs @ [r]) \<longleftrightarrow> snd x = Some True \<or> x = (None, None)"
    proof
      assume "?ok (rs @ [r])"
      then obtain rs' y rs'' where eq: "rs @ [r] = rs' @ Inr y # rs''" and fails: "\<forall>x \<in> set rs''. \<exists>e. x = Inl e"
        and y: "snd y = Some True \<or> y = (None, None)" by blast
      have "rs'' = []" using eq fails Inr by (cases rs'' rule: rev_cases) auto
      then show "snd x = Some True \<or> x = (None, None)" using eq y Inr by simp
    next
      assume "snd x = Some True \<or> x = (None, None)"
      then show "?ok (rs @ [r])" using Inr by (intro exI [of _ rs] exI [of _ x] exI [of _ "[]"]) auto
    qed
    then show ?thesis using Inr
      by (cases x) (auto simp: heartbeats_def Heartbeat_def serverAdmissionAllowed_def)
  qed
qed

theorem admission_fails_closed_witness:
  "\<not> serverAdmissionAllowed (heartbeats [Inr (Some True, None), Inl ''timeout''] (New_admission ''https://s''))"
  using admission_fails_closed [of "''https://s''" "[Inr (Some True, None), Inl ''timeout'']"]
  by (auto simp: append_eq_Cons_conv Cons_eq_append_conv)

lemma grow_delay_bounds:
  assumes "0 < delay" "delay \<le> 2 * maximum"
  shows "delay \<le> grow_delay attempt failures maximum delay \<and> grow_delay attempt failures maximum delay \<le> 2 * maximum"
  using assms
proof (induction attempt failures maximum delay rule: grow_delay.induct)
  case (1 attempt failures maximum delay)
  then show ?case by (subst (1 2) grow_delay.simps) fastforce
qed

lemma grow_delay_stop: "\<not> (attempt < failures \<and> delay < maximum) \<Longrightarrow> grow_delay attempt failures maximum delay = delay"
  by (subst grow_delay.simps) (rule if_not_P)

lemma grow_delay_mono:
  assumes "0 < delay" "failures \<le> failures'"
  shows "min (grow_delay attempt failures maximum delay) maximum \<le> min (grow_delay attempt failures' maximum delay) maximum"
  using assms
proof (induction attempt failures maximum delay rule: grow_delay.induct)
  case (1 attempt failures maximum delay)
  show ?case
  proof (cases "attempt < failures \<and> delay < maximum")
    case True
    then show ?thesis using 1 by (subst (1 2) grow_delay.simps) simp
  next
    case False
    have "min delay maximum \<le> min (grow_delay attempt failures' maximum delay) maximum"
    proof (cases "delay \<le> 2 * maximum")
      case True
      then show ?thesis using grow_delay_bounds [OF "1.prems"(1) True, of attempt failures'] by (auto simp: min_def)
    next
      case big: False
      then show ?thesis using "1.prems"(1) by (subst grow_delay.simps) simp
    qed
    then show ?thesis by (simp add: grow_delay_stop [OF False])
  qed
qed

text \<open>
  retries back off within bounds. The delay after a failure is positive, at least the
  initial one unless the regular interval is shorter, never more than the maximum nor than the
  regular interval, and never shrinks as failures accumulate; the doubling itself never
  exceeds twice the maximum, far from the range of a duration.
\<close>

theorem retry_delay_bounds:
  assumes "0 < initial" "initial \<le> maximum" "0 < interval"
  shows "0 < retryDelay failures interval initial maximum \<and>
    min initial interval \<le> retryDelay failures interval initial maximum \<and>
    retryDelay failures interval initial maximum \<le> maximum \<and> retryDelay failures interval initial maximum \<le> interval \<and>
    (failures \<le> failures' \<longrightarrow>
       retryDelay failures interval initial maximum \<le> retryDelay failures' interval initial maximum) \<and>
    grow_delay 1 failures maximum initial \<le> 2 * maximum"
proof -
  have le: "initial \<le> 2 * maximum" using assms by simp
  have delay: "retryDelay n interval initial maximum = min (min (grow_delay 1 n maximum initial) maximum) interval" for n
    using assms(3) by (simp add: retryDelay_def Let_def)
  have mono: "retryDelay failures interval initial maximum \<le> retryDelay failures' interval initial maximum"
    if "failures \<le> failures'"
    unfolding delay by (rule min.mono [OF grow_delay_mono [OF assms(1) that] order_refl])
  show ?thesis
    using grow_delay_bounds [OF assms(1) le, of 1 failures] assms mono unfolding delay by auto
qed

theorem retry_delay_bounds_witness:
  "retryDelay 3 (60 * second) second (30 * second) \<le> 30 * second \<and>
   retryDelay 3 (60 * second) second (30 * second) \<le> retryDelay 9 (60 * second) second (30 * second)"
  using retry_delay_bounds [of second "30 * second" "60 * second" 3 9] by simp

text \<open>
  C25: a task lease is never believed longer than the Server granted it. A budget that is
  accepted ends at most five minutes after the request was sent and not after the granted
  duration counted from any instant at which the Server can have granted it, whatever the two
  clocks show; the renewal is due at most after a third of what is left when the answer
  arrives; and the result of the work counts only if the work was not cancelled and the
  budget has not run out.
\<close>

theorem task_lease_conservative:
  assumes "renewTaskBudget started answered (Some lease) = Inr budget" "started \<le> granted"
  shows "tb_deadline budget \<le> granted + (tl_LeaseUntil lease - tl_ServerTime lease) \<and>
    tb_deadline budget \<le> started + 300 * second \<and> answered < tb_deadline budget \<and>
    0 < tb_renewAfter budget \<and> 3 * tb_renewAfter budget \<le> tb_deadline budget - answered \<and>
    (lease_outcome cause lost now budget None = None \<longrightarrow> cause = None \<and> now < tb_deadline budget) \<and>
    (\<not> now < tb_deadline budget \<longrightarrow> maintain_turn now s a l budget = Inl ())"
proof -
  have "tb_deadline budget = started + (tl_LeaseUntil lease - tl_ServerTime lease)"
    "tl_LeaseUntil lease - tl_ServerTime lease \<le> 300 * second" "answered < tb_deadline budget"
    "0 < tb_renewAfter budget" "tb_renewAfter budget \<le> (tb_deadline budget - answered) div 3"
    using assms(1) by (auto simp: renewTaskBudget_def Let_def split: if_splits)
  moreover have "cause = None \<and> now < tb_deadline budget" if "lease_outcome cause lost now budget None = None"
    using that by (auto simp: lease_outcome_def split: option.splits if_splits)
  ultimately show ?thesis using assms(2) by (auto simp: maintain_turn_def)
qed

theorem task_lease_conservative_witness:
  "\<exists>budget. renewTaskBudget 0 second (Some \<lparr>tl_ServerTime = 5 * second, tl_LeaseUntil = 65 * second,
      tl_RenewAfterMilliseconds = 20000\<rparr>) = Inr budget \<and> tb_deadline budget \<le> 60 * second"
proof -
  let ?lease = "\<lparr>tl_ServerTime = 5 * second, tl_LeaseUntil = 65 * second, tl_RenewAfterMilliseconds = 20000\<rparr>"
  obtain budget where b: "renewTaskBudget 0 second (Some ?lease) = Inr budget" by (simp add: renewTaskBudget_def Let_def)
  have "tb_deadline budget \<le> 60 * second"
    using conjunct1 [OF task_lease_conservative [OF b, where granted = 0]] by simp
  with b show ?thesis by blast
qed

end
