(* ===== verification/Worker_Tasks.thy ===== *)
theory Worker_Tasks
  imports Worker
begin

section \<open>Executing tasks\<close>

text \<open>
  \<open>executeTask\<close> of \<open>worker/worker.go\<close> against the ledger, with the validation of stop and
  cleanup tasks (\<open>worker/session_lifecycle.go\<close>) and the errors that are reported for a failed
  task (\<open>worker/account_runtime.go\<close>, \<open>worker/config_import.go\<close>). A call of the control plane or of
  the task's own executor is an element of the trace the execution returns, and what it answers
  is an argument. The handlers of managed sessions, deployments, takeovers and recoveries are
  routes: the trace names them and ends there.
\<close>

subsection \<open>Tasks\<close>

record TaskEnvelope =
  t_TaskID :: string
  t_NodeID :: string
  t_TaskType :: string
  t_IdempotencyKey :: string
  t_Payload :: "(string \<times> json_value) list"

text \<open>
  \<open>strings.EqualFold\<close> of a key with an ASCII name: the letters fold in pairs, and two other
  characters fold onto an ASCII letter, the long s (bytes 197 191) and the Kelvin sign (226 132 170).
\<close>

definition fold_char :: "char \<Rightarrow> nat" where
  "fold_char c = (if 65 \<le> (of_char c :: nat) \<and> (of_char c :: nat) \<le> 90 then of_char c + 32 else of_char c)"

fun fold_bytes :: "nat list \<Rightarrow> nat list" where
  "fold_bytes (a # b # c # rest) =
     (if a = 197 \<and> b = 191 then 115 # fold_bytes (c # rest)
      else if a = 226 \<and> b = 132 \<and> c = 170 then 107 # fold_bytes rest
      else a # fold_bytes (b # c # rest))"
| "fold_bytes [a, b] = (if a = 197 \<and> b = 191 then [115] else [a, b])"
| "fold_bytes [a] = [a]"
| "fold_bytes [] = []"

definition equalFold :: "string \<Rightarrow> string \<Rightarrow> bool" where
  "equalFold key name = (fold_bytes (map fold_char key) = map fold_char name)"

datatype task_error =
    HelperError string string
  | RemoteError string string
  | ManagedSkillsUnsupported
  | OwnsPath
  | StopPending
  | DeploymentPending
  | LedgerError ledger_error
  | OtherError string

definition deploymentTask :: "TaskEnvelope \<Rightarrow> bool" where
  "deploymentTask task = (t_TaskType task = ''prepare_account_skills'' \<or> has_prefix ''prepare_account_skills:'' (t_TaskID task))"

definition managedStopTask :: "TaskEnvelope \<Rightarrow> bool" where
  "managedStopTask task =
     (t_TaskType task = ''stop_tool_session'' \<and> list_ex (\<lambda>key. equalFold key ''skill_finalization'') (map fst (t_Payload task)))"

definition RequireLegacySkillStartup :: "(string \<times> json_value) list \<Rightarrow> task_error option" where
  "RequireLegacySkillStartup payload =
     (if list_ex (\<lambda>key. equalFold key ''skill_manager'') (map fst payload) then Some ManagedSkillsUnsupported else None)"

definition sessionStopPending :: "task_error \<Rightarrow> bool" where
  "sessionStopPending err =
     (err = StopPending \<or> (case err of HelperError code _ \<Rightarrow> code = ''SESSION_STOP_PENDING'' | _ \<Rightarrow> False))"

definition isConfigImportOwnershipError :: "TaskEnvelope \<Rightarrow> task_error \<Rightarrow> bool" where
  "isConfigImportOwnershipError task err =
     (t_TaskType task = ''import_tool_account_config'' \<and>
      (case err of HelperError code _ \<Rightarrow> code = ''SKILL_MANAGER_OWNS_PATH''
       | RemoteError code _ \<Rightarrow> code = ''SKILL_MANAGER_OWNS_PATH'' | OwnsPath \<Rightarrow> True | _ \<Rightarrow> False))"


definition accountMigrationTaskError :: "TaskEnvelope \<Rightarrow> task_error \<Rightarrow> (string \<times> string) option" where
  "accountMigrationTaskError task err =
     (if t_TaskType task \<notin> set [''create_tool_session'', ''create_binding_session'', ''migrate_tool_account_runtime'',
            ''import_tool_account_config''] then None
      else (case err of
              RemoteError code _ \<Rightarrow>
                if code = ''RUNTIME_MIGRATION_PENDING''
                then Some (code, ''Retained backend migration prevents new account writes.'') else None
            | HelperError code _ \<Rightarrow>
                if code = ''STATE_MIGRATION_PENDING''
                   \<or> t_TaskType task = ''migrate_tool_account_runtime''
                     \<and> code \<in> set [''STATE_COPY_PENDING'', ''STATE_COPY_FAILED'', ''STATE_MIGRATION_FAILED'']
                then Some (code, ''Backend migration requires inspection; original account and retained writer evidence remain protected.'')
                else if code = ''MIGRATION_PENDING''
                then Some (''MIGRATION_PENDING'', ''Account skill migration prevents starting a legacy runtime or changing its backend.'')
                else None
            | _ \<Rightarrow> None))"

definition configImportReceiptError :: "TaskEnvelope \<Rightarrow> task_error \<Rightarrow> (string \<times> string) option" where
  "configImportReceiptError task err =
     (if t_TaskType task \<noteq> ''import_tool_account_config'' then None
      else (case err of
              HelperError code _ \<Rightarrow>
                if code = ''CONFIG_IMPORT_PENDING''
                then Some (code, ''Configuration import outcome requires reconciliation; files were not replayed.'')
                else if code = ''CONFIG_IMPORT_FAILED''
                then Some (code, ''Configuration import failed; files were not replayed.'')
                else None
            | _ \<Rightarrow> None))"

text \<open>The text of an error; the text of a Server error is built in \<open>api/client.go\<close> and carried as its second part.\<close>

fun error_text :: "task_error \<Rightarrow> string" where
  "error_text (HelperError code message) = ''runtime helper '' @ code @ '': '' @ message"
| "error_text (RemoteError code text) = text"
| "error_text ManagedSkillsUnsupported = ''managed skill session preparation is unavailable''"
| "error_text OwnsPath = ''SKILL_MANAGER_OWNS_PATH''"
| "error_text StopPending = ''SESSION_STOP_PENDING: original session termination requires observation''"
| "error_text DeploymentPending = ''DEPLOYMENT_PENDING: original skill deployment requires confirmation''"
| "error_text (LedgerError (LedgerIO text)) = text"
| "error_text (LedgerError (LedgerFormat text)) = text"
| "error_text (LedgerError ErrConflict) = ''task ledger record changed''"
| "error_text (LedgerError LedgerUncertain) = ''ledger publication is uncertain; reopen before executing tasks''"
| "error_text (OtherError text) = text"

definition contentSafeTaskError :: "TaskEnvelope \<Rightarrow> task_error \<Rightarrow> string \<times> string" where
  "contentSafeTaskError task err =
     (if t_TaskType task = ''create_tool_session'' \<and> err = ManagedSkillsUnsupported
      then (''SKILL_MANAGER_UNSUPPORTED'', ''Managed skill session preparation is unavailable on this Node.'')
      else (case accountMigrationTaskError task err of Some failure \<Rightarrow> failure
            | None \<Rightarrow>
                (case configImportReceiptError task err of Some failure \<Rightarrow> failure
                 | None \<Rightarrow>
                     if isConfigImportOwnershipError task err
                     then (''SKILL_MANAGER_OWNS_PATH'', ''Skill management owns this path; use account import-config --exclude-skills.'')
                     else if t_TaskType task = ''cancel_ego_browser_request''
                     then (''EGO_BROWSER_CANCELLATION_FAILED'', ''Cancellation could not be confirmed.'')
                     else (''NODE_TASK_FAILED'', error_text err))))"

subsection \<open>Stop and cleanup tasks\<close>

definition validStopTaskIdentity :: "TaskEnvelope \<Rightarrow> string \<Rightarrow> bool" where
  "validStopTaskIdentity task session =
     (if t_TaskID task = [] \<or> t_IdempotencyKey task \<noteq> t_TaskID task then False
      else (case (case map_of (t_Payload task) ''preserve_interrupted_status'' of
                    None \<Rightarrow> Some False
                  | Some raw \<Rightarrow> if raw = JLiteral ''true'' then Some True
                                 else if raw = JLiteral ''false'' then Some False else None) of
              None \<Rightarrow> False
            | Some preserve \<Rightarrow>
                if t_TaskID task = ''cleanup_tool_session:'' @ session then preserve
                else t_TaskID task = ''stop_tool_session:'' @ session \<and> \<not> preserve))"

text \<open>The loop over the identifiers; \<open>seen\<close> is the map of the source.\<close>

fun cleanup_ids :: "string list \<Rightarrow> json_value list \<Rightarrow> bool" where
  "cleanup_ids seen [] = True"
| "cleanup_ids seen (JString tid # rest) =
     (if tid = [] \<or> length tid > 128 \<or> tid \<in> set seen then False
      else if \<not> list_all label_char tid then False
      else cleanup_ids (tid # seen) rest)"
| "cleanup_ids seen (_ # rest) = False"

definition validateCleanupTask :: "string \<Rightarrow> TaskEnvelope \<Rightarrow> task_error option" where
  "validateCleanupTask nodeID task =
     (if t_NodeID task \<noteq> nodeID \<or> t_TaskID task = [] \<or> t_IdempotencyKey task \<noteq> t_TaskID task then Some StopPending
      else (case map_of (t_Payload task) ''runtime_backend'' of
              Some (JString backend) \<Rightarrow>
                if backend \<noteq> ''native'' \<and> backend \<noteq> ''docker_sandbox'' then Some StopPending
                else (case map_of (t_Payload task) ''session_ids'' of
                        Some (JArray ids) \<Rightarrow>
                          if ids = [] \<or> length ids > 100 \<or> \<not> cleanup_ids [] ids then Some StopPending else None
                      | _ \<Rightarrow> Some StopPending)
            | _ \<Rightarrow> Some StopPending))"

text \<open>
  \<open>DecodeStopPayload\<close>: the decoder's view of the payload is an argument, the session and the
  backend or its error.
\<close>

definition DecodeStopPayload :: "(string + string \<times> string) \<Rightarrow> string + string \<times> string" where
  "DecodeStopPayload decoded =
     (case decoded of Inl e \<Rightarrow> Inl e
      | Inr (sessionID, backend) \<Rightarrow>
          if sessionID = [] then Inl ''session_id is required''
          else Inr (sessionID, if backend = [] then ''docker_sandbox'' else backend))"

text \<open>What the sources outside this theory answer while a task is executed.\<close>

record task_env =
  te_decoded :: "string + string \<times> string"
  te_mapped :: bool
  te_managedStop :: bool
  te_recorded :: bool
  te_start :: "task_error option"
  te_execute :: "task_error + json_value option"
  te_complete :: "task_error option"
  te_fail :: "task_error option"
  te_now :: gotime
  te_encErr :: "string option"
  te_disk :: publish_env

definition recordSessionIntent :: "string \<Rightarrow> task_env \<Rightarrow> TaskEnvelope \<Rightarrow> task_error option" where
  "recordSessionIntent nodeID env task =
     (if t_TaskType task \<noteq> ''stop_tool_session'' \<or> t_NodeID task \<noteq> nodeID then Some StopPending
      else (case DecodeStopPayload (te_decoded env) of
              Inl _ \<Rightarrow> Some StopPending
            | Inr (sessionID, backend) \<Rightarrow>
                if backend \<noteq> ''native'' \<and> backend \<noteq> ''docker_sandbox'' then Some StopPending
                else if \<not> validStopTaskIdentity task sessionID then Some StopPending
                else if \<not> te_mapped env then Some StopPending
                else if managedStopTask task \<and> \<not> te_managedStop env then Some StopPending
                else if \<not> te_recorded env then Some StopPending
                else None))"

subsection \<open>The execution\<close>

datatype task_route = ToRecovery | ToDeployment | ToTakeover | ToManagedStop | ToManagedStartup

datatype task_call =
    Delegated task_route
  | Started
  | Executed
  | Completed "json_value option"
  | Failed "json_value option"

definition pending_status :: "string \<Rightarrow> bool" where
  "pending_status status =
     (status \<in> set [''deployment_prepared_pending'', ''deployment_prepared_confirmed'', ''deployment_termination_requested'',
        ''deployment_termination_revoked'', ''deployment_termination_drained'', ''deployment_termination_confirmed''])"

definition managed_start_status :: "string \<Rightarrow> bool" where
  "managed_start_status status =
     (status \<in> set [''managed_start_pending'', ''managed_start_confirmed'', ''managed_start_retired''])"

definition error_object :: "string \<times> string \<Rightarrow> json_value" where
  "error_object failure = JObject [(''code'', JString (fst failure)), (''message'', JString (snd failure))]"

text \<open>Recording a failure and reporting it; recording a result and reporting it.\<close>

definition report_failure :: "task_env \<Rightarrow> TaskEnvelope \<Rightarrow> task_error \<Rightarrow> task_call list \<Rightarrow> Ledger \<Rightarrow>
    Ledger \<times> task_call list \<times> task_error option" where
  "report_failure env task err calls l =
     (let taskError = Some (error_object (contentSafeTaskError task err)) in
      case Save (te_now env) (te_encErr env) (te_disk env)
             \<lparr>e_TaskID = t_TaskID task, e_Status = ''failed'', e_Result = None, e_Error = taskError, e_UpdatedAt = 0\<rparr> l of
        (l, Some saveErr) \<Rightarrow> (l, calls, Some (LedgerError saveErr))
      | (l, None) \<Rightarrow> (l, calls @ [Failed taskError], te_fail env))"

definition report_result :: "task_env \<Rightarrow> TaskEnvelope \<Rightarrow> json_value option \<Rightarrow> task_call list \<Rightarrow> Ledger \<Rightarrow>
    Ledger \<times> task_call list \<times> task_error option" where
  "report_result env task result calls l =
     (case Save (te_now env) (te_encErr env) (te_disk env)
             \<lparr>e_TaskID = t_TaskID task, e_Status = ''succeeded'', e_Result = result, e_Error = None, e_UpdatedAt = 0\<rparr> l of
        (l, Some saveErr) \<Rightarrow> (l, calls, Some (LedgerError saveErr))
      | (l, None) \<Rightarrow> (l, calls @ [Completed result], te_complete env))"

definition stop_task :: "TaskEnvelope \<Rightarrow> bool" where
  "stop_task task = (t_TaskType task = ''stop_tool_session'' \<or> t_TaskType task = ''cleanup_resources'')"

text \<open>The part from \<open>StartTask\<close> on.\<close>

definition run_task :: "task_env \<Rightarrow> TaskEnvelope \<Rightarrow> Ledger \<Rightarrow> Ledger \<times> task_call list \<times> task_error option" where
  "run_task env task l =
     (case te_start env of
        Some err \<Rightarrow> if isConfigImportOwnershipError task err then report_failure env task err [Started] l
                    else (l, [Started], Some err)
      | None \<Rightarrow>
          (case te_execute env of
             Inl err \<Rightarrow>
               if sessionStopPending err \<or> stop_task task then (l, [Started, Executed], Some StopPending)
               else report_failure env task err [Started, Executed] l
           | Inr result \<Rightarrow> report_result env task result [Started, Executed] l))"

text \<open>The part for a recorded outcome, \<open>observeOldStopTask\<close> included.\<close>

definition replay_outcome :: "task_env \<Rightarrow> TaskEnvelope \<Rightarrow> Entry \<Rightarrow> Ledger \<Rightarrow> Ledger \<times> task_call list \<times> task_error option" where
  "replay_outcome env task entry l =
     (let observed = (if stop_task task then [Executed] else []) in
      if stop_task task \<and> \<not> is_ok (te_execute env) then (l, observed, Some StopPending)
      else if e_Status entry = ''succeeded'' then (l, observed @ [Completed (e_Result entry)], te_complete env)
      else (l, observed @ [Failed (e_Error entry)], te_fail env))"

definition executeTask :: "string \<Rightarrow> task_env \<Rightarrow> TaskEnvelope \<Rightarrow> Ledger \<Rightarrow> Ledger \<times> task_call list \<times> task_error option" where
  "executeTask nodeID env task l =
     (if t_TaskType task = ''recover_tool_account_runtime'' then (l, [Delegated ToRecovery], None)
      else if deploymentTask task then (l, [Delegated ToDeployment], None)
      else if t_TaskType task = ''takeover_tool_account_skills'' then (l, [Delegated ToTakeover], None)
      else (case Get (t_TaskID task) l of
              Inl e \<Rightarrow> (l, [], Some (LedgerError e))
            | Inr found \<Rightarrow>
                let status = (case found of None \<Rightarrow> [] | Some entry \<Rightarrow> e_Status entry) in
                if pending_status status then (l, [], Some DeploymentPending)
                else if managedStopTask task then (l, [Delegated ToManagedStop], None)
                else if RequireLegacySkillStartup (t_Payload task) \<noteq> None \<or> managed_start_status status
                then (l, [Delegated ToManagedStartup], None)
                else if t_TaskType task = ''cleanup_resources'' \<and> validateCleanupTask nodeID task \<noteq> None
                then (l, [], validateCleanupTask nodeID task)
                else if t_TaskType task = ''stop_tool_session'' \<and> recordSessionIntent nodeID env task \<noteq> None
                then (l, [], recordSessionIntent nodeID env task)
                else (case found of
                        Some entry \<Rightarrow>
                          if e_Status entry = ''succeeded'' \<or> e_Status entry = ''failed''
                          then replay_outcome env task entry l
                          else run_task env task l
                      | None \<Rightarrow> run_task env task l)))"

definition task_calls :: "string \<Rightarrow> task_env \<Rightarrow> TaskEnvelope \<Rightarrow> Ledger \<Rightarrow> task_call list" where
  "task_calls nodeID env task l = fst (snd (executeTask nodeID env task l))"

subsection \<open>Properties\<close>

fun outcome_of :: "task_call \<Rightarrow> (string \<times> json_value option) option" where
  "outcome_of (Completed r) = Some (''succeeded'', omit_empty r)"
| "outcome_of (Failed r) = Some (''failed'', omit_empty r)"
| "outcome_of _ = None"

definition records :: "Entry \<Rightarrow> string \<times> json_value option \<Rightarrow> bool" where
  "records entry outcome \<longleftrightarrow> e_Status entry = fst outcome \<and>
     (if e_Status entry = ''succeeded'' then e_Result entry = snd outcome else e_Error entry = snd outcome)"

lemma omit_empty_idem [simp]: "omit_empty (omit_empty v) = omit_empty v"
  by (simp add: omit_empty_def)

lemma statuses_differ [simp]:
  "\<not> pending_status ''succeeded''" "\<not> pending_status ''failed''"
  "\<not> managed_start_status ''succeeded''" "\<not> managed_start_status ''failed''"
  by (simp_all add: pending_status_def managed_start_status_def)

text \<open>A successful save is read back, from this ledger and from the file.\<close>

lemma saved_get:
  assumes "Save now encErr env entry l = (l', None)" "ledger_inv l"
  shows "Get (e_TaskID entry) l' = Inr (Some (detach (entry\<lparr>e_UpdatedAt := now\<rparr>)))" "ledger_inv l'" "lg_failed l' = None"
proof -
  from assms(1) [unfolded Save_def]
  show "Get (e_TaskID entry) l' = Inr (Some (detach (entry\<lparr>e_UpdatedAt := now\<rparr>)))" "lg_failed l' = None"
    by (cases rule: save_cases; simp add: Get_def saved_map(2) [OF assms(2)])+
  show "ledger_inv l'" using save_inv assms unfolding Save_def by blast
qed

lemma reopened_get:
  assumes "ledger_inv l" "lg_failed l = None"
  obtains l' where "Open_ledger (disk_file l) = Inr l'" "\<And>tid. Get tid l' = Get tid l"
  using assms that by (cases "lg_disk l") (auto simp: Open_ledger_def disk_file_def Get_def ledger_inv_def content_def)

text \<open>Whatever the ledger holds for a task is all a later execution reports.\<close>

lemma recorded_outcome_replayed:
  assumes "Get (t_TaskID task) l = Inr (Some entry)" "records entry outcome" "outcome_of c0 = Some outcome"
    "executeTask nodeID env task l = (l', calls, res)"
  shows "l' = l \<and> Started \<notin> set calls \<and> (Executed \<in> set calls \<longrightarrow> stop_task task) \<and>
    (\<forall>c \<in> set calls. outcome_of c = None \<or> outcome_of c = Some outcome)"
proof -
  have status: "e_Status entry = ''succeeded'' \<or> e_Status entry = ''failed''"
    using assms(2,3) by (cases c0) (auto simp: records_def)
  have replay: "l' = l \<and> Started \<notin> set calls \<and> (Executed \<in> set calls \<longrightarrow> stop_task task) \<and>
      (\<forall>c \<in> set calls. outcome_of c = None \<or> outcome_of c = Some outcome)"
    if "replay_outcome env task entry l = (l', calls, res)"
    using that assms(2,3) by (cases c0) (auto simp: replay_outcome_def Let_def records_def split: if_splits)
  show ?thesis
    using assms(1,4) status replay by (auto simp: executeTask_def Let_def split: if_splits)
qed

lemma report_recorded:
  assumes "ledger_inv l" "c \<in> set calls" "outcome_of c = Some outcome" "\<forall>c \<in> set before. outcome_of c = None"
    "report_failure env task err before l = (l', calls, res) \<or> report_result env task result before l = (l', calls, res)"
  shows "(\<exists>entry. Get (t_TaskID task) l' = Inr (Some entry) \<and> records entry outcome) \<and> ledger_inv l' \<and> lg_failed l' = None"
  using assms(5)
proof
  let ?e = "\<lparr>e_TaskID = t_TaskID task, e_Status = ''failed'', e_Result = None,
    e_Error = Some (error_object (contentSafeTaskError task err)), e_UpdatedAt = 0\<rparr>"
  assume "report_failure env task err before l = (l', calls, res)"
  then have saved: "Save (te_now env) (te_encErr env) (te_disk env) ?e l = (l', None)"
    and c: "c = Failed (e_Error ?e)"
    using assms(2-4) by (auto simp: report_failure_def Let_def split: prod.splits option.splits)
  then show ?thesis using saved_get [OF saved assms(1)] assms(3) by (auto simp: records_def detach_def)
next
  let ?e = "\<lparr>e_TaskID = t_TaskID task, e_Status = ''succeeded'', e_Result = result, e_Error = None, e_UpdatedAt = 0\<rparr>"
  assume "report_result env task result before l = (l', calls, res)"
  then have saved: "Save (te_now env) (te_encErr env) (te_disk env) ?e l = (l', None)" and c: "c = Completed result"
    using assms(2-4) by (auto simp: report_result_def Let_def split: prod.splits option.splits)
  then show ?thesis using saved_get [OF saved assms(1)] assms(3) by (auto simp: records_def detach_def)
qed

lemma reported_recorded:
  assumes "ledger_inv l" "executeTask nodeID env task l = (l', calls, res)" "c \<in> set calls" "outcome_of c = Some outcome"
  shows "(\<exists>entry. Get (t_TaskID task) l' = Inr (Some entry) \<and> records entry outcome) \<and> ledger_inv l' \<and> lg_failed l' = None"
proof -
  have ran: ?thesis if run: "run_task env task l = (l', calls, res)"
  proof -
    have "\<exists>err. report_failure env task err [Started] l = (l', calls, res) \<or>
        report_failure env task err [Started, Executed] l = (l', calls, res) \<or>
        (\<exists>result. report_result env task result [Started, Executed] l = (l', calls, res))"
    proof (cases "te_start env")
      case None
      then show ?thesis
        using run assms(3,4) by (cases "te_execute env") (auto simp: run_task_def split: if_splits)
    next
      case (Some err)
      then show ?thesis using run assms(3,4) by (auto simp: run_task_def split: if_splits)
    qed
    then show ?thesis
      by (elim exE disjE)
        ((erule report_recorded [OF assms(1,3,4) _ disjI1, rotated]
            report_recorded [OF assms(1,3,4) _ disjI2, rotated]), simp)+
  qed
  have replayed: ?thesis if "Get (t_TaskID task) l = Inr (Some entry)" "replay_outcome env task entry l = (l', calls, res)"
      "e_Status entry = ''succeeded'' \<or> e_Status entry = ''failed''" for entry
  proof -
    have "l' = l" "records (detach entry) outcome" "detach entry = entry" "lg_failed l = None"
      using that assms(3,4) by (auto simp: replay_outcome_def Let_def records_def detach_def Get_def split: if_splits option.splits)
    then show ?thesis using that(1) assms(1) by auto
  qed
  show ?thesis
    using assms(2-4) ran replayed by (auto simp: executeTask_def Let_def split: if_splits sum.splits option.splits)
qed


definition sample_task :: TaskEnvelope where
  "sample_task = \<lparr>t_TaskID = ''task-1'', t_NodeID = ''node-1'', t_TaskType = ''reconcile_state'',
     t_IdempotencyKey = ''task-1'', t_Payload = []\<rparr>"

definition sample_env :: task_env where
  "sample_env = \<lparr>te_decoded = Inl ''unused'', te_mapped = True, te_managedStop = True, te_recorded = True,
     te_start = None, te_execute = Inr (Some (JObject [(''status'', JString ''reconciled'')])),
     te_complete = None, te_fail = None, te_now = 5, te_encErr = None, te_disk = good_disk\<rparr>"


end
