(* ===== verification/Worker_Runtime.thy ===== *)
theory Worker_Runtime
  imports Worker_Tasks Complex_Main
begin

section \<open>The context of a session start\<close>

text \<open>
  \<open>callRuntimeHelper\<close> of \<open>worker/worker.go\<close> and the functions around it: the worker clears what
  a task payload says about the browser bridge, registers the session with the broker, hands
  the capability to the runtime helper, and authorises the user the helper reports. The broker
  is the one of theory \<open>Broker\<close>. What the helper answers is an argument, and so is what the other
  goroutines do to the broker while the helper runs (\<open>he_other\<close>).
\<close>

subsection \<open>Data\<close>

record runtime_cfg =
  rc_EgoBrowserEnabled :: bool
  rc_EgoBrowserWrapperPath :: string
  rc_EgoBrowserProtocolVersion :: string
  rc_EgoBrowserWrapperVersion :: string
  rc_EgoBrowserSkillPath :: string
  rc_EgoBrowserSkillVersion :: string
  rc_EgoBrowserSkillTreeSHA256 :: string
  rc_WorkspaceRoot :: string
  rc_AccountRoot :: string
  rc_ClaudeRuntimePath :: string
  rc_AllowedRuntimeBackends :: "string list"
  rc_managedAdmissions :: bool

type_synonym payload = "(string \<times> json_value) list"

text \<open>A value of the helper's answer: a decoded JSON number is a \<open>float64\<close>, hence a finite rational.\<close>

datatype result_value = RFloat rat | RInt int | ROther json_value

type_synonym result = "(string \<times> result_value) list option"

record egoBrowserSessionRegistration =
  rg_toolSessionID :: string
  rg_nonce :: string
  rg_created :: bool

definition true_value :: json_value where
  "true_value = JLiteral ''true''"

definition false_value :: json_value where
  "false_value = JLiteral ''false''"

datatype backend_error = UnsupportedBackend string | BackendNotEnabled string

definition requireBackend :: "runtime_cfg \<Rightarrow> string \<Rightarrow> backend_error option" where
  "requireBackend cfg backend =
     (if backend \<noteq> ''docker_sandbox'' \<and> backend \<noteq> ''native'' then Some (UnsupportedBackend backend)
      else if backend \<notin> set (rc_AllowedRuntimeBackends cfg) then Some (BackendNotEnabled backend)
      else None)"

definition lifecycleSessionOperation :: "string \<Rightarrow> bool" where
  "lifecycleSessionOperation operation =
     (operation \<in> set [''start_session'', ''docker_start_session'', ''stop_session'', ''docker_stop_session''])"

definition isEgoBrowserContextOperation :: "string \<Rightarrow> bool" where
  "isEgoBrowserContextOperation operation =
     (operation \<in> set [''prepare_account'', ''start_session'', ''docker_prepare_account'', ''docker_start_session''])"

definition start_operation :: "string \<Rightarrow> bool" where
  "start_operation operation = (operation = ''start_session'' \<or> operation = ''docker_start_session'')"

definition egoBrowserBrokerError :: "string \<Rightarrow> ego_error \<Rightarrow> task_error" where
  "egoBrowserBrokerError operation err = OtherError (operation @ '': '' @ egoBrowserBrokerLogCode err)"

subsection \<open>The context\<close>

definition clearEgoBrowserRuntimeContext :: "payload \<Rightarrow> payload" where
  "clearEgoBrowserRuntimeContext p0 =
     (let p1 = put ''ego_browser_enabled'' false_value p0;
          p2 = put ''ego_browser_wrapper_path'' (JString []) p1;
          p3 = put ''ego_browser_broker_socket'' (JString []) p2;
          p4 = put ''ego_browser_broker_nonce'' (JString []) p3;
          p5 = put ''ego_browser_protocol_version'' (JString []) p4;
          p6 = put ''ego_browser_wrapper_version'' (JString []) p5;
          p7 = put ''ego_browser_skill_path'' (JString []) p6;
          p8 = put ''ego_browser_skill_version'' (JString []) p7;
          p9 = put ''ego_browser_skill_tree_sha256'' (JString []) p8;
          p10 = del ''ego_browser_binding_id'' p9
      in put ''ego_browser_task_space'' (JString []) p10)"

text \<open>The type assertion \<open>payload[key].(string)\<close> whose failure gives the empty string.\<close>

definition string_field :: "payload \<Rightarrow> string \<Rightarrow> string" where
  "string_field p key = (case map_of p key of Some (JString s) \<Rightarrow> s | _ \<Rightarrow> [])"

definition context_payload :: "runtime_cfg \<Rightarrow> string \<Rightarrow> string \<Rightarrow> string \<Rightarrow> payload \<Rightarrow> payload" where
  "context_payload cfg socket nonce taskSpace p0 =
     (let p1 = put ''ego_browser_enabled'' true_value p0;
          p2 = put ''ego_browser_wrapper_path'' (JString (rc_EgoBrowserWrapperPath cfg)) p1;
          p3 = put ''ego_browser_broker_socket'' (JString socket) p2;
          p4 = put ''ego_browser_broker_nonce'' (JString nonce) p3;
          p5 = put ''ego_browser_protocol_version'' (JString (rc_EgoBrowserProtocolVersion cfg)) p4;
          p6 = put ''ego_browser_wrapper_version'' (JString (rc_EgoBrowserWrapperVersion cfg)) p5;
          p7 = put ''ego_browser_skill_path'' (JString (rc_EgoBrowserSkillPath cfg)) p6;
          p8 = put ''ego_browser_skill_version'' (JString (rc_EgoBrowserSkillVersion cfg)) p7;
          p9 = put ''ego_browser_skill_tree_sha256'' (JString (rc_EgoBrowserSkillTreeSHA256 cfg)) p8
      in put ''ego_browser_task_space'' (JString taskSpace) p9)"

text \<open>
  The result is the broker, the payload, and an error or the registration, if one was made;
  \<open>None\<close> while \<open>RegisterToolSession\<close> has not found an unused token.
\<close>

definition applyEgoBrowserRuntimeContext :: "runtime_cfg \<Rightarrow> admission \<Rightarrow> ego_error option \<Rightarrow> random list \<Rightarrow> payload \<Rightarrow> string \<Rightarrow>
    broker option \<Rightarrow> (broker option \<times> payload \<times> (task_error + egoBrowserSessionRegistration option)) option" where
  "applyEgoBrowserRuntimeContext cfg adm brokerErr draws payload0 operation broker =
     (let payload = clearEgoBrowserRuntimeContext payload0; stay = (\<lambda>r. Some (broker, payload, r)) in
      if \<not> rc_EgoBrowserEnabled cfg then stay (Inr None)
      else if \<not> serverAdmissionAllowed adm then stay (Inr None)
      else (case brokerErr of Some err \<Rightarrow> stay (Inl (egoBrowserBrokerError ''initialize ego-browser broker'' err))
      | None \<Rightarrow>
         (case broker of None \<Rightarrow> stay (Inl (OtherError ''ego-browser broker is unavailable''))
          | Some b \<Rightarrow>
             let toolType = string_field payload ''tool_type'' in
             if toolType \<noteq> [] \<and> toolType \<noteq> ''claude'' then stay (Inr None)
             else if \<not> start_operation operation then stay (Inr None)
             else
               let toolSessionID = string_field payload ''session_id''; taskSpace = ''agent-remote:'' @ toolSessionID in
               if toolSessionID = [] then stay (Inl (OtherError ''ego-browser tool session identity is missing''))
               else if \<not> validTaskSpaceLabel taskSpace
               then stay (Inl (OtherError ''ego-browser task space identity is invalid''))
               else (case RegisterToolSession toolSessionID draws b of
                       None \<Rightarrow> None
                     | Some (b, Inl err) \<Rightarrow>
                         Some (Some b, payload, Inl (egoBrowserBrokerError ''register ego-browser tool session'' err))
                     | Some (b, Inr (nonce, created)) \<Rightarrow>
                         Some (Some b, context_payload cfg (c_SocketPath (br_cfg b)) nonce taskSpace payload,
                           Inr (Some \<lparr>rg_toolSessionID = toolSessionID, rg_nonce = nonce, rg_created = created\<rparr>))))))"

subsection \<open>The helper call\<close>

definition max_uint32 :: int where
  "max_uint32 = 4294967295"

definition uid_number :: "result_value \<Rightarrow> u32 option" where
  "uid_number value =
     (case value of
        RFloat number \<Rightarrow>
          if number < 0 \<or> number > of_int max_uint32 then None
          else (let uid = (word_of_int \<lfloor>number\<rfloor> :: u32) in
                if number \<noteq> of_int (uint uid) then None else Some uid)
      | RInt number \<Rightarrow>
          if number < 0 \<or> number > max_uint32 then None else Some (word_of_int number)
      | ROther _ \<Rightarrow> None)"

definition takeRuntimeUID :: "result \<Rightarrow> result \<times> (task_error + u32)" where
  "takeRuntimeUID result =
     (case result of None \<Rightarrow> (None, Inl (OtherError ''runtime helper omitted the ego-browser peer uid''))
      | Some m \<Rightarrow>
          (Some (del ''runtime_uid'' m),
           case map_of m ''runtime_uid'' of
             None \<Rightarrow> Inl (OtherError ''runtime helper omitted the ego-browser peer uid'')
           | Some value \<Rightarrow>
               (case uid_number value of
                  None \<Rightarrow> Inl (OtherError ''runtime helper returned an invalid ego-browser peer uid'')
                | Some uid \<Rightarrow>
                    if uid = 0 then Inl (OtherError ''runtime helper returned root as the ego-browser peer uid'')
                    else Inr uid)))"

record helper_env =
  he_mapErr :: "task_error option"
  he_lockErr :: "task_error option"
  he_brokerErr :: "ego_error option"
  he_draws :: "random list"
  he_prepareErr :: "ego_error option"
  he_other :: "broker \<Rightarrow> broker"
  he_response :: "task_error + result \<times> bool"
  he_listenErr :: "ego_error option"
  he_grantErr :: "ego_error option"
  he_now :: gotime

text \<open>What the call did: the broker, the payload the helper received, and the result.\<close>

record helper_outcome =
  ho_broker :: "broker option"
  ho_sent :: "payload option"
  ho_result :: "task_error + result"

text \<open>\<open>UnregisterToolSession\<close> of a registration that this call created.\<close>

definition undo_registration :: "gotime \<Rightarrow> egoBrowserSessionRegistration option \<Rightarrow> broker option \<Rightarrow> broker option" where
  "undo_registration now registration broker =
     (case registration of None \<Rightarrow> broker
      | Some reg \<Rightarrow>
          if rg_created reg
          then map_option (\<lambda>b. fst (UnregisterToolSession now (rg_toolSessionID reg) (rg_nonce reg) b)) broker
          else broker)"

definition without_uid :: "result \<Rightarrow> result" where
  "without_uid = map_option (del ''runtime_uid'')"

text \<open>The part after the helper's successful answer for a registered session.\<close>

definition authorize_runtime :: "helper_env \<Rightarrow> egoBrowserSessionRegistration \<Rightarrow> result \<Rightarrow> broker \<Rightarrow>
    broker \<times> (task_error + result)" where
  "authorize_runtime env reg result b =
     (let (result, uid) = takeRuntimeUID result;
          (b, uidErr) = (case uid of
               Inl _ \<Rightarrow> (b, Some (OtherError ''authorize ego-browser tool session: broker_error''))
             | Inr runtimeUID \<Rightarrow>
                 (case AuthorizeToolSessionPeer (rg_toolSessionID reg) (rg_nonce reg) runtimeUID
                         (he_listenErr env) (he_grantErr env) b of
                    (b, None) \<Rightarrow> (b, None)
                  | (b, Some e) \<Rightarrow> (b, Some (egoBrowserBrokerError ''authorize ego-browser tool session'' e))))
      in case uidErr of None \<Rightarrow> (b, Inr (without_uid result))
         | Some err \<Rightarrow> (fst (UnregisterToolSession (he_now env) (rg_toolSessionID reg) (rg_nonce reg) b), Inl err))"

definition helper_answer :: "helper_env \<Rightarrow> string \<Rightarrow> egoBrowserSessionRegistration option \<Rightarrow> payload \<Rightarrow> broker option \<Rightarrow>
    helper_outcome" where
  "helper_answer env operation registration sent broker =
     (let broker = map_option (he_other env) broker in
      case he_response env of
        Inl err \<Rightarrow> \<lparr>ho_broker = undo_registration (he_now env) registration broker, ho_sent = Some sent, ho_result = Inl err\<rparr>
      | Inr (result, fresh) \<Rightarrow>
          if start_operation operation \<and> \<not> fresh
          then \<lparr>ho_broker = undo_registration (he_now env) registration broker, ho_sent = Some sent,
                ho_result = Inr (without_uid result)\<rparr>
          else (case (registration, broker) of
                  (Some reg, Some b) \<Rightarrow>
                    (case authorize_runtime env reg result b of
                       (b, res) \<Rightarrow> \<lparr>ho_broker = Some b, ho_sent = Some sent, ho_result = res\<rparr>)
                | _ \<Rightarrow> \<lparr>ho_broker = broker, ho_sent = Some sent, ho_result = Inr (without_uid result)\<rparr>))"

definition with_roots :: "runtime_cfg \<Rightarrow> payload \<Rightarrow> payload" where
  "with_roots cfg p =
     put ''claude_runtime_path'' (JString (rc_ClaudeRuntimePath cfg))
       (put ''account_root'' (JString (rc_AccountRoot cfg)) (put ''workspace_root'' (JString (rc_WorkspaceRoot cfg)) p))"

definition call_refused :: "broker option \<Rightarrow> task_error \<Rightarrow> helper_outcome" where
  "call_refused broker err = \<lparr>ho_broker = broker, ho_sent = None, ho_result = Inl err\<rparr>"

text \<open>The encoding of the payload and the lock of the session operations, before the context.\<close>

definition helper_precheck :: "runtime_cfg \<Rightarrow> helper_env \<Rightarrow> TaskEnvelope \<Rightarrow> string \<Rightarrow> task_error option" where
  "helper_precheck cfg env task operation =
     (case he_mapErr env of Some err \<Rightarrow> Some err
      | None \<Rightarrow> if lifecycleSessionOperation operation \<and> \<not> managedStopTask task \<and> rc_managedAdmissions cfg
                then he_lockErr env else None)"

text \<open>The part after the context: preparing the socket and calling the helper.\<close>

definition call_with_context :: "runtime_cfg \<Rightarrow> helper_env \<Rightarrow> string \<Rightarrow>
    broker option \<times> payload \<times> (task_error + egoBrowserSessionRegistration option) \<Rightarrow> helper_outcome" where
  "call_with_context cfg env operation context =
     (case context of
        (broker, mapped, Inl err) \<Rightarrow> call_refused broker err
      | (broker, mapped, Inr registration) \<Rightarrow>
          (case (registration, he_prepareErr env) of
             (Some reg, Some err) \<Rightarrow>
               call_refused (undo_registration (he_now env) registration broker)
                 (egoBrowserBrokerError ''prepare ego-browser broker socket'' err)
           | _ \<Rightarrow> helper_answer env operation registration (with_roots cfg mapped) broker))"

definition callRuntimeHelper :: "runtime_cfg \<Rightarrow> admission \<Rightarrow> helper_env \<Rightarrow> TaskEnvelope \<Rightarrow> string \<Rightarrow> payload \<Rightarrow> broker option \<Rightarrow>
    helper_outcome option" where
  "callRuntimeHelper cfg adm env task operation mapped broker =
     (case helper_precheck cfg env task operation of Some err \<Rightarrow> Some (call_refused broker err)
      | None \<Rightarrow>
          if isEgoBrowserContextOperation operation
          then map_option (call_with_context cfg env operation)
                 (applyEgoBrowserRuntimeContext cfg adm (he_brokerErr env) (he_draws env) mapped operation broker)
          else Some (helper_answer env operation None (with_roots cfg mapped) broker))"

subsection \<open>What the helper receives\<close>

definition bridge_keys :: "string list" where
  "bridge_keys = [''ego_browser_enabled'', ''ego_browser_wrapper_path'', ''ego_browser_broker_socket'', ''ego_browser_broker_nonce'',
     ''ego_browser_protocol_version'', ''ego_browser_wrapper_version'', ''ego_browser_skill_path'', ''ego_browser_skill_version'',
     ''ego_browser_skill_tree_sha256'', ''ego_browser_binding_id'', ''ego_browser_task_space'']"

definition root_keys :: "string list" where
  "root_keys = [''workspace_root'', ''account_root'', ''claude_runtime_path'']"

definition agree_off :: "string list \<Rightarrow> payload \<Rightarrow> payload \<Rightarrow> bool" where
  "agree_off ks p p' \<longleftrightarrow> (\<forall>k. k \<notin> set ks \<longrightarrow> map_of p k = map_of p' k)"

lemma agree_put: "agree_off ks p p' \<Longrightarrow> agree_off ks (put k v p) (put k v p')"
  by (simp add: agree_off_def)

lemma agree_cleared:
  "agree_off (bridge_keys @ root_keys) p p' \<Longrightarrow>
     agree_off root_keys (clearEgoBrowserRuntimeContext p) (clearEgoBrowserRuntimeContext p')"
  by (auto simp: agree_off_def clearEgoBrowserRuntimeContext_def Let_def bridge_keys_def)

lemma agree_context:
  "agree_off ks p p' \<Longrightarrow> agree_off ks (context_payload cfg socket nonce ts p) (context_payload cfg socket nonce ts p')"
  by (simp add: context_payload_def Let_def agree_put)

lemma agree_roots: "agree_off root_keys p p' \<Longrightarrow> agree_off [] (with_roots cfg p) (with_roots cfg p')"
  by (auto simp: agree_off_def with_roots_def root_keys_def)

lemma agree_fields:
  assumes "agree_off root_keys p p'"
  shows "string_field p ''tool_type'' = string_field p' ''tool_type''" "string_field p ''session_id'' = string_field p' ''session_id''"
  using assms by (simp_all add: agree_off_def root_keys_def string_field_def)

definition same_context :: "broker option \<times> payload \<times> 'r \<Rightarrow> broker option \<times> payload \<times> 'r \<Rightarrow> bool" where
  "same_context x y \<longleftrightarrow> fst x = fst y \<and> agree_off root_keys (fst (snd x)) (fst (snd y)) \<and> snd (snd x) = snd (snd y)"

lemma same_context_apply:
  assumes "agree_off (bridge_keys @ root_keys) p p'"
  shows "rel_option same_context (applyEgoBrowserRuntimeContext cfg adm err draws p operation broker)
    (applyEgoBrowserRuntimeContext cfg adm err draws p' operation broker)"
proof -
  have c: "agree_off root_keys (clearEgoBrowserRuntimeContext p) (clearEgoBrowserRuntimeContext p')"
    by (rule agree_cleared [OF assms])
  show ?thesis
    using c agree_context [OF c] agree_fields [OF c]
    by (auto simp: applyEgoBrowserRuntimeContext_def Let_def same_context_def split: option.split sum.split prod.split)
qed

definition same_outcome :: "helper_outcome \<Rightarrow> helper_outcome \<Rightarrow> bool" where
  "same_outcome o1 o2 \<longleftrightarrow> ho_broker o1 = ho_broker o2 \<and> ho_result o1 = ho_result o2 \<and>
     rel_option (agree_off []) (ho_sent o1) (ho_sent o2)"

lemma same_outcome_answer:
  "agree_off [] p p' \<Longrightarrow> same_outcome (helper_answer env operation reg p broker) (helper_answer env operation reg p' broker)"
  by (auto simp: same_outcome_def helper_answer_def Let_def split: sum.split prod.split option.split)

text \<open>Where the registration of a context came from.\<close>

lemma apply_registration:
  assumes "applyEgoBrowserRuntimeContext cfg adm err draws p operation broker = Some (broker', p', Inr (Some reg))"
  obtains b b' where "broker = Some b" "broker' = Some b'" "serverAdmissionAllowed adm" "start_operation operation"
    "RegisterToolSession (rg_toolSessionID reg) draws b = Some (b', Inr (rg_nonce reg, rg_created reg))"
    "rg_toolSessionID reg = string_field (clearEgoBrowserRuntimeContext p) ''session_id''" "rg_toolSessionID reg \<noteq> []"
    "p' = context_payload cfg (c_SocketPath (br_cfg b')) (rg_nonce reg) (''agent-remote:'' @ rg_toolSessionID reg)
       (clearEgoBrowserRuntimeContext p)"
  using assms by (auto simp: applyEgoBrowserRuntimeContext_def Let_def split: if_splits option.splits sum.splits intro!: that)

lemma apply_none:
  assumes "applyEgoBrowserRuntimeContext cfg adm err draws p operation broker = Some (broker', p', Inr None)"
  shows "broker' = broker \<and> p' = clearEgoBrowserRuntimeContext p"
  using assms by (auto simp: applyEgoBrowserRuntimeContext_def Let_def split: if_splits option.splits sum.splits)

lemma registered_session:
  assumes "RegisterToolSession tool draws b = Some (b', Inr (nonce, created))"
  shows "map_of (br_sessions b') tool = Some nonce" "nonce \<noteq> []" "br_cfg b' = br_cfg b"
proof -
  have loop: "map_of (br_sessions b') tool = Some nonce \<and> nonce \<noteq> [] \<and> br_cfg b' = br_cfg b"
    if "register_loop tool draws b = Some (b', Inr (nonce, created))"
    using that
  proof (induction draws)
    case (Cons r draws)
    show ?case
    proof (cases "randomToken 32 r")
      case (Inr t)
      have "validOpaqueText t 256" by (rule randomToken_valid [OF Inr]) simp_all
      then have "t \<noteq> []" by (simp add: validOpaqueText_def)
      then show ?thesis using Cons Inr by (auto split: if_splits)
    qed (use Cons in auto)
  qed simp
  have known: "map_of (br_sessions b) tool = Some nonce" if "get_str (br_sessions b) tool = nonce" "nonce \<noteq> []"
    using that by (auto simp: get_str_def split: option.splits)
  have "map_of (br_sessions b') tool = Some nonce \<and> nonce \<noteq> [] \<and> br_cfg b' = br_cfg b"
    using assms loop known by (auto simp: RegisterToolSession_def Let_def split: if_splits sum.splits)
  then show "map_of (br_sessions b') tool = Some nonce" "nonce \<noteq> []" "br_cfg b' = br_cfg b" by simp_all
qed

text \<open>The bridge fields of a payload for the helper.\<close>

definition bridge_off :: "payload \<Rightarrow> bool" where
  "bridge_off p \<longleftrightarrow> map_of p ''ego_browser_enabled'' = Some false_value \<and> map_of p ''ego_browser_broker_nonce'' = Some (JString [])
     \<and> map_of p ''ego_browser_broker_socket'' = Some (JString []) \<and> map_of p ''ego_browser_task_space'' = Some (JString [])
     \<and> map_of p ''ego_browser_binding_id'' = None"

definition bridge_on :: "runtime_cfg \<Rightarrow> broker \<Rightarrow> string \<Rightarrow> payload \<Rightarrow> bool" where
  "bridge_on cfg b tool p \<longleftrightarrow> map_of p ''session_id'' = Some (JString tool) \<and>
     map_of p ''ego_browser_enabled'' = Some true_value \<and>
     map_of p ''ego_browser_broker_nonce'' = map_option JString (map_of (br_sessions b) tool) \<and>
     map_of p ''ego_browser_broker_socket'' = Some (JString (c_SocketPath (br_cfg b))) \<and>
     map_of p ''ego_browser_task_space'' = Some (JString (''agent-remote:'' @ tool)) \<and>
     map_of p ''ego_browser_wrapper_path'' = Some (JString (rc_EgoBrowserWrapperPath cfg)) \<and>
     map_of p ''ego_browser_binding_id'' = None"

lemma bridge_off_cleared: "bridge_off (with_roots cfg (clearEgoBrowserRuntimeContext p))"
  by (simp add: bridge_off_def with_roots_def clearEgoBrowserRuntimeContext_def Let_def)

lemma bridge_on_context:
  assumes "map_of (br_sessions b) tool = Some nonce" "tool = string_field (clearEgoBrowserRuntimeContext p) ''session_id''" "tool \<noteq> []"
  shows "bridge_on cfg b tool (with_roots cfg (context_payload cfg (c_SocketPath (br_cfg b)) nonce (''agent-remote:'' @ tool)
    (clearEgoBrowserRuntimeContext p)))"
proof -
  have "map_of p ''session_id'' = Some (JString tool)"
    using assms(2,3) by (auto simp: string_field_def clearEgoBrowserRuntimeContext_def Let_def split: option.splits json_value.splits)
  moreover have "\<lbrakk>k \<noteq> ''claude_runtime_path''; k \<noteq> ''account_root''; k \<noteq> ''workspace_root''\<rbrakk> \<Longrightarrow>
      map_of (with_roots cfg q) k = map_of q k" for q k
    by (simp add: with_roots_def)
  moreover have "map_of (clearEgoBrowserRuntimeContext p) ''session_id'' = map_of p ''session_id''"
    "map_of (clearEgoBrowserRuntimeContext p) ''ego_browser_binding_id'' = None"
    by (simp_all add: clearEgoBrowserRuntimeContext_def Let_def)
  ultimately show ?thesis
    unfolding bridge_on_def assms(1) by (intro conjI) (simp_all add: context_payload_def Let_def)
qed

subsection \<open>Properties\<close>

lemma same_outcome_refl [simp]: "same_outcome x x"
  by (simp add: same_outcome_def option.rel_refl agree_off_def)

lemma same_outcome_context: "same_context x y \<Longrightarrow> same_outcome (call_with_context cfg env operation x) (call_with_context cfg env operation y)"
  using same_outcome_answer [OF agree_roots]
  by (auto simp: call_with_context_def same_context_def split: prod.split sum.split option.split)

lemma same_outcome_call:
  assumes "isEgoBrowserContextOperation operation" "agree_off (bridge_keys @ root_keys) p p'"
  shows "rel_option same_outcome (callRuntimeHelper cfg adm env task operation p broker)
    (callRuntimeHelper cfg adm env task operation p' broker)"
proof -
  have "rel_option same_outcome
      (map_option (call_with_context cfg env operation)
        (applyEgoBrowserRuntimeContext cfg adm (he_brokerErr env) (he_draws env) p operation broker))
      (map_option (call_with_context cfg env operation)
        (applyEgoBrowserRuntimeContext cfg adm (he_brokerErr env) (he_draws env) p' operation broker))"
    unfolding option.rel_map by (rule option.rel_mono_strong [OF same_context_apply [OF assms(2)]]) (rule same_outcome_context)
  then show ?thesis by (simp add: callRuntimeHelper_def assms(1) split: option.split)
qed

lemma sent_bridge:
  assumes "isEgoBrowserContextOperation operation" "callRuntimeHelper cfg adm env task operation p broker = Some out"
    "ho_sent out = Some sent"
  shows "bridge_off sent \<or> (\<exists>b b' tool. broker = Some b \<and> reach b b' \<and> serverAdmissionAllowed adm \<and> start_operation operation \<and>
    tool \<in> keys (br_sessions b') \<and> bridge_on cfg b' tool sent)"
proof -
  let ?x = "applyEgoBrowserRuntimeContext cfg adm (he_brokerErr env) (he_draws env) p operation broker"
  have sent: "ho_sent (helper_answer env operation reg q br) = Some q" for reg q br
    by (simp add: helper_answer_def Let_def split: sum.split prod.split option.split)
  have ctx: "\<exists>reg. r = Inr reg \<and> sent = with_roots cfg q"
    if "ho_sent (call_with_context cfg env operation (br, q, r)) = Some sent" for br q r
  proof (cases r)
    case (Inr reg)
    then show ?thesis
      using that by (cases reg; cases "he_prepareErr env") (simp_all add: call_with_context_def call_refused_def sent)
  qed (use that in \<open>simp add: call_with_context_def call_refused_def\<close>)
  obtain y where y: "?x = Some y" "out = call_with_context cfg env operation y"
    using assms by (auto simp: callRuntimeHelper_def call_refused_def split: option.splits)
  obtain br q reg where x: "?x = Some (br, q, Inr reg)" and q: "sent = with_roots cfg q"
    using y assms(3) ctx by (metis prod_cases3)
  show ?thesis
  proof (cases reg)
    case None
    have "q = clearEgoBrowserRuntimeContext p" using apply_none x None by blast
    then show ?thesis using bridge_off_cleared q by blast
  next
    case (Some r)
    obtain b b' where b: "broker = Some b" "serverAdmissionAllowed adm" "start_operation operation"
      "RegisterToolSession (rg_toolSessionID r) (he_draws env) b = Some (b', Inr (rg_nonce r, rg_created r))"
      "rg_toolSessionID r = string_field (clearEgoBrowserRuntimeContext p) ''session_id''" "rg_toolSessionID r \<noteq> []"
      "q = context_payload cfg (c_SocketPath (br_cfg b')) (rg_nonce r) (''agent-remote:'' @ rg_toolSessionID r)
         (clearEgoBrowserRuntimeContext p)"
      using apply_registration [of cfg adm _ _ p operation broker br q r] x Some by metis
    have s: "map_of (br_sessions b') (rg_toolSessionID r) = Some (rg_nonce r)" by (rule registered_session(1) [OF b(4)])
    have "reach b b'" by (rule reach_step [OF broker_step.register [OF b(4)]]) simp
    moreover have "bridge_on cfg b' (rg_toolSessionID r) sent" using bridge_on_context [OF s b(5,6)] by (simp add: q b(7))
    moreover have "rg_toolSessionID r \<in> keys (br_sessions b')" using s unfolding in_keys_Some by blast
    ultimately show ?thesis using b(1-3) by blast
  qed
qed

text \<open>
  C22: a task payload cannot choose the identity of the browser bridge. Two payloads that differ
  only in the bridge and root fields lead to the same call of the runtime helper, the same
  broker and the same result; and what the helper receives has either no bridge at all or,
  for a session start that the Server admits, the broker's own socket, the capability that the
  broker holds for exactly the session of the payload, that session's task space, and the
  wrapper of the node's configuration.
\<close>

theorem payload_cannot_choose_bridge:
  assumes "isEgoBrowserContextOperation operation" "agree_off (bridge_keys @ root_keys) p p'"
  shows "rel_option same_outcome (callRuntimeHelper cfg adm env task operation p broker)
      (callRuntimeHelper cfg adm env task operation p' broker) \<and>
    (\<forall>out sent. callRuntimeHelper cfg adm env task operation p broker = Some out \<and> ho_sent out = Some sent \<longrightarrow>
       bridge_off sent \<or> (\<exists>b b' tool. broker = Some b \<and> reach b b' \<and> serverAdmissionAllowed adm \<and>
         start_operation operation \<and> tool \<in> keys (br_sessions b') \<and> bridge_on cfg b' tool sent))"
proof (intro conjI allI impI)
  show "rel_option same_outcome (callRuntimeHelper cfg adm env task operation p broker)
      (callRuntimeHelper cfg adm env task operation p' broker)" by (rule same_outcome_call [OF assms])
qed (elim conjE, rule sent_bridge [OF assms(1)])

definition sample_runtime :: runtime_cfg where
  "sample_runtime = \<lparr>rc_EgoBrowserEnabled = True, rc_EgoBrowserWrapperPath = ''/opt/wrapper'', rc_EgoBrowserProtocolVersion = ProtocolVersion,
     rc_EgoBrowserWrapperVersion = ''1'', rc_EgoBrowserSkillPath = ''/opt/skill'', rc_EgoBrowserSkillVersion = ''1'',
     rc_EgoBrowserSkillTreeSHA256 = [], rc_WorkspaceRoot = ''/srv/w'', rc_AccountRoot = ''/srv/a'', rc_ClaudeRuntimePath = ''/opt/claude'',
     rc_AllowedRuntimeBackends = [''native''], rc_managedAdmissions = True\<rparr>"

definition sample_helper :: helper_env where
  "sample_helper = \<lparr>he_mapErr = None, he_lockErr = None, he_brokerErr = None, he_draws = [Some (\<lambda>_. CHR 0x00)], he_prepareErr = None,
     he_other = (\<lambda>b. b), he_response = Inr (Some [(''runtime_uid'', RFloat 1000)], True), he_listenErr = None, he_grantErr = None,
     he_now = 0\<rparr>"

definition start_payload :: payload where
  "start_payload = [(''session_id'', JString ''t1'')]"

theorem payload_cannot_choose_bridge_witness:
  "rel_option same_outcome
     (callRuntimeHelper sample_runtime (New_admission []) sample_helper sample_task ''start_session''
        ((''ego_browser_broker_nonce'', JString ''forged'') # start_payload) (Some sample_broker))
     (callRuntimeHelper sample_runtime (New_admission []) sample_helper sample_task ''start_session'' start_payload (Some sample_broker))"
proof -
  have "isEgoBrowserContextOperation ''start_session''" by (simp add: isEgoBrowserContextOperation_def)
  moreover have "agree_off (bridge_keys @ root_keys) ((''ego_browser_broker_nonce'', JString ''forged'') # start_payload) start_payload"
    by (simp add: agree_off_def bridge_keys_def)
  ultimately show ?thesis by (rule conjunct1 [OF payload_cannot_choose_bridge])
qed

lemma close_all_sessions [simp]:
  "br_sessions (close_all rs reason b) = br_sessions b"
proof -
  have "br_sessions (closeRelay r reason b) = br_sessions b" for r b
    by (simp add: closeRelay_def upd_state_def Let_def split: option.split prod.split)
  then show ?thesis by (induction rs arbitrary: b) (simp_all add: close_all_def)
qed

lemma unregistered:
  assumes "tool \<noteq> []" "nonce \<noteq> []"
  shows "get_str (br_sessions (fst (UnregisterToolSession now tool nonce b))) tool \<noteq> nonce"
proof -
  obtain b' ok toClose where u: "unregister_locked now tool nonce b = (b', ok, toClose)" by (metis prod_cases3)
  show ?thesis
  proof (cases ok)
    case True
    from u have "br_sessions b' = del tool (br_sessions b)"
      by (cases rule: unregister_cases) (use True in \<open>auto simp: clear_bindings_fields\<close>)
    then show ?thesis using True u assms by (simp add: UnregisterToolSession_def get_str_def)
  next
    case False
    then have "b' = b" "get_str (br_sessions b) tool \<noteq> nonce"
      using u assms(2) by (auto simp: unregister_locked_def Let_def split: if_splits)
    then show ?thesis using False u assms by (simp add: UnregisterToolSession_def)
  qed
qed

lemma authorized:
  assumes "AuthorizeToolSessionPeer tool nonce uid listenErr grantErr b = (b', None)"
  shows "map_of (br_peerUIDs b') tool = Some uid \<and> get_str (br_sessions b') tool = nonce"
  using assms
  by (auto simp: AuthorizeToolSessionPeer_def VerifyToolSessionPeer_def authorize_commit_def split: if_splits option.splits)

lemma without_uid_keys: "without_uid r = Some m \<Longrightarrow> ''runtime_uid'' \<notin> keys m"
  by (auto simp: without_uid_def del_def)

text \<open>The uid the helper reported, if it is one the worker accepts.\<close>

definition reported_uid :: "helper_env \<Rightarrow> u32 option" where
  "reported_uid env =
     (case he_response env of Inl _ \<Rightarrow> None
      | Inr (result, _) \<Rightarrow> (case snd (takeRuntimeUID result) of Inl _ \<Rightarrow> None | Inr uid \<Rightarrow> Some uid))"

definition fresh_start :: "helper_env \<Rightarrow> bool" where
  "fresh_start env = (case he_response env of Inl _ \<Rightarrow> False | Inr (_, fresh) \<Rightarrow> fresh)"

lemma taken_uid_nonzero: "snd (takeRuntimeUID r) = Inr uid \<Longrightarrow> uid \<noteq> 0"
  by (auto simp: takeRuntimeUID_def split: option.splits if_splits)

lemma authorize_runtime_cases:
  assumes "authorize_runtime env reg result b = (b', res)" "rg_toolSessionID reg \<noteq> []" "rg_nonce reg \<noteq> []"
  shows "reach b b' \<and>
    (case res of Inl _ \<Rightarrow> get_str (br_sessions b') (rg_toolSessionID reg) \<noteq> rg_nonce reg
     | Inr r \<Rightarrow> (\<exists>uid. snd (takeRuntimeUID result) = Inr uid \<and> map_of (br_peerUIDs b') (rg_toolSessionID reg) = Some uid \<and>
         get_str (br_sessions b') (rg_toolSessionID reg) = rg_nonce reg))"
proof (cases "snd (takeRuntimeUID result)")
  case (Inl e)
  have un: "authorize_runtime env reg result b =
      (fst (UnregisterToolSession (he_now env) (rg_toolSessionID reg) (rg_nonce reg) b),
       Inl (OtherError ''authorize ego-browser tool session: broker_error''))"
    using Inl by (auto simp: authorize_runtime_def Let_def split: prod.splits)
  show ?thesis using assms(1) reach_unregister unregistered [OF assms(2,3)] unfolding un by auto
next
  case (Inr uid)
  obtain b1 err where a: "AuthorizeToolSessionPeer (rg_toolSessionID reg) (rg_nonce reg) uid (he_listenErr env) (he_grantErr env) b = (b1, err)"
    by fastforce
  have r: "reach b b1" using reach_authorize [of b] a by (metis fst_conv)
  show ?thesis
  proof (cases err)
    case None
    then have "b' = b1" "\<exists>r. res = Inr r" using assms(1) a Inr by (auto simp: authorize_runtime_def split: prod.splits)
    then show ?thesis using r authorized a None Inr by auto
  next
    case (Some e)
    then have "b' = fst (UnregisterToolSession (he_now env) (rg_toolSessionID reg) (rg_nonce reg) b1)" "\<exists>e. res = Inl e"
      using assms(1) a Inr by (auto simp: authorize_runtime_def split: prod.splits)
    then show ?thesis using reach_trans [OF r reach_unregister] unregistered [OF assms(2,3)] by auto
  qed
qed

lemma undo_created:
  assumes "rg_created reg" "rg_toolSessionID reg \<noteq> []" "rg_nonce reg \<noteq> []"
  obtains b' where "undo_registration now (Some reg) (Some b) = Some b'" "reach b b'"
    "get_str (br_sessions b') (rg_toolSessionID reg) \<noteq> rg_nonce reg"
  using that [OF _ reach_unregister unregistered [OF assms(2,3)]] assms(1) by (simp add: undo_registration_def)

definition settled :: "broker \<Rightarrow> helper_env \<Rightarrow> egoBrowserSessionRegistration \<Rightarrow> helper_outcome \<Rightarrow> bool" where
  "settled b env reg out \<longleftrightarrow> (\<exists>b'. ho_broker out = Some b' \<and> reach b b' \<and>
    (\<forall>m. ho_result out = Inr (Some m) \<longrightarrow> ''runtime_uid'' \<notin> keys m) \<and>
    (if is_ok (ho_result out) \<and> fresh_start env
     then (\<exists>uid. reported_uid env = Some uid \<and> uid \<noteq> 0 \<and> map_of (br_peerUIDs b') (rg_toolSessionID reg) = Some uid \<and>
       get_str (br_sessions b') (rg_toolSessionID reg) = rg_nonce reg)
     else rg_created reg \<longrightarrow> get_str (br_sessions b') (rg_toolSessionID reg) \<noteq> rg_nonce reg))"

lemma settled_undone:
  assumes "rg_toolSessionID reg \<noteq> []" "rg_nonce reg \<noteq> []" "reach b c" "\<not> (is_ok res \<and> fresh_start env)"
    "\<And>m. res = Inr (Some m) \<Longrightarrow> ''runtime_uid'' \<notin> keys m"
  shows "settled b env reg \<lparr>ho_broker = undo_registration now (Some reg) (Some c), ho_sent = sent, ho_result = res\<rparr>"
proof (cases "rg_created reg")
  case True
  from undo_created [OF True assms(1,2), of now c] obtain b' where
    "undo_registration now (Some reg) (Some c) = Some b'" "reach c b'"
    "get_str (br_sessions b') (rg_toolSessionID reg) \<noteq> rg_nonce reg" by blast
  then show ?thesis using assms(4,5) reach_trans [OF assms(3)] unfolding settled_def by auto
next
  case False
  then show ?thesis using assms(3-5) unfolding settled_def by (auto simp: undo_registration_def)
qed

lemma settled_authorised:
  assumes "rg_toolSessionID reg \<noteq> []" "rg_nonce reg \<noteq> []" "reach b c"
    "he_response env = Inr (result, True)" "authorize_runtime env reg result c = (b', res)"
  shows "settled b env reg \<lparr>ho_broker = Some b', ho_sent = sent, ho_result = res\<rparr>"
proof -
  note cases = authorize_runtime_cases [OF assms(5,1,2)]
  have r: "reach b b'" using reach_trans [OF assms(3)] cases by blast
  show ?thesis
  proof (cases res)
    case (Inl e)
    then show ?thesis using cases r unfolding settled_def by (auto simp: is_ok_def)
  next
    case (Inr x)
    then obtain uid where uid: "snd (takeRuntimeUID result) = Inr uid" "map_of (br_peerUIDs b') (rg_toolSessionID reg) = Some uid"
      "get_str (br_sessions b') (rg_toolSessionID reg) = rg_nonce reg" using cases by auto
    have "\<exists>y. x = without_uid y"
      using assms(5) Inr by (auto simp: authorize_runtime_def Let_def split: prod.splits option.splits sum.splits)
    then have "''runtime_uid'' \<notin> keys m" if "x = Some m" for m using that without_uid_keys by metis
    moreover have "reported_uid env = Some uid" "fresh_start env"
      using assms(4) uid(1) by (simp_all add: reported_uid_def fresh_start_def)
    ultimately show ?thesis using Inr r uid(2,3) taken_uid_nonzero [OF uid(1)] unfolding settled_def by auto
  qed
qed

lemma settled_answer:
  assumes "rg_toolSessionID reg \<noteq> []" "rg_nonce reg \<noteq> []" "reach b (he_other env b1)" "start_operation operation"
  shows "settled b env reg (helper_answer env operation (Some reg) sent (Some b1))"
proof (cases "he_response env")
  case (Inl e)
  then show ?thesis using settled_undone [OF assms(1-3), of "Inl e"] by (simp add: helper_answer_def Let_def)
next
  case (Inr x)
  obtain result fresh where x: "x = (result, fresh)" by fastforce
  show ?thesis
  proof (cases fresh)
    case True
    obtain b' res where a: "authorize_runtime env reg result (he_other env b1) = (b', res)" by fastforce
    show ?thesis using settled_authorised [OF assms(1-3) _ a] Inr x True a by (simp add: helper_answer_def Let_def)
  next
    case False
    then show ?thesis
      using settled_undone [OF assms(1-3), of "Inr (without_uid result)"] Inr x assms(4) without_uid_keys
      by (simp add: helper_answer_def Let_def fresh_start_def)
  qed
qed

text \<open>
  C21: a session start leaves no capability behind unless it succeeds. When a call has registered
  the session with the broker: if the helper made a fresh start and the call succeeds, the
  session holds its capability and is authorised for exactly the user the helper reported,
  which is not root; if the call fails or the helper only repeated an old start, a capability
  this call created is gone. In every case the broker's invariant holds, the broker was only
  changed by its own operations, and the user is not part of the result.
\<close>

theorem registration_follows_outcome:
  assumes "broker_inv b" "\<And>b. reach b (he_other env b)" "start_operation operation"
    "applyEgoBrowserRuntimeContext cfg adm (he_brokerErr env) (he_draws env) p operation (Some b) = Some (Some b1, q, Inr (Some reg))"
    "call_with_context cfg env operation (Some b1, q, Inr (Some reg)) = out"
  shows "\<exists>b'. ho_broker out = Some b' \<and> broker_inv b' \<and> reach b b' \<and>
    (\<forall>m. ho_result out = Inr (Some m) \<longrightarrow> ''runtime_uid'' \<notin> keys m) \<and>
    (if is_ok (ho_result out) \<and> fresh_start env
     then (\<exists>uid. reported_uid env = Some uid \<and> uid \<noteq> 0 \<and> map_of (br_peerUIDs b') (rg_toolSessionID reg) = Some uid \<and>
       get_str (br_sessions b') (rg_toolSessionID reg) = rg_nonce reg)
     else rg_created reg \<longrightarrow> get_str (br_sessions b') (rg_toolSessionID reg) \<noteq> rg_nonce reg)"
proof -
  have reg: "RegisterToolSession (rg_toolSessionID reg) (he_draws env) b = Some (b1, Inr (rg_nonce reg, rg_created reg))"
    and tool: "rg_toolSessionID reg \<noteq> []"
    using apply_registration [OF assms(4)] by (metis option.inject)+
  have nonce: "rg_nonce reg \<noteq> []" by (rule registered_session(2) [OF reg])
  have r1: "reach b b1" by (rule reach_step [OF broker_step.register [OF reg]]) simp
  have "settled b env reg out"
  proof (cases "he_prepareErr env")
    case None
    then show ?thesis
      using settled_answer [OF tool nonce reach_trans [OF r1 assms(2)] assms(3)] assms(5) by (auto simp: call_with_context_def)
  next
    case (Some err)
    then show ?thesis
      using settled_undone [OF tool nonce r1, of "Inl (egoBrowserBrokerError ''prepare ego-browser broker socket'' err)"] assms(5)
      by (auto simp: call_with_context_def call_refused_def)
  qed
  then show ?thesis using reach_inv [OF _ assms(1)] unfolding settled_def by blast
qed

definition sample_registration :: egoBrowserSessionRegistration where
  "sample_registration = \<lparr>rg_toolSessionID = ''t1'', rg_nonce = sample_nonce, rg_created = True\<rparr>"

lemma sample_context:
  "\<exists>q. applyEgoBrowserRuntimeContext sample_runtime (New_admission []) (he_brokerErr sample_helper) (he_draws sample_helper)
     start_payload ''start_session'' (Some sample_broker) = Some (Some sample_registered, q, Inr (Some sample_registration))"
proof -
  have reg: "RegisterToolSession ''t1'' [Some (\<lambda>_. CHR 0x00)] sample_broker = Some (sample_registered, Inr (sample_nonce, True))"
    by (simp add: RegisterToolSession_def sample_token sample_simps validOpaqueText_def contains_any_def sample_task_space put_def)
  have fields: "string_field (clearEgoBrowserRuntimeContext start_payload) ''session_id'' = ''t1''"
    "string_field (clearEgoBrowserRuntimeContext start_payload) ''tool_type'' = []"
    by (simp_all add: string_field_def clearEgoBrowserRuntimeContext_def start_payload_def Let_def)
  have "validTaskSpaceLabel (''agent-remote:'' @ ''t1'')" by (simp add: validTaskSpaceLabel_def label_char_def Let_def)
  then show ?thesis
    unfolding applyEgoBrowserRuntimeContext_def Let_def fields
    by (simp add: reg sample_helper_def sample_runtime_def New_admission_def serverAdmissionAllowed_def start_operation_def
        sample_registration_def)
qed

lemma sample_uid: "takeRuntimeUID (Some [(''runtime_uid'', RFloat 1000)]) = (Some [], Inr 1000)"
  by (simp add: takeRuntimeUID_def uid_number_def max_uint32_def del_def)

theorem registration_follows_outcome_witness:
  "\<exists>q b'. ho_broker (call_with_context sample_runtime sample_helper ''start_session''
     (Some sample_registered, q, Inr (Some sample_registration))) = Some b' \<and> map_of (br_peerUIDs b') ''t1'' = Some 1000"
proof -
  obtain q where q: "applyEgoBrowserRuntimeContext sample_runtime (New_admission []) (he_brokerErr sample_helper)
      (he_draws sample_helper) start_payload ''start_session'' (Some sample_broker) =
      Some (Some sample_registered, q, Inr (Some sample_registration))" using sample_context by blast
  let ?out = "call_with_context sample_runtime sample_helper ''start_session'' (Some sample_registered, q, Inr (Some sample_registration))"
  have "AuthorizeToolSessionPeer ''t1'' sample_nonce 1000 None None sample_registered = (sample_authorized, None)"
    using sample_nonce_valid
    by (simp add: AuthorizeToolSessionPeer_def authorize_commit_def sample_simps validOpaqueText_def contains_any_def get_str_def put_def)
  then have ok: "is_ok (ho_result ?out)"
    by (simp add: call_with_context_def helper_answer_def authorize_runtime_def sample_helper_def sample_registration_def
        sample_uid Let_def)
  have "broker_inv sample_broker" by (rule New_broker_inv [OF sample_New])
  then obtain b' uid where "ho_broker ?out = Some b'" "reported_uid sample_helper = Some uid" "map_of (br_peerUIDs b') ''t1'' = Some uid"
    using registration_follows_outcome [OF _ _ _ q refl] ok
    by (auto simp: start_operation_def sample_helper_def fresh_start_def sample_registration_def)
  moreover have "reported_uid sample_helper = Some 1000" by (simp add: reported_uid_def sample_helper_def sample_uid)
  ultimately show ?thesis by (intro exI [of _ q] exI [of _ b']) simp
qed

end
