(* ===== verification/Lifecycle.thy ===== *)
theory Lifecycle
  imports Worker_Runtime
begin

section \<open>The stop fence of the runtime helper\<close>

text \<open>
  \<open>runtimehelper/session_lifecycle.go\<close>, \<open>session_lifecycle_linux.go\<close> and
  \<open>session_lifecycle_request.go\<close>, with the dispatch and the result cache of \<open>Execute\<close> in
  \<open>runtimehelper/engine.go\<close>. A stop intent is a file that is never removed; a launch is submitted
  under the lock of the session's intent, after the file has been looked for. The state is the
  private directory. What the operating system answers, what the stored specifications say and
  what the operations outside this theory do are arguments; the digest that names the files is an
  arbitrary function.
\<close>

subsection \<open>State\<close>

datatype life_error = SessionClosed | SessionStopPending | LifeIO string | LifeInvalid string

record sessionStopIntent =
  si_Version :: int
  si_NodeID :: string
  si_SessionID :: string
  si_Scope :: string
  si_RequestID :: string
  si_Operation :: string
  si_Backend :: string

text \<open>A file with a decodable intent, or one whose mode, size or content is refused.\<close>

datatype stop_file = StopFile sessionStopIntent | BadFile

text \<open>The scope file names the node the directory belongs to.\<close>

record life_store =
  ls_scope :: "string option"
  ls_files :: "(string \<times> stop_file) list"

definition validateID :: "string \<Rightarrow> bool" where
  "validateID value = (\<not> (length value > 128 \<or> value = []) \<and> list_all label_char value)"

definition stop_operations :: "string list" where
  "stop_operations = [''stop_session'', ''docker_stop_session'', ''cleanup_resources'', ''cancel_managed_session'', ''record_session_stop_intent'']"

definition known_backend :: "string \<Rightarrow> bool" where
  "known_backend backend = (backend = ''native'' \<or> backend = ''docker_sandbox'')"

definition intent_validate :: "sessionStopIntent \<Rightarrow> string \<Rightarrow> string \<Rightarrow> life_error option" where
  "intent_validate intent node session =
     (if si_Version intent \<noteq> 1 \<or> si_NodeID intent \<noteq> node \<or> si_SessionID intent \<noteq> session \<or> si_Scope intent \<noteq> ''tool_session''
         \<or> \<not> known_backend (si_Backend intent) then Some (LifeInvalid ''invalid session stop identity'')
      else if \<not> list_all validateID [node, session, si_RequestID intent] then Some (LifeInvalid ''lifecycle identity'')
      else if si_Operation intent \<notin> set stop_operations then Some (LifeInvalid ''invalid session stop operation'')
      else None)"

definition lifecycleName :: "(string \<Rightarrow> string) \<Rightarrow> string \<Rightarrow> string \<Rightarrow> string" where
  "lifecycleName digest session suffix = digest (''tool_session'' @ CHR 0x00 # session) @ suffix"

subsection \<open>The directory\<close>

text \<open>What the operating system answers while a section under the intent lock runs.\<close>

record life_env =
  le_root :: "life_error option"
  le_scopeLock :: "life_error option"
  le_scopeRead :: "life_error option"
  le_scopePublish :: "life_error option"
  le_scopeSync :: "life_error option"
  le_lock :: "life_error option"
  le_open :: "life_error option"
  le_fileSync :: "life_error option"
  le_dirSync :: "life_error option"
  le_temporary :: "life_error option"
  le_write :: "life_error option"
  le_tempSync :: "life_error option"
  le_rename :: "life_error option"
  le_finalSync :: "life_error option"

fun first_failure :: "life_error option list \<Rightarrow> life_error option" where
  "first_failure [] = None"
| "first_failure (Some e # rest) = Some e"
| "first_failure (None # rest) = first_failure rest"

text \<open>
  \<open>verifyLifecycleScope\<close>: a missing scope file is published, whose last sync may fail after the
  file is visible.
\<close>

definition verifyLifecycleScope :: "string \<Rightarrow> life_env \<Rightarrow> life_store \<Rightarrow> life_store \<times> life_error option" where
  "verifyLifecycleScope nodeID env st =
     (case le_scopeLock env of Some e \<Rightarrow> (st, Some e)
      | None \<Rightarrow>
          (case ls_scope st of
             None \<Rightarrow>
               (case le_scopePublish env of Some e \<Rightarrow> (st, Some e)
                | None \<Rightarrow> (st\<lparr>ls_scope := Some nodeID\<rparr>, le_scopeSync env))
           | Some scope \<Rightarrow>
               if le_scopeRead env \<noteq> None then (st, le_scopeRead env)
               else if scope \<noteq> nodeID
               then (st, Some (LifeInvalid ''session lifecycle store belongs to a different Node or version''))
               else (st, le_scopeSync env)))"

definition openSessionLifecycleStore :: "string \<Rightarrow> life_env \<Rightarrow> life_store \<Rightarrow> life_store \<times> life_error option" where
  "openSessionLifecycleStore nodeID env st =
     (if \<not> validateID nodeID then (st, Some (LifeInvalid ''node_id''))
      else (case le_root env of Some e \<Rightarrow> (st, Some e) | None \<Rightarrow> verifyLifecycleScope nodeID env st))"

definition readSessionStop :: "(string \<Rightarrow> string) \<Rightarrow> string \<Rightarrow> life_env \<Rightarrow> string \<Rightarrow> life_store \<Rightarrow> life_error + bool" where
  "readSessionStop digest nodeID env session st =
     (case map_of (ls_files st) (lifecycleName digest session ''.stop.json'') of
        None \<Rightarrow> (case le_open env of Some e \<Rightarrow> Inl e | None \<Rightarrow> Inr False)
      | Some BadFile \<Rightarrow> Inl (LifeInvalid ''invalid session stop record'')
      | Some (StopFile intent) \<Rightarrow>
          (case first_failure [le_open env, intent_validate intent nodeID session, le_fileSync env, le_dirSync env] of
             Some e \<Rightarrow> Inl e | None \<Rightarrow> Inr True))"

text \<open>The rename does not replace: it cannot succeed where a file is.\<close>

definition publishSessionStop :: "(string \<Rightarrow> string) \<Rightarrow> string \<Rightarrow> life_env \<Rightarrow> sessionStopIntent \<Rightarrow> life_store \<Rightarrow>
    life_store \<times> life_error option" where
  "publishSessionStop digest nodeID env intent st =
     (case intent_validate intent nodeID (si_SessionID intent) of Some e \<Rightarrow> (st, Some e)
      | None \<Rightarrow>
          (case openSessionLifecycleStore nodeID env st of (st, Some e) \<Rightarrow> (st, Some e)
           | (st, None) \<Rightarrow>
               (case le_lock env of Some e \<Rightarrow> (st, Some e)
                | None \<Rightarrow>
                    (case readSessionStop digest nodeID env (si_SessionID intent) st of
                       Inl e \<Rightarrow> (st, Some e)
                     | Inr True \<Rightarrow> (st, None)
                     | Inr False \<Rightarrow>
                         (case first_failure [le_temporary env, le_write env, le_tempSync env, le_rename env] of
                            Some e \<Rightarrow> (st, Some e)
                          | None \<Rightarrow>
                              (st\<lparr>ls_files := put (lifecycleName digest (si_SessionID intent) ''.stop.json'') (StopFile intent) (ls_files st)\<rparr>,
                               le_finalSync env))))))"

definition sessionStopState :: "(string \<Rightarrow> string) \<Rightarrow> string \<Rightarrow> life_env \<Rightarrow> string \<Rightarrow> life_store \<Rightarrow> life_store \<times> (life_error + bool)" where
  "sessionStopState digest nodeID env session st =
     (case openSessionLifecycleStore nodeID env st of (st, Some e) \<Rightarrow> (st, Inl e)
      | (st, None) \<Rightarrow>
          (case le_lock env of Some e \<Rightarrow> (st, Inl e)
           | None \<Rightarrow> (st, readSessionStop digest nodeID env session st)))"

definition requireSessionOpen :: "(string \<Rightarrow> string) \<Rightarrow> string \<Rightarrow> life_env \<Rightarrow> string \<Rightarrow> life_store \<Rightarrow> life_store \<times> life_error option" where
  "requireSessionOpen digest nodeID env session st =
     (case sessionStopState digest nodeID env session st of
        (st, Inl e) \<Rightarrow> (st, Some e)
      | (st, Inr stopped) \<Rightarrow> (st, if stopped then Some SessionClosed else None))"

definition fenced_kind :: "string \<Rightarrow> bool" where
  "fenced_kind kind = (kind = ''session'' \<or> kind = ''tool'')"

text \<open>
  \<open>withSessionAdmission\<close>: whether the launch was submitted, and the error. \<open>submit\<close> is what the
  submission answers.
\<close>

definition withSessionAdmission :: "(string \<Rightarrow> string) \<Rightarrow> string \<Rightarrow> life_env \<Rightarrow> string \<Rightarrow> string \<Rightarrow> life_error option \<Rightarrow> life_store \<Rightarrow>
    life_store \<times> bool \<times> life_error option" where
  "withSessionAdmission digest nodeID env session kind submit st =
     (if \<not> fenced_kind kind then (st, True, submit)
      else (case openSessionLifecycleStore nodeID env st of (st, Some e) \<Rightarrow> (st, False, Some e)
            | (st, None) \<Rightarrow>
                (case le_lock env of Some e \<Rightarrow> (st, False, Some e)
                 | None \<Rightarrow>
                     (case readSessionStop digest nodeID env session st of
                        Inl e \<Rightarrow> (st, False, Some e)
                      | Inr True \<Rightarrow> (st, False, Some SessionClosed)
                      | Inr False \<Rightarrow> (st, True, submit)))))"

subsection \<open>Requests\<close>

record Request =
  rq_Version :: int
  rq_LifecycleVersion :: int
  rq_RequestID :: string
  rq_Operation :: string
  rq_Payload :: payload

record sessionLifecycleIdentity =
  li_session :: string
  li_backend :: string

datatype 'a spec_load = Loaded 'a | Missing | LoadError life_error

record native_spec =
  ns_Kind :: string
  ns_UnitName :: string
  ns_SkillSnapshotID :: string
  ns_TaskID :: string
  ns_UserID :: string
  ns_AccountID :: string

record docker_spec =
  ds_kind :: string
  ds_SandboxName :: string

definition managed_operations :: "string list" where
  "managed_operations = [''prepare_managed_session_spec'', ''start_managed_session'', ''recover_managed_session'', ''cancel_managed_session'']"

text \<open>
  \<open>lifecycleIdentity\<close>: \<open>None\<close> when the operation has no session. The decoded identity of a managed
  operation is an argument.
\<close>

definition lifecycleIdentity :: "life_error + string \<Rightarrow> Request \<Rightarrow> (life_error + sessionLifecycleIdentity) option" where
  "lifecycleIdentity managed request =
     (let operation = rq_Operation request; payload = rq_Payload request in
      if operation \<in> set managed_operations
      then Some (case managed of Inl e \<Rightarrow> Inl e | Inr session \<Rightarrow> Inr \<lparr>li_session = session, li_backend = ''native''\<rparr>)
      else if operation = ''prepare_account'' \<or> operation = ''docker_prepare_account''
      then (let session = string_field payload ''binding_id'';
                backend = (if operation = ''docker_prepare_account'' then ''docker_sandbox'' else ''native'') in
            Some (if validateID session then Inr \<lparr>li_session = session, li_backend = backend\<rparr> else Inl (LifeInvalid ''binding_id'')))
      else if operation \<in> set [''start_session'', ''stop_session'', ''docker_start_session'', ''docker_stop_session'', ''record_session_stop_intent'']
      then (let session = string_field payload ''session_id'';
                backend = (if operation = ''docker_start_session'' \<or> operation = ''docker_stop_session'' then ''docker_sandbox''
                           else if operation = ''record_session_stop_intent'' then string_field payload ''runtime_backend''
                           else ''native'') in
            Some (if \<not> validateID session then Inl (LifeInvalid ''session_id'')
                  else if \<not> known_backend backend then Inl (LifeInvalid ''invalid session lifecycle backend'')
                  else if (case map_of payload ''runtime_backend'' of None \<Rightarrow> False | Some raw \<Rightarrow> raw \<noteq> JString backend)
                  then Inl (LifeInvalid ''session lifecycle backend mismatch'')
                  else Inr \<lparr>li_session = session, li_backend = backend\<rparr>))
      else None)"

definition sessionStopOperation :: "string \<Rightarrow> bool" where
  "sessionStopOperation operation = (operation \<in> set stop_operations)"

definition resource_mismatch :: "payload \<Rightarrow> string \<Rightarrow> bool" where
  "resource_mismatch payload original =
     (case map_of payload ''runtime_resource_id'' of Some (JString resource) \<Rightarrow> resource \<noteq> [] \<and> resource \<noteq> original | _ \<Rightarrow> False)"

text \<open>The four fields of a finalization identity, as text that is a valid identifier.\<close>

definition pointer_field :: "(string \<times> json_value) list \<Rightarrow> string \<Rightarrow> bool" where
  "pointer_field pointer field = (case map_of pointer field of Some (JString value) \<Rightarrow> validateID value | _ \<Rightarrow> False)"

definition finalization_check :: "native_spec spec_load \<Rightarrow> json_value option \<Rightarrow> life_error option" where
  "finalization_check native raw =
     (case raw of None \<Rightarrow> None
      | Some (JObject pointer) \<Rightarrow>
          if length pointer \<noteq> 4 \<or> \<not> list_all (pointer_field pointer) [''snapshot_id'', ''task_id'', ''user_id'', ''account_id'']
          then Some (LifeInvalid ''invalid finalization identity'')
          else (case native of
                  Loaded spec \<Rightarrow>
                    if string_field pointer ''snapshot_id'' \<noteq> ns_SkillSnapshotID spec \<or> string_field pointer ''task_id'' \<noteq> ns_TaskID spec
                       \<or> string_field pointer ''user_id'' \<noteq> ns_UserID spec \<or> string_field pointer ''account_id'' \<noteq> ns_AccountID spec
                    then Some (LifeInvalid ''finalization identity differs from original spec'') else None
                | _ \<Rightarrow> None)
      | Some _ \<Rightarrow> Some (LifeInvalid ''invalid finalization identity''))"

definition text_if_present :: "payload \<Rightarrow> string \<Rightarrow> bool" where
  "text_if_present payload field = (case map_of payload field of None \<Rightarrow> True | Some (JString _) \<Rightarrow> True | Some _ \<Rightarrow> False)"

definition native_binding_check :: "native_spec spec_load \<Rightarrow> sessionLifecycleIdentity \<Rightarrow> payload \<Rightarrow> life_error option" where
  "native_binding_check native identity payload =
     (case native of
        Loaded spec \<Rightarrow>
          if ns_Kind spec \<noteq> ''session'' \<or> li_backend identity \<noteq> ''native''
          then Some (LifeInvalid ''session stop does not match the original runtime kind/backend'')
          else if resource_mismatch payload (ns_UnitName spec) then Some (LifeInvalid ''session stop resource identity mismatch'')
          else None
      | Missing \<Rightarrow> None
      | LoadError e \<Rightarrow> Some e)"

definition docker_binding_check :: "docker_spec spec_load \<Rightarrow> sessionLifecycleIdentity \<Rightarrow> payload \<Rightarrow> life_error option" where
  "docker_binding_check docker identity payload =
     (case docker of
        Loaded spec \<Rightarrow>
          if ds_kind spec \<noteq> ''tool'' \<or> li_backend identity \<noteq> ''docker_sandbox''
          then Some (LifeInvalid ''session stop does not match the original Docker kind/backend'')
          else if resource_mismatch payload (ds_SandboxName spec) then Some (LifeInvalid ''session stop resource identity mismatch'')
          else None
      | Missing \<Rightarrow> None
      | LoadError e \<Rightarrow> Some e)"

definition validateSessionStopBinding :: "native_spec spec_load \<Rightarrow> docker_spec spec_load \<Rightarrow> sessionLifecycleIdentity \<Rightarrow> payload \<Rightarrow>
    life_error option" where
  "validateSessionStopBinding native docker identity payload =
     first_failure
       [native_binding_check native identity payload, docker_binding_check docker identity payload,
        finalization_check native (map_of payload ''skill_finalization''),
        if list_all (text_if_present payload) [''runtime_resource_id'', ''tmux_session_name'', ''sandbox_name''] then None
        else Some (LifeInvalid ''invalid session stop identity field'')]"

text \<open>The stored specifications, the managed decoder and the managed check are arguments.\<close>

record request_env =
  qe_managed :: "life_error + string"
  qe_native :: "string \<Rightarrow> native_spec spec_load"
  qe_docker :: "string \<Rightarrow> docker_spec spec_load"
  qe_managedStop :: "sessionLifecycleIdentity \<Rightarrow> life_error option"

definition stop_identity_check :: "request_env \<Rightarrow> payload \<Rightarrow> sessionLifecycleIdentity \<Rightarrow> life_error option" where
  "stop_identity_check q payload identity =
     first_failure
       [validateSessionStopBinding (qe_native q (li_session identity)) (qe_docker q (li_session identity)) identity payload,
        qe_managedStop q identity]"

fun cleanup_identities :: "request_env \<Rightarrow> string \<Rightarrow> string list \<Rightarrow> json_value list \<Rightarrow> life_error + sessionLifecycleIdentity list" where
  "cleanup_identities q backend seen [] = Inr []"
| "cleanup_identities q backend seen (JString session # rest) =
     (if \<not> validateID session \<or> session \<in> set seen then Inl (LifeInvalid ''invalid cleanup identity'')
      else (let identity = \<lparr>li_session = session, li_backend = backend\<rparr> in
            case stop_identity_check q [] identity of Some e \<Rightarrow> Inl e
            | None \<Rightarrow>
                (case cleanup_identities q backend (session # seen) rest of Inl e \<Rightarrow> Inl e
                 | Inr identities \<Rightarrow> Inr (identity # identities))))"
| "cleanup_identities q backend seen (_ # rest) = Inl (LifeInvalid ''invalid cleanup identity'')"

definition stopRequestIdentities :: "request_env \<Rightarrow> Request \<Rightarrow> life_error + sessionLifecycleIdentity list" where
  "stopRequestIdentities q request =
     (if rq_Version request \<noteq> 1 \<or> rq_LifecycleVersion request \<noteq> 0 \<and> rq_LifecycleVersion request \<noteq> 1
         \<or> \<not> validateID (rq_RequestID request) then Inl (LifeInvalid ''invalid stop request'')
      else if \<not> sessionStopOperation (rq_Operation request) then Inr []
      else if rq_Operation request \<noteq> ''cleanup_resources''
      then (case lifecycleIdentity (qe_managed q) request of
              Some (Inr identity) \<Rightarrow>
                (case stop_identity_check q (rq_Payload request) identity of Some e \<Rightarrow> Inl e | None \<Rightarrow> Inr [identity])
            | Some (Inl e) \<Rightarrow> Inl e
            | None \<Rightarrow> Inr [])
      else (case map_of (rq_Payload request) ''runtime_backend'' of
              Some (JString backend) \<Rightarrow>
                if \<not> known_backend backend then Inl (LifeInvalid ''invalid cleanup backend'')
                else (case map_of (rq_Payload request) ''session_ids'' of
                        Some (JArray ids) \<Rightarrow>
                          if ids = [] \<or> length ids > 100 then Inl (LifeInvalid ''invalid cleanup batch'')
                          else cleanup_identities q backend [] ids
                      | _ \<Rightarrow> Inl (LifeInvalid ''invalid cleanup batch''))
            | _ \<Rightarrow> Inl (LifeInvalid ''invalid cleanup backend'')))"

definition stop_intent_of :: "string \<Rightarrow> Request \<Rightarrow> sessionLifecycleIdentity \<Rightarrow> sessionStopIntent" where
  "stop_intent_of nodeID request identity =
     \<lparr>si_Version = 1, si_NodeID = nodeID, si_SessionID = li_session identity, si_Scope = ''tool_session'',
      si_RequestID = rq_RequestID request, si_Operation = rq_Operation request, si_Backend = li_backend identity\<rparr>"

text \<open>The loop that publishes, with the answers of the operating system for each turn.\<close>

fun publish_intents :: "(string \<Rightarrow> string) \<Rightarrow> string \<Rightarrow> (nat \<Rightarrow> life_env) \<Rightarrow> sessionStopIntent list \<Rightarrow> life_store \<Rightarrow>
    life_store \<times> life_error option" where
  "publish_intents digest nodeID envs [] st = (st, None)"
| "publish_intents digest nodeID envs (intent # rest) st =
     (case publishSessionStop digest nodeID (envs (length rest)) intent st of
        (st, Some _) \<Rightarrow> (st, Some SessionStopPending)
      | (st, None) \<Rightarrow> publish_intents digest nodeID envs rest st)"

definition prepareSessionStopIntents :: "(string \<Rightarrow> string) \<Rightarrow> string \<Rightarrow> request_env \<Rightarrow> (nat \<Rightarrow> life_env) \<Rightarrow> Request \<Rightarrow> life_store \<Rightarrow>
    life_store \<times> life_error option" where
  "prepareSessionStopIntents digest nodeID q envs request st =
     (if \<not> sessionStopOperation (rq_Operation request) then (st, None)
      else (case stopRequestIdentities q request of
              Inl e \<Rightarrow> (st, Some e)
            | Inr identities \<Rightarrow> publish_intents digest nodeID envs (map (stop_intent_of nodeID request) identities) st))"

subsection \<open>Executing a request\<close>

text \<open>
  The helper's state: the lifecycle directory and the cache of results, keyed by the digest of the
  request identifier.
\<close>

record helper_state =
  hs_store :: life_store
  hs_cache :: "(string \<times> payload) list"

record exec_env =
  xe_request :: request_env
  xe_publish :: "nat \<Rightarrow> life_env"
  xe_runtimeLock :: "life_error option"
  xe_cacheErr :: "life_error option"
  xe_saveErr :: "life_error option"
  xe_reobserve :: "life_error option"
  xe_open :: life_env
  xe_prepare :: "life_error option"
  xe_other :: "life_store \<Rightarrow> life_store"
  xe_admit :: life_env
  xe_submit :: "life_error option"
  xe_ready :: "life_error option"
  xe_result :: "life_error + payload"
  xe_final :: life_env

text \<open>What an execution tells besides its result: launch submitted, admission, replay.\<close>

record exec_report =
  xr_submitted :: bool
  xr_fresh :: bool
  xr_replay :: bool

definition quiet :: exec_report where
  "quiet = \<lparr>xr_submitted = False, xr_fresh = False, xr_replay = False\<rparr>"

text \<open>\<open>submitSessionLaunch\<close>: an admitted launch of a fenced kind counts as a fresh admission.\<close>

definition submitSessionLaunch :: "(string \<Rightarrow> string) \<Rightarrow> string \<Rightarrow> life_env \<Rightarrow> string \<Rightarrow> string \<Rightarrow> life_error option \<Rightarrow> life_store \<Rightarrow>
    life_store \<times> exec_report \<times> life_error option" where
  "submitSessionLaunch digest nodeID env session kind submit st =
     (case withSessionAdmission digest nodeID env session kind submit st of
        (st, submitted, err) \<Rightarrow>
          (st, \<lparr>xr_submitted = submitted, xr_fresh = (err = None \<and> fenced_kind kind), xr_replay = False\<rparr>, err))"

text \<open>
  A session start, native or Docker: the fence is looked at, the slot and the payload are checked,
  the runtime is prepared (\<open>xe_prepare\<close>), other processes act on the directory meanwhile, the launch
  is submitted, and the runtime becomes ready.
\<close>

definition start_launch :: "(string \<Rightarrow> string) \<Rightarrow> string \<Rightarrow> exec_env \<Rightarrow> string \<Rightarrow> string \<Rightarrow> payload \<Rightarrow> life_store \<Rightarrow>
    life_store \<times> exec_report \<times> (life_error + payload)" where
  "start_launch digest nodeID x backend kind payload st =
     (let session = string_field payload ''session_id''; q = xe_request x in
      case requireSessionOpen digest nodeID (xe_open x) session st of (st, Some e) \<Rightarrow> (st, quiet, Inl e)
      | (st, None) \<Rightarrow>
          if \<not> validateID session then (st, quiet, Inl (LifeInvalid ''session_id''))
          else (case first_failure
                       [validateSessionStopBinding (qe_native q session) (qe_docker q session)
                          \<lparr>li_session = session, li_backend = backend\<rparr> [], xe_prepare x] of
                  Some e \<Rightarrow> (st, quiet, Inl e)
                | None \<Rightarrow>
                    (case submitSessionLaunch digest nodeID (xe_admit x) session kind (xe_submit x) (xe_other x st) of
                       (st, report, Some e) \<Rightarrow> (st, report, Inl e)
                     | (st, report, None) \<Rightarrow>
                         (case xe_ready x of Some e \<Rightarrow> (st, report, Inl e) | None \<Rightarrow> (st, report, xe_result x)))))"

definition beginSessionExecution :: "(string \<Rightarrow> string) \<Rightarrow> string \<Rightarrow> exec_env \<Rightarrow> Request \<Rightarrow> life_store \<Rightarrow>
    life_store \<times> (life_error + sessionLifecycleIdentity option)" where
  "beginSessionExecution digest nodeID x request st =
     (if rq_LifecycleVersion request \<noteq> 0 \<and> rq_LifecycleVersion request \<noteq> 1
      then (st, Inl (LifeInvalid ''unsupported session lifecycle protocol''))
      else (case prepareSessionStopIntents digest nodeID (xe_request x) (xe_publish x) request st of
              (st, Some e) \<Rightarrow> (st, Inl e)
            | (st, None) \<Rightarrow>
                (case lifecycleIdentity (qe_managed (xe_request x)) request of
                   None \<Rightarrow> (st, Inr None)
                 | Some (Inl e) \<Rightarrow> (st, Inl e)
                 | Some (Inr identity) \<Rightarrow>
                     if rq_Operation request = ''record_session_stop_intent'' then (st, Inr (Some identity))
                     else (case xe_runtimeLock x of Some e \<Rightarrow> (st, Inl e) | None \<Rightarrow> (st, Inr (Some identity))))))"

definition routed_operations :: "string list" where
  "routed_operations = [''recover_account_migration'', ''migrate_account'', ''import_account_config'', ''start_managed_session'',
     ''recover_managed_session'', ''cancel_managed_session'', ''capture_account_takeover'', ''prepare_managed_session_spec'']"

definition cacheable :: "string \<Rightarrow> bool" where
  "cacheable operation =
     (operation \<notin> set [''record_session_stop_intent'', ''probe'', ''inspect_session'', ''list_sessions'', ''wireguard_sync''])"

text \<open>The dispatch of the operations that are not answered from the cache.\<close>

definition run_operation :: "(string \<Rightarrow> string) \<Rightarrow> string \<Rightarrow> exec_env \<Rightarrow> Request \<Rightarrow> life_store \<Rightarrow>
    life_store \<times> exec_report \<times> (life_error + payload)" where
  "run_operation digest nodeID x request st =
     (if rq_Operation request = ''record_session_stop_intent'' then (st, quiet, Inr [(''intent_recorded'', true_value)])
      else if rq_Operation request = ''start_session'' then start_launch digest nodeID x ''native'' ''session'' (rq_Payload request) st
      else if rq_Operation request = ''docker_start_session''
      then start_launch digest nodeID x ''docker_sandbox'' ''tool'' (rq_Payload request) st
      else (st, quiet, xe_result x))"

definition Execute :: "(string \<Rightarrow> string) \<Rightarrow> string \<Rightarrow> exec_env \<Rightarrow> Request \<Rightarrow> helper_state \<Rightarrow>
    helper_state \<times> exec_report \<times> sessionLifecycleIdentity option \<times> (life_error + payload)" where
  "Execute digest nodeID x request h =
     (if rq_Version request \<noteq> 1 then (h, quiet, None, Inl (LifeInvalid ''unsupported protocol version''))
      else if \<not> validateID (rq_RequestID request) then (h, quiet, None, Inl (LifeInvalid ''request_id''))
      else if start_operation (rq_Operation request) \<and> RequireLegacySkillStartup (rq_Payload request) \<noteq> None
      then (h, quiet, None, Inl (LifeInvalid ''managed skill session preparation is unavailable''))
      else (case beginSessionExecution digest nodeID x request (hs_store h) of
              (st, Inl e) \<Rightarrow> (h\<lparr>hs_store := st\<rparr>, quiet, None, Inl e)
            | (st, Inr identity) \<Rightarrow>
                let h = h\<lparr>hs_store := st\<rparr>; key = digest (rq_RequestID request) in
                if rq_Operation request \<in> set routed_operations then (h, quiet, identity, xe_result x)
                else if cacheable (rq_Operation request) \<and> xe_cacheErr x \<noteq> None
                then (h, quiet, identity, Inl (the (xe_cacheErr x)))
                else (case (if cacheable (rq_Operation request) then map_of (hs_cache h) key else None) of
                        Some cached \<Rightarrow>
                          if sessionStopOperation (rq_Operation request) \<and> xe_reobserve x \<noteq> None
                          then (h, quiet\<lparr>xr_replay := True\<rparr>, identity, Inl SessionStopPending)
                          else (h, quiet\<lparr>xr_replay := True\<rparr>, identity, Inr cached)
                      | None \<Rightarrow>
                          (case run_operation digest nodeID x request (hs_store h) of
                             (st, report, Inl e) \<Rightarrow> (h\<lparr>hs_store := st\<rparr>, report, identity, Inl e)
                           | (st, report, Inr result) \<Rightarrow>
                               if \<not> cacheable (rq_Operation request) then (h\<lparr>hs_store := st\<rparr>, report, identity, Inr result)
                               else (case xe_saveErr x of
                                       Some e \<Rightarrow> (h\<lparr>hs_store := st\<rparr>, report, identity, Inl e)
                                     | None \<Rightarrow> (h\<lparr>hs_store := st, hs_cache := put key result (hs_cache h)\<rparr>, report, identity, Inr result))))))"

record SessionExecution =
  sx_SessionID :: string
  sx_Backend :: string
  sx_ReceiptReplay :: bool
  sx_FreshAdmission :: bool
  sx_StopIntent :: bool

text \<open>\<open>executeSessionResponse\<close> for a request that negotiates the lifecycle protocol.\<close>

definition executeSessionResponse :: "(string \<Rightarrow> string) \<Rightarrow> string \<Rightarrow> exec_env \<Rightarrow> Request \<Rightarrow> helper_state \<Rightarrow>
    helper_state \<times> exec_report \<times> (life_error + payload \<times> SessionExecution option)" where
  "executeSessionResponse digest nodeID x request h =
     (case Execute digest nodeID x request h of
        (h, report, identity, Inl e) \<Rightarrow> (h, report, Inl e)
      | (h, report, identity, Inr result) \<Rightarrow>
          if rq_LifecycleVersion request \<noteq> 1 then (h, report, Inr (result, None))
          else (case identity of
                  None \<Rightarrow> (h, report, Inl (LifeInvalid ''session observation unavailable''))
                | Some i \<Rightarrow>
                    (case sessionStopState digest nodeID (xe_final x) (li_session i) (hs_store h) of
                       (st, Inl e) \<Rightarrow> (h\<lparr>hs_store := st\<rparr>, report, Inl e)
                     | (st, Inr stopped) \<Rightarrow>
                         (h\<lparr>hs_store := st\<rparr>, report,
                          Inr (result, Some \<lparr>sx_SessionID = li_session i, sx_Backend = li_backend i, sx_ReceiptReplay = xr_replay report,
                            sx_FreshAdmission = (xr_fresh report \<and> \<not> stopped \<and> \<not> xr_replay report), sx_StopIntent = stopped\<rparr>)))))"

subsection \<open>Runs of the directory\<close>

text \<open>
  What any number of helper processes do to the directory, one section under a lock at a time, and
  the decay of a file into one that is refused.
\<close>

datatype life_event =
    LPublish sessionStopIntent "life_error option"
  | LAdmit string string bool
  | LObserve string "life_error + bool"
  | LCorrupt string

inductive life_step :: "(string \<Rightarrow> string) \<Rightarrow> life_store \<Rightarrow> life_event \<Rightarrow> life_store \<Rightarrow> bool" for digest where
  publish: "publishSessionStop digest nodeID env intent st = (st', res) \<Longrightarrow> life_step digest st (LPublish intent res) st'"
| admit: "withSessionAdmission digest nodeID env session kind submit st = (st', submitted, res) \<Longrightarrow>
    life_step digest st (LAdmit session kind submitted) st'"
| observe: "sessionStopState digest nodeID env session st = (st', res) \<Longrightarrow> life_step digest st (LObserve session res) st'"
| corrupt: "name \<in> keys (ls_files st) \<Longrightarrow> life_step digest st (LCorrupt name) (st\<lparr>ls_files := put name BadFile (ls_files st)\<rparr>)"

inductive_cases admitE: "life_step digest st (LAdmit session kind submitted) st'"

abbreviation stop_name :: "(string \<Rightarrow> string) \<Rightarrow> string \<Rightarrow> string" where
  "stop_name digest session \<equiv> lifecycleName digest session ''.stop.json''"

lemma open_files: "ls_files (fst (openSessionLifecycleStore nodeID env st)) = ls_files st"
  by (simp add: openSessionLifecycleStore_def verifyLifecycleScope_def split: option.split)

lemma open_filesD: "openSessionLifecycleStore nodeID env st = (st', res) \<Longrightarrow> ls_files st' = ls_files st"
  using open_files [of nodeID env st] by simp

lemma read_fenced:
  assumes "stop_name digest session \<in> keys (ls_files st)"
  shows "readSessionStop digest nodeID env session st \<noteq> Inr False"
proof -
  obtain f where "map_of (ls_files st) (stop_name digest session) = Some f" using assms unfolding in_keys_Some by blast
  then show ?thesis by (cases f) (auto simp: readSessionStop_def split: option.splits)
qed

lemma read_stopped: "readSessionStop digest nodeID env session st = Inr True \<Longrightarrow> stop_name digest session \<in> keys (ls_files st)"
  unfolding in_keys_Some by (auto simp: readSessionStop_def split: option.splits)

lemma stop_publish_cases:
  assumes "publishSessionStop digest nodeID env intent st = (st', res)"
  shows "keys (ls_files st) \<subseteq> keys (ls_files st')" "res = None \<Longrightarrow> stop_name digest (si_SessionID intent) \<in> keys (ls_files st')"
proof -
  obtain st1 r where o: "openSessionLifecycleStore nodeID env st = (st1, r)" by fastforce
  have files: "ls_files st1 = ls_files st" by (rule open_filesD [OF o])
  have "st' = st1 \<and> (res = None \<longrightarrow> readSessionStop digest nodeID env (si_SessionID intent) st1 = Inr True) \<or> st' = st \<and> res \<noteq> None \<or>
      ls_files st' = put (stop_name digest (si_SessionID intent)) (StopFile intent) (ls_files st1)"
    using assms by (auto simp: publishSessionStop_def o split: option.splits sum.splits bool.splits)
  then have "keys (ls_files st) \<subseteq> keys (ls_files st') \<and> (res = None \<longrightarrow> stop_name digest (si_SessionID intent) \<in> keys (ls_files st'))"
    using files read_stopped [of digest nodeID env "si_SessionID intent" st1]
    by (elim disjE conjE) (simp, fastforce, simp add: subset_insertI)
  then show "keys (ls_files st) \<subseteq> keys (ls_files st')"
    "res = None \<Longrightarrow> stop_name digest (si_SessionID intent) \<in> keys (ls_files st')" by blast+
qed

lemma state_files: "sessionStopState digest nodeID env session st = (st', res) \<Longrightarrow> ls_files st' = ls_files st"
  by (auto simp: sessionStopState_def split: prod.splits option.splits dest: open_filesD)

lemma admission_files: "withSessionAdmission digest nodeID env session kind submit st = (st', r) \<Longrightarrow> ls_files st' = ls_files st"
  by (auto simp: withSessionAdmission_def split: prod.splits option.splits sum.splits bool.splits if_splits dest: open_filesD)

lemma admission_fenced:
  assumes "withSessionAdmission digest nodeID env session kind submit st = (st', submitted, res)" "fenced_kind kind"
    "stop_name digest session \<in> keys (ls_files st)"
  shows "\<not> submitted \<and> res \<noteq> None"
proof -
  obtain st1 r where o: "openSessionLifecycleStore nodeID env st = (st1, r)" by fastforce
  have "readSessionStop digest nodeID env session st1 \<noteq> Inr False"
    by (rule read_fenced) (use assms(3) open_filesD [OF o] in simp)
  then have "\<not> fst (snd (withSessionAdmission digest nodeID env session kind submit st)) \<and>
      snd (snd (withSessionAdmission digest nodeID env session kind submit st)) \<noteq> None"
    using assms(2) by (auto simp: withSessionAdmission_def o split: option.split sum.split bool.split)
  then show ?thesis by (simp add: assms(1))
qed

lemma fence_stays: "life_step digest st e st' \<Longrightarrow> keys (ls_files st) \<subseteq> keys (ls_files st')"
proof (induction rule: life_step.induct)
  case publish
  then show ?case by (rule stop_publish_cases(1))
next
  case admit
  then show ?case using admission_files by auto
next
  case observe
  then show ?case using state_files by auto
next
  case corrupt
  then show ?case by (simp add: subset_insertI)
qed

interpretation fence: invariant_system "life_step digest" "\<lambda>st. name \<in> keys (ls_files st)" for digest name
  by unfold_locales (use fence_stays in blast)


definition good_life :: life_env where
  "good_life = \<lparr>le_root = None, le_scopeLock = None, le_scopeRead = None, le_scopePublish = None, le_scopeSync = None, le_lock = None,
     le_open = None, le_fileSync = None, le_dirSync = None, le_temporary = None, le_write = None, le_tempSync = None,
     le_rename = None, le_finalSync = None\<rparr>"

definition sample_intent :: sessionStopIntent where
  "sample_intent = \<lparr>si_Version = 1, si_NodeID = ''node-1'', si_SessionID = ''t1'', si_Scope = ''tool_session'',
     si_RequestID = ''r1'', si_Operation = ''stop_session'', si_Backend = ''native''\<rparr>"

definition empty_store :: life_store where
  "empty_store = \<lparr>ls_scope = None, ls_files = []\<rparr>"


lemma publish_intents_keys:
  assumes "publish_intents digest nodeID envs intents st = (st', res)"
  shows "keys (ls_files st) \<subseteq> keys (ls_files st')"
    "res = None \<Longrightarrow> \<forall>i \<in> set intents. stop_name digest (si_SessionID i) \<in> keys (ls_files st')"
proof -
  have "keys (ls_files st) \<subseteq> keys (ls_files st') \<and>
      (res = None \<longrightarrow> (\<forall>i \<in> set intents. stop_name digest (si_SessionID i) \<in> keys (ls_files st')))"
    using assms
  proof (induction intents arbitrary: st)
    case (Cons i rest)
    obtain st1 r where p: "publishSessionStop digest nodeID (envs (length rest)) i st = (st1, r)" by fastforce
    show ?case
    proof (cases r)
      case None
      then have rec: "publish_intents digest nodeID envs rest st1 = (st', res)" using Cons.prems p by simp
      show ?thesis using Cons.IH [OF rec] stop_publish_cases [OF p] None by auto
    next
      case (Some e)
      then show ?thesis using Cons.prems p stop_publish_cases(1) [OF p] by auto
    qed
  qed simp
  then show "keys (ls_files st) \<subseteq> keys (ls_files st')"
    "res = None \<Longrightarrow> \<forall>i \<in> set intents. stop_name digest (si_SessionID i) \<in> keys (ls_files st')" by blast+
qed

lemma prepare_keys:
  "prepareSessionStopIntents digest nodeID q envs request st = (st', res) \<Longrightarrow> keys (ls_files st) \<subseteq> keys (ls_files st')"
  using publish_intents_keys(1) by (auto simp: prepareSessionStopIntents_def split: if_splits sum.splits)

lemma cleanup_identities_sessions:
  "cleanup_identities q backend seen ids = Inr is \<Longrightarrow> map (JString \<circ> li_session) is = ids \<and> distinct (map li_session is) \<and>
     set (map li_session is) \<inter> set seen = {} \<and> (\<forall>i \<in> set is. stop_identity_check q [] i = None \<and> li_backend i = backend)"
proof (induction q backend seen ids arbitrary: "is" rule: cleanup_identities.induct)
  case (2 q backend seen session rest)
  let ?i = "\<lparr>li_session = session, li_backend = backend\<rparr>"
  obtain is' where is': "is = ?i # is'" "cleanup_identities q backend (session # seen) rest = Inr is'"
    "session \<notin> set seen" "validateID session" "stop_identity_check q [] ?i = None"
    using 2(2) by (auto simp: Let_def split: if_splits option.splits sum.splits)
  from 2(1) [OF _ refl is'(5) is'(2)] is' show ?case by auto
qed auto

text \<open>
  a stop request closes all of its sessions or is refused before it closes any. If the
  identities of a request do not pass, whichever element of a cleanup batch is wrong, the directory
  is unchanged; if the preparation succeeds, every session of the request is fenced, a batch names
  each session once; and no preparation removes a fence.
\<close>

theorem stop_batch_validated_first:
  assumes "prepareSessionStopIntents digest nodeID q envs request st = (st', res)"
  shows "(\<forall>e. stopRequestIdentities q request = Inl e \<longrightarrow> st' = st) \<and>
    (res = None \<and> sessionStopOperation (rq_Operation request) \<longrightarrow>
       (\<exists>ids. stopRequestIdentities q request = Inr ids \<and> distinct (map li_session ids) \<and>
         (\<forall>i \<in> set ids. stop_identity_check q (if rq_Operation request = ''cleanup_resources'' then [] else rq_Payload request) i = None \<and>
            stop_name digest (li_session i) \<in> keys (ls_files st')))) \<and>
    keys (ls_files st) \<subseteq> keys (ls_files st')"
proof (intro conjI allI impI)
  fix e
  assume "stopRequestIdentities q request = Inl e"
  then show "st' = st" using assms by (simp add: prepareSessionStopIntents_def split: if_splits)
next
  assume ok: "res = None \<and> sessionStopOperation (rq_Operation request)"
  then obtain ids where ids: "stopRequestIdentities q request = Inr ids"
    and p: "publish_intents digest nodeID envs (map (stop_intent_of nodeID request) ids) st = (st', None)"
    using assms by (auto simp: prepareSessionStopIntents_def split: sum.splits)
  have closed_all: "stop_name digest (li_session i) \<in> keys (ls_files st')" if "i \<in> set ids" for i
    using publish_intents_keys(2) [OF p] that by (auto simp: stop_intent_of_def)
  have "distinct (map li_session ids) \<and>
      (\<forall>i \<in> set ids. stop_identity_check q (if rq_Operation request = ''cleanup_resources'' then [] else rq_Payload request) i = None)"
    using ids cleanup_identities_sessions
    by (fastforce simp: stopRequestIdentities_def split: if_splits option.splits sum.splits json_value.splits)
  then show "\<exists>ids. stopRequestIdentities q request = Inr ids \<and> distinct (map li_session ids) \<and>
         (\<forall>i \<in> set ids. stop_identity_check q (if rq_Operation request = ''cleanup_resources'' then [] else rq_Payload request) i = None \<and>
            stop_name digest (li_session i) \<in> keys (ls_files st'))"
    using ids closed_all by blast
next
  show "keys (ls_files st) \<subseteq> keys (ls_files st')" by (rule prepare_keys [OF assms])
qed

definition sample_requests :: request_env where
  "sample_requests = \<lparr>qe_managed = Inl (LifeInvalid ''unused''), qe_native = (\<lambda>_. Missing), qe_docker = (\<lambda>_. Missing),
     qe_managedStop = (\<lambda>_. None)\<rparr>"

definition sample_cleanup :: Request where
  "sample_cleanup = \<lparr>rq_Version = 1, rq_LifecycleVersion = 1, rq_RequestID = ''r1'', rq_Operation = ''cleanup_resources'',
     rq_Payload = [(''runtime_backend'', JString ''native''), (''session_ids'', JArray [JString ''t1'', JString ''t2''])]\<rparr>"

theorem stop_batch_validated_first_witness:
  "\<exists>st. prepareSessionStopIntents id ''node-1'' sample_requests (\<lambda>_. good_life) sample_cleanup empty_store = (st, None) \<and>
     stop_name id ''t2'' \<in> keys (ls_files st)"
proof -
  obtain st where p: "prepareSessionStopIntents id ''node-1'' sample_requests (\<lambda>_. good_life) sample_cleanup empty_store = (st, None)"
    by (simp add: prepareSessionStopIntents_def stopRequestIdentities_def sample_cleanup_def sample_requests_def sessionStopOperation_def
        stop_operations_def stop_identity_check_def validateSessionStopBinding_def native_binding_check_def docker_binding_check_def
        finalization_check_def text_if_present_def known_backend_def validateID_def label_char_def stop_intent_of_def
        publishSessionStop_def intent_validate_def openSessionLifecycleStore_def verifyLifecycleScope_def readSessionStop_def
        lifecycleName_def good_life_def empty_store_def Let_def)
  have stop: "sessionStopOperation (rq_Operation sample_cleanup)" by (simp add: sample_cleanup_def sessionStopOperation_def stop_operations_def)
  have "stopRequestIdentities sample_requests sample_cleanup =
      Inr [\<lparr>li_session = ''t1'', li_backend = ''native''\<rparr>, \<lparr>li_session = ''t2'', li_backend = ''native''\<rparr>]"
    by (simp add: stopRequestIdentities_def sample_cleanup_def sample_requests_def sessionStopOperation_def
        stop_operations_def stop_identity_check_def validateSessionStopBinding_def native_binding_check_def docker_binding_check_def
        finalization_check_def text_if_present_def known_backend_def validateID_def label_char_def Let_def)
  then show ?thesis using stop_batch_validated_first [OF p] stop p by auto
qed

lemma admission_submits:
  "withSessionAdmission digest nodeID env session kind submit st = (st', submitted, None) \<Longrightarrow> submitted"
proof -
  assume w: "withSessionAdmission digest nodeID env session kind submit st = (st', submitted, None)"
  have "snd (snd (withSessionAdmission digest nodeID env session kind submit st)) = None \<longrightarrow>
      fst (snd (withSessionAdmission digest nodeID env session kind submit st))"
    by (auto simp: withSessionAdmission_def split: option.split sum.split bool.split prod.split)
  then show submitted by (simp add: w)
qed

lemma open_fenced:
  assumes "requireSessionOpen digest nodeID env session st = (st', res)" "stop_name digest session \<in> keys (ls_files st)"
  shows "res \<noteq> None"
proof -
  obtain st1 r where o: "openSessionLifecycleStore nodeID env st = (st1, r)" by fastforce
  have "readSessionStop digest nodeID env session st1 \<noteq> Inr False"
    by (rule read_fenced) (use assms(2) open_filesD [OF o] in simp)
  then have "snd (requireSessionOpen digest nodeID env session st) \<noteq> None"
    by (auto simp: requireSessionOpen_def sessionStopState_def o split: option.split sum.split)
  then show ?thesis by (simp add: assms(1))
qed

lemma start_launch_report:
  assumes "start_launch digest nodeID x backend kind payload st = (st', report, res)"
  shows "xr_fresh report \<longrightarrow> xr_submitted report" "\<not> xr_replay report"
    "stop_name digest (string_field payload ''session_id'') \<in> keys (ls_files st) \<longrightarrow> report = quiet"
proof -
  obtain st1 r where o: "requireSessionOpen digest nodeID (xe_open x) (string_field payload ''session_id'') st = (st1, r)" by fastforce
  obtain st2 rep e where sub: "submitSessionLaunch digest nodeID (xe_admit x) (string_field payload ''session_id'') kind (xe_submit x)
      (xe_other x st1) = (st2, rep, e)" by (metis prod_cases3)
  have rep: "xr_fresh rep \<longrightarrow> xr_submitted rep" "\<not> xr_replay rep"
    using sub admission_submits by (auto simp: submitSessionLaunch_def split: prod.splits)
  have "report = quiet \<or> report = rep \<and> r = None"
    using assms by (auto simp: start_launch_def Let_def o sub split: option.splits if_splits)
  then show "xr_fresh report \<longrightarrow> xr_submitted report" "\<not> xr_replay report"
    "stop_name digest (string_field payload ''session_id'') \<in> keys (ls_files st) \<longrightarrow> report = quiet"
    using rep open_fenced [OF o] by (auto simp: quiet_def)
qed

lemma run_operation_report:
  assumes "run_operation digest nodeID x request st = (st', report, res)"
  shows "xr_fresh report \<longrightarrow> xr_submitted report \<and> start_operation (rq_Operation request)" "\<not> xr_replay report"
    "stop_name digest (string_field (rq_Payload request) ''session_id'') \<in> keys (ls_files st) \<longrightarrow> report = quiet"
    "\<not> start_operation (rq_Operation request) \<longrightarrow> st' = st"
proof -
  consider (start) backend kind where "start_operation (rq_Operation request)"
      "start_launch digest nodeID x backend kind (rq_Payload request) st = (st', report, res)"
    | (plain) "\<not> start_operation (rq_Operation request)" "st' = st" "report = quiet"
    using assms by (auto simp: run_operation_def start_operation_def split: if_splits)
  then have "(xr_fresh report \<longrightarrow> xr_submitted report \<and> start_operation (rq_Operation request)) \<and> \<not> xr_replay report \<and>
    (stop_name digest (string_field (rq_Payload request) ''session_id'') \<in> keys (ls_files st) \<longrightarrow> report = quiet) \<and>
    (\<not> start_operation (rq_Operation request) \<longrightarrow> st' = st)"
  proof cases
    case start
    then show ?thesis using start_launch_report [OF start(2)] by simp
  qed (simp add: quiet_def)
  then show "xr_fresh report \<longrightarrow> xr_submitted report \<and> start_operation (rq_Operation request)" "\<not> xr_replay report"
    "stop_name digest (string_field (rq_Payload request) ''session_id'') \<in> keys (ls_files st) \<longrightarrow> report = quiet"
    "\<not> start_operation (rq_Operation request) \<longrightarrow> st' = st" by blast+
qed

lemma begin_execution:
  assumes "beginSessionExecution digest nodeID x request st = (st', Inr identity)"
  shows "keys (ls_files st) \<subseteq> keys (ls_files st')"
    "sessionStopOperation (rq_Operation request) \<Longrightarrow> rq_Operation request \<noteq> ''cleanup_resources'' \<Longrightarrow>
       \<exists>i. identity = Some i \<and> stop_name digest (li_session i) \<in> keys (ls_files st')"
proof -
  let ?q = "xe_request x"
  have p: "prepareSessionStopIntents digest nodeID ?q (xe_publish x) request st = (st', None)"
    and i: "lifecycleIdentity (qe_managed ?q) request = map_option Inr identity"
    using assms by (auto simp: beginSessionExecution_def split: if_splits prod.splits option.splits sum.splits)
  show "keys (ls_files st) \<subseteq> keys (ls_files st')" by (rule prepare_keys [OF p])
  assume stop: "sessionStopOperation (rq_Operation request)" "rq_Operation request \<noteq> ''cleanup_resources''"
  then have "lifecycleIdentity (qe_managed ?q) request \<noteq> None"
    by (auto simp: lifecycleIdentity_def sessionStopOperation_def stop_operations_def managed_operations_def Let_def)
  then obtain j where j: "identity = Some j" using i by auto
  then have "\<exists>ids. stopRequestIdentities ?q request = Inr ids \<and> j \<in> set ids"
    using p stop i by (auto simp: prepareSessionStopIntents_def stopRequestIdentities_def split: if_splits option.splits sum.splits)
  then obtain ids where ids: "stopRequestIdentities ?q request = Inr ids" "j \<in> set ids" by blast
  then have "publish_intents digest nodeID (xe_publish x) (map (stop_intent_of nodeID request) ids) st = (st', None)"
    using p stop(1) by (simp add: prepareSessionStopIntents_def)
  from publish_intents_keys(2) [OF this] ids(2) have "stop_name digest (li_session j) \<in> keys (ls_files st')"
    by (auto simp: stop_intent_of_def)
  then show "\<exists>i. identity = Some i \<and> stop_name digest (li_session i) \<in> keys (ls_files st')" using j by blast
qed

lemma execute_report:
  assumes "Execute digest nodeID x request h = (h', report, identity, Inr result)"
  shows "xr_fresh report \<longrightarrow> xr_submitted report \<and> start_operation (rq_Operation request)"
    "start_operation (rq_Operation request) \<longrightarrow> stop_name digest (string_field (rq_Payload request) ''session_id'') \<in> keys (ls_files (hs_store h)) \<longrightarrow>
       \<not> xr_submitted report"
    "sessionStopOperation (rq_Operation request) \<and> rq_Operation request \<noteq> ''cleanup_resources'' \<longrightarrow>
       (\<exists>i. identity = Some i \<and> stop_name digest (li_session i) \<in> keys (ls_files (hs_store h')))"
proof -
  obtain st where b: "beginSessionExecution digest nodeID x request (hs_store h) = (st, Inr identity)"
    and out: "report = quiet \<and> hs_store h' = st \<or> report = quiet\<lparr>xr_replay := True\<rparr> \<and> hs_store h' = st \<or>
      (\<exists>res. run_operation digest nodeID x request st = (hs_store h', report, res))"
    using assms by (fastforce simp: Execute_def Let_def split: if_splits prod.splits sum.splits option.splits)
  note started = begin_execution [OF b]
  have stop_start: "sessionStopOperation (rq_Operation request) \<Longrightarrow> \<not> start_operation (rq_Operation request)"
    by (auto simp: sessionStopOperation_def stop_operations_def start_operation_def)
  have same: "hs_store h' = st" if "\<not> start_operation (rq_Operation request)"
    using out run_operation_report(4) that by blast
  show "xr_fresh report \<longrightarrow> xr_submitted report \<and> start_operation (rq_Operation request)"
    using out run_operation_report(1) by (auto simp: quiet_def)
  show "start_operation (rq_Operation request) \<longrightarrow> stop_name digest (string_field (rq_Payload request) ''session_id'') \<in> keys (ls_files (hs_store h)) \<longrightarrow>
       \<not> xr_submitted report"
  proof (intro impI)
    assume "stop_name digest (string_field (rq_Payload request) ''session_id'') \<in> keys (ls_files (hs_store h))"
    then have "stop_name digest (string_field (rq_Payload request) ''session_id'') \<in> keys (ls_files st)" using started(1) by blast
    then have "report = quiet \<or> report = quiet\<lparr>xr_replay := True\<rparr>" using out run_operation_report(3) by blast
    then show "\<not> xr_submitted report" by (auto simp: quiet_def)
  qed
  show "sessionStopOperation (rq_Operation request) \<and> rq_Operation request \<noteq> ''cleanup_resources'' \<longrightarrow>
       (\<exists>i. identity = Some i \<and> stop_name digest (li_session i) \<in> keys (ls_files (hs_store h')))"
    using started(2) same stop_start by auto
qed

text \<open>
  fresh admission means a launch of this very request. When the helper answers a request with a
  session observation: a fresh admission is only claimed for a start whose launch this execution
  submitted, with no stop intent and no replayed receipt; a start of a session that was stopped
  before submits nothing, cached receipt or not; and after a successful stop request the observation
  says that the session is closed.
\<close>

theorem fresh_admission_sound:
  assumes "executeSessionResponse digest nodeID x request h = (h', report, Inr (result, Some obs))"
  shows "(sx_FreshAdmission obs \<longrightarrow> start_operation (rq_Operation request) \<and> xr_submitted report \<and>
       \<not> sx_ReceiptReplay obs \<and> \<not> sx_StopIntent obs) \<and>
    (start_operation (rq_Operation request) \<and>
       stop_name digest (string_field (rq_Payload request) ''session_id'') \<in> keys (ls_files (hs_store h)) \<longrightarrow>
       \<not> xr_submitted report \<and> \<not> sx_FreshAdmission obs) \<and>
    (sessionStopOperation (rq_Operation request) \<and> rq_Operation request \<noteq> ''cleanup_resources'' \<longrightarrow> sx_StopIntent obs)"
proof -
  obtain h1 i st stopped where e: "Execute digest nodeID x request h = (h1, report, Some i, Inr result)"
    and s: "sessionStopState digest nodeID (xe_final x) (li_session i) (hs_store h1) = (st, Inr stopped)"
    and obs: "sx_FreshAdmission obs = (xr_fresh report \<and> \<not> stopped \<and> \<not> xr_replay report)"
      "sx_ReceiptReplay obs = xr_replay report" "sx_StopIntent obs = stopped"
    using assms by (auto simp: executeSessionResponse_def split: prod.splits sum.splits if_splits option.splits)
  have read: "stopped" if "stop_name digest (li_session i) \<in> keys (ls_files (hs_store h1))"
  proof -
    have "requireSessionOpen digest nodeID (xe_final x) (li_session i) (hs_store h1) = (st, if stopped then Some SessionClosed else None)"
      by (simp add: requireSessionOpen_def s)
    from open_fenced [OF this that] show ?thesis by (simp split: if_splits)
  qed
  show ?thesis using execute_report [OF e] obs read by blast
qed

definition sample_start :: Request where
  "sample_start = \<lparr>rq_Version = 1, rq_LifecycleVersion = 1, rq_RequestID = ''r2'', rq_Operation = ''start_session'',
     rq_Payload = [(''session_id'', JString ''t1'')]\<rparr>"

definition sample_exec :: exec_env where
  "sample_exec = \<lparr>xe_request = sample_requests, xe_publish = (\<lambda>_. good_life), xe_runtimeLock = None, xe_cacheErr = None, xe_saveErr = None,
     xe_reobserve = None, xe_open = good_life, xe_prepare = None, xe_other = (\<lambda>st. st), xe_admit = good_life, xe_submit = None,
     xe_ready = None, xe_result = Inr [(''status'', JString ''running'')], xe_final = good_life\<rparr>"

theorem fresh_admission_sound_witness:
  "\<exists>h report result obs. executeSessionResponse id ''node-1'' sample_exec sample_start \<lparr>hs_store = empty_store, hs_cache = []\<rparr> =
     (h, report, Inr (result, Some obs)) \<and> sx_FreshAdmission obs \<and> xr_submitted report"
proof -
  obtain h report result obs where r: "executeSessionResponse id ''node-1'' sample_exec sample_start
      \<lparr>hs_store = empty_store, hs_cache = []\<rparr> = (h, report, Inr (result, Some obs))" "sx_FreshAdmission obs"
    by (simp add: executeSessionResponse_def Execute_def beginSessionExecution_def prepareSessionStopIntents_def lifecycleIdentity_def
        run_operation_def start_launch_def requireSessionOpen_def sessionStopState_def submitSessionLaunch_def withSessionAdmission_def
        openSessionLifecycleStore_def verifyLifecycleScope_def readSessionStop_def validateSessionStopBinding_def native_binding_check_def
        docker_binding_check_def finalization_check_def text_if_present_def sample_start_def sample_exec_def sample_requests_def
        good_life_def empty_store_def sessionStopOperation_def stop_operations_def managed_operations_def routed_operations_def
        cacheable_def start_operation_def RequireLegacySkillStartup_def equalFold_def fold_char_def string_field_def validateID_def
        label_char_def known_backend_def fenced_kind_def quiet_def put_def Let_def)
  then show ?thesis using fresh_admission_sound [OF r(1)] by blast
qed

end
