(* ===== verification/Effects.thy ===== *)
theory Effects
  imports Prelude
begin

section \<open>Programs that act on the host\<close>

text \<open>
  Several components are sequences of calls to the operating system with an early return after
  each of them. Such a function is modelled as a program: it is run with a host, which answers
  every call, and with the list of calls made so far; it returns the longer list and a result or
  an error. The host may answer anything, also depending on the calls before, so a statement
  about all hosts is a statement about every failure and every interference.
\<close>

datatype file_kind = RegularFile | Directory | SymbolicLink | OtherFile

datatype call =
    MkdirAll string
  | Lstat string
  | Stat string
  | ReadFile string
  | WriteFile string bytes u32
  | Chmod string u32
  | Lchown string int int
  | OpenDir string
  | Mkdirat string u32
  | Openat string
  | CreateExclusive string
  | WriteTo string bytes
  | FileChmod string u32
  | FileChown string int int
  | FileSync string
  | FileClose string
  | Rename string string
  | Remove string
  | RemoveAll string
  | Mkdir string u32
  | CreateTemp string string
  | Send "(string \<times> string) list"
  | Report "(string \<times> string) list"
  | Clock
  | PollContext
  | WalkDir string
  | RandomBytes nat
  | LookPath string
  | Command "string list"
  | SetFacl string "string list" string
  | GitCommand "(int \<times> int) option" "string list"
  | StartTerminal string "string list" "string list"

text \<open>
  Answers. \<open>Absent\<close> and \<open>Present\<close> are the errors \<open>os.ErrNotExist\<close> and \<open>os.ErrExist\<close>, \<open>ErrorWith\<close> is
  any other error with the output of a command.
\<close>

datatype answer =
    Done
  | Absent
  | Present
  | ErrorWith string
  | Node file_kind
  | Content bytes
  | Instant gotime
  | Visited "(string \<times> bool) list"

datatype prog_error = Refused string | HostError call answer

type_synonym host = "call list \<Rightarrow> call \<Rightarrow> answer"
type_synonym 'a prog = "host \<Rightarrow> call list \<Rightarrow> call list \<times> (prog_error + 'a)"

definition return_p :: "'a \<Rightarrow> 'a prog" where
  "return_p x = (\<lambda>h log. (log, Inr x))"

definition fail_p :: "prog_error \<Rightarrow> 'a prog" where
  "fail_p e = (\<lambda>h log. (log, Inl e))"

definition refuse :: "string \<Rightarrow> 'a prog" where
  "refuse message = fail_p (Refused message)"

definition then_p :: "'a prog \<Rightarrow> ('a \<Rightarrow> 'b prog) \<Rightarrow> 'b prog" where
  "then_p m k = (\<lambda>h log. case m h log of (log', Inl e) \<Rightarrow> (log', Inl e) | (log', Inr x) \<Rightarrow> k x h log')"

definition ask :: "call \<Rightarrow> answer prog" where
  "ask c = (\<lambda>h log. (log @ [c], Inr (h log c)))"

text \<open>A call whose only good answer is \<open>Done\<close>; every other one is returned as an error.\<close>

definition must :: "call \<Rightarrow> unit prog" where
  "must c = then_p (ask c) (\<lambda>a. if a = Done then return_p () else fail_p (HostError c a))"

text \<open>Steps one after the other, up to the first error; the second continues with a value.\<close>

definition before_p :: "unit prog \<Rightarrow> 'b prog \<Rightarrow> 'b prog" where
  "before_p m k = then_p m (\<lambda>_. k)"

fun each_p :: "('a \<Rightarrow> unit prog) \<Rightarrow> 'a list \<Rightarrow> unit prog" where
  "each_p f [] = return_p ()"
| "each_p f (x # xs) = before_p (f x) (each_p f xs)"

text \<open>Deferred clean-up: always, or only after an error. Its own answer is ignored.\<close>

definition finally_p :: "'a prog \<Rightarrow> call list \<Rightarrow> 'a prog" where
  "finally_p m cs = (\<lambda>h log. case m h log of (log', r) \<Rightarrow> (log' @ cs, r))"

definition on_error_p :: "'a prog \<Rightarrow> call list \<Rightarrow> 'a prog" where
  "on_error_p m cs = (\<lambda>h log. case m h log of (log', Inl e) \<Rightarrow> (log' @ cs, Inl e) | (log', Inr x) \<Rightarrow> (log', Inr x))"

text \<open>Going on after an error: the rest is given the result or the error.\<close>

definition try_p :: "'a prog \<Rightarrow> (prog_error + 'a \<Rightarrow> 'b prog) \<Rightarrow> 'b prog" where
  "try_p m k = (\<lambda>h log. case m h log of (log', r) \<Rightarrow> k r h log')"

definition when_p :: "bool \<Rightarrow> unit prog \<Rightarrow> unit prog" where
  "when_p b m = (if b then m else return_p ())"

text \<open>The paths a call can create, change or remove.\<close>

fun touched :: "call \<Rightarrow> string list" where
  "touched (MkdirAll p) = [p]"
| "touched (WriteFile p _ _) = [p]"
| "touched (Chmod p _) = [p]"
| "touched (Lchown p _ _) = [p]"
| "touched (Mkdirat p _) = [p]"
| "touched (CreateExclusive p) = [p]"
| "touched (WriteTo p _) = [p]"
| "touched (FileChmod p _) = [p]"
| "touched (FileChown p _ _) = [p]"
| "touched (Rename p q) = [p, q]"
| "touched (Remove p) = [p]"
| "touched (RemoveAll p) = [p]"
| "touched (Mkdir p _) = [p]"
| "touched (CreateTemp p _) = [p]"
| "touched (SetFacl _ _ p) = [p]"
| "touched _ = []"

subsection \<open>What a program may call, and what it certainly called\<close>

definition emits :: "(call \<Rightarrow> bool) \<Rightarrow> 'a prog \<Rightarrow> bool" where
  "emits P m \<longleftrightarrow> (\<forall>h log. \<exists>more. fst (m h log) = log @ more \<and> (\<forall>c \<in> set more. P c))"

named_theorems emit_rules \<open>the calls of a program, by its structure\<close>

lemma emits_return [emit_rules]: "emits P (return_p x)"
  by (simp add: emits_def return_p_def)

lemma emits_fail [emit_rules]: "emits P (fail_p e)" "emits P (refuse s)"
  by (simp_all add: emits_def fail_p_def refuse_def)

lemma emits_ask [emit_rules]: "P c \<Longrightarrow> emits P (ask c)"
  by (auto simp: emits_def ask_def)

lemma emits_then [emit_rules]:
  assumes "emits P m" "\<And>x. emits P (k x)"
  shows "emits P (then_p m k)"
  unfolding emits_def
proof (intro allI)
  fix h log
  obtain more where m: "fst (m h log) = log @ more" "\<forall>c \<in> set more. P c" using assms(1) unfolding emits_def by blast
  show "\<exists>more. fst (then_p m k h log) = log @ more \<and> (\<forall>c \<in> set more. P c)"
  proof (cases "snd (m h log)")
    case (Inl e)
    then have "m h log = (log @ more, Inl e)" using m(1) by (cases "m h log") simp
    then show ?thesis using m(2) by (intro exI [of _ more]) (simp add: then_p_def)
  next
    case (Inr x)
    obtain more' where k: "fst (k x h (log @ more)) = (log @ more) @ more'" "\<forall>c \<in> set more'. P c"
      using assms(2) unfolding emits_def by blast
    have "m h log = (log @ more, Inr x)" using m(1) Inr by (cases "m h log") simp
    then show ?thesis using m(2) k by (intro exI [of _ "more @ more'"]) (auto simp: then_p_def)
  qed
qed

lemma emits_try [emit_rules]:
  assumes "emits P m" "\<And>r. emits P (k r)"
  shows "emits P (try_p m k)"
  unfolding emits_def
proof (intro allI)
  fix h log
  obtain more r where m: "m h log = (log @ more, r)" "\<forall>c \<in> set more. P c"
    using assms(1) unfolding emits_def by (metis prod.collapse)
  obtain more' where "fst (k r h (log @ more)) = (log @ more) @ more'" "\<forall>c \<in> set more'. P c"
    using assms(2) unfolding emits_def by blast
  then show "\<exists>more. fst (try_p m k h log) = log @ more \<and> (\<forall>c \<in> set more. P c)"
    using m by (intro exI [of _ "more @ more'"]) (auto simp: try_p_def)
qed

lemma emits_before [emit_rules]: "emits P m \<Longrightarrow> emits P k \<Longrightarrow> emits P (before_p m k)"
  unfolding before_p_def by (rule emits_then)

lemma emits_must [emit_rules]: "P c \<Longrightarrow> emits P (must c)"
  unfolding must_def by (intro emits_then emits_ask) (auto intro: emits_return emits_fail)

lemma emits_when [emit_rules]: "(b \<Longrightarrow> emits P m) \<Longrightarrow> emits P (when_p b m)"
  by (simp add: when_p_def emits_return)

lemma emits_each [emit_rules]: "(\<And>x. x \<in> set xs \<Longrightarrow> emits P (f x)) \<Longrightarrow> emits P (each_p f xs)"
  by (induction xs) (auto intro: emits_return emits_before)

lemma emits_if [emit_rules]: "(b \<Longrightarrow> emits P m) \<Longrightarrow> (\<not> b \<Longrightarrow> emits P n) \<Longrightarrow> emits P (if b then m else n)"
  by simp

lemma emits_cleanup [emit_rules]:
  assumes "emits P m" "\<And>c. c \<in> set cs \<Longrightarrow> P c"
  shows "emits P (finally_p m cs)" "emits P (on_error_p m cs)"
proof -
  have "\<exists>more. fst (finally_p m cs h log) = log @ more \<and> (\<forall>c \<in> set more. P c)
      \<and> (\<exists>more. fst (on_error_p m cs h log) = log @ more \<and> (\<forall>c \<in> set more. P c))" for h log
  proof -
    obtain more r where m: "m h log = (log @ more, r)" "\<forall>c \<in> set more. P c"
      using assms(1) unfolding emits_def by (metis prod.collapse)
    then show ?thesis using assms(2)
      by (cases r) (auto simp: finally_p_def on_error_p_def intro: exI [of _ "more @ cs"] exI [of _ more])
  qed
  then show "emits P (finally_p m cs)" "emits P (on_error_p m cs)" unfolding emits_def by blast+
qed

text \<open>Only the values a program can return matter for what follows it.\<close>

definition returns :: "('a \<Rightarrow> bool) \<Rightarrow> 'a prog \<Rightarrow> bool" where
  "returns Q m \<longleftrightarrow> (\<forall>h log log' x. m h log = (log', Inr x) \<longrightarrow> Q x)"

lemma emits_then_returns:
  assumes "emits P m" "returns Q m" "\<And>x. Q x \<Longrightarrow> emits P (k x)"
  shows "emits P (then_p m k)"
proof -
  have "then_p m k = then_p m (\<lambda>x. if Q x then k x else return_p undefined)"
    using assms(2) by (intro ext) (auto simp: then_p_def returns_def split: prod.splits sum.splits)
  moreover have "emits P (then_p m (\<lambda>x. if Q x then k x else return_p undefined))"
    by (intro emits_then assms(1)) (simp add: assms(3) emits_return)
  ultimately show ?thesis by simp
qed

lemma emits_mono: "emits P m \<Longrightarrow> (\<And>c. P c \<Longrightarrow> Q c) \<Longrightarrow> emits Q m"
  unfolding emits_def by blast

lemma emitsD: "emits P m \<Longrightarrow> c \<in> set (fst (m h [])) \<Longrightarrow> P c"
  unfolding emits_def by (metis append_Nil)

text \<open>A program that reports success made the call, and got \<open>Done\<close> for it.\<close>

definition achieves :: "call \<Rightarrow> 'a prog \<Rightarrow> bool" where
  "achieves c m \<longleftrightarrow> (\<forall>h log log' x. m h log = (log', Inr x) \<longrightarrow> (\<exists>pre more. log' = pre @ c # more \<and> h pre c = Done))"

definition extends :: "'a prog \<Rightarrow> bool" where
  "extends m \<longleftrightarrow> emits (\<lambda>_. True) m"

lemma emits_extends: "emits P m \<Longrightarrow> extends m"
  unfolding extends_def by (rule emits_mono) simp_all

lemma extendsD: "extends m \<Longrightarrow> m h log = (log', r) \<Longrightarrow> \<exists>more. log' = log @ more"
  unfolding extends_def emits_def by (metis fst_conv)

lemma achieves_must: "achieves c (must c)"
  by (auto simp: achieves_def must_def then_p_def ask_def return_p_def fail_p_def split: if_splits)

lemma achieves_then_left: "achieves c m \<Longrightarrow> (\<And>x. extends (k x)) \<Longrightarrow> achieves c (then_p m k)"
  unfolding achieves_def then_p_def
  by (fastforce split: prod.splits sum.splits dest: extendsD)

lemma achieves_then_right: "(\<And>x. achieves c (k x)) \<Longrightarrow> achieves c (then_p m k)"
  unfolding achieves_def then_p_def by (fastforce split: prod.splits sum.splits)

lemma achieves_before:
  "achieves c m \<Longrightarrow> extends k \<Longrightarrow> achieves c (before_p m k)"
  "achieves c k \<Longrightarrow> achieves c (before_p m k)"
  unfolding before_p_def by (rule achieves_then_left; assumption) (rule achieves_then_right)

lemma achieves_each:
  "x \<in> set xs \<Longrightarrow> achieves c (f x) \<Longrightarrow> (\<And>x. extends (f x)) \<Longrightarrow> achieves c (each_p f xs)"
proof (induction xs)
  case (Cons y ys)
  have "extends (each_p f ys)" using Cons.prems(3) unfolding extends_def by (intro emits_each) simp
  then show ?case using Cons by (auto intro: achieves_before)
qed simp

lemma then_return [simp]: "then_p (return_p x) k = k x"
  by (simp add: then_p_def return_p_def)

lemma then_fail [simp]: "then_p (fail_p e) k = fail_p e" "then_p (refuse s) k = refuse s"
  by (simp_all add: then_p_def fail_p_def refuse_def)

lemma achievesD: "achieves c m \<Longrightarrow> snd (m h log) = Inr x \<Longrightarrow> c \<in> set (fst (m h log))"
  unfolding achieves_def by (cases "m h log") fastforce

subsection \<open>Results\<close>

named_theorems result_rules \<open>what a program returns, by its structure\<close>

lemma returns_return [result_rules]: "Q x \<Longrightarrow> returns Q (return_p x)"
  by (simp add: returns_def return_p_def)

lemma returns_fail [result_rules]: "returns Q (fail_p e)" "returns Q (refuse s)"
  by (simp_all add: returns_def fail_p_def refuse_def)

lemma returns_then [result_rules]: "(\<And>x. returns Q (k x)) \<Longrightarrow> returns Q (then_p m k)"
  unfolding returns_def then_p_def by (auto split: prod.splits sum.splits)

lemma returns_then_of: "returns R m \<Longrightarrow> (\<And>x. R x \<Longrightarrow> returns Q (k x)) \<Longrightarrow> returns Q (then_p m k)"
  unfolding returns_def then_p_def by (fastforce split: prod.splits sum.splits)

lemma returns_before [result_rules]: "returns Q k \<Longrightarrow> returns Q (before_p m k)"
  unfolding before_p_def by (rule returns_then)

lemma returns_try [result_rules]: "(\<And>r. returns Q (k r)) \<Longrightarrow> returns Q (try_p m k)"
  unfolding returns_def try_p_def by (auto split: prod.splits)

lemma returns_try_of:
  "returns R m \<Longrightarrow> (\<And>r. (\<And>x. r = Inr x \<Longrightarrow> R x) \<Longrightarrow> returns Q (k r)) \<Longrightarrow> returns Q (try_p m k)"
  unfolding returns_def try_p_def by (auto split: prod.splits) metis

definition succeeds :: "'a prog \<Rightarrow> bool" where
  "succeeds m \<longleftrightarrow> (\<forall>h log. \<exists>log' x. m h log = (log', Inr x))"

lemma succeeds_return [result_rules]: "succeeds (return_p x)"
  by (simp add: succeeds_def return_p_def)

lemma succeeds_ask [result_rules]: "succeeds (ask c)"
  by (simp add: succeeds_def ask_def)

lemma succeeds_then [result_rules]: "succeeds m \<Longrightarrow> (\<And>x. succeeds (k x)) \<Longrightarrow> succeeds (then_p m k)"
  unfolding succeeds_def then_p_def by (metis (mono_tags, lifting) case_prod_conv sum.case(2))

lemma succeeds_then_of:
  assumes "succeeds m" "returns R m" "\<And>x. R x \<Longrightarrow> succeeds (k x)"
  shows "succeeds (then_p m k)"
  unfolding succeeds_def
proof (intro allI)
  fix h log
  obtain log' x where "m h log = (log', Inr x)" using assms(1) unfolding succeeds_def by blast
  moreover then have "R x" using assms(2) unfolding returns_def by blast
  ultimately show "\<exists>log' x. then_p m k h log = (log', Inr x)"
    using assms(3) unfolding succeeds_def then_p_def by simp
qed

lemma succeeds_try [result_rules]: "(\<And>r. succeeds (k r)) \<Longrightarrow> succeeds (try_p m k)"
  unfolding succeeds_def try_p_def by (auto split: prod.splits)

lemma succeeds_returns:
  "succeeds m \<Longrightarrow> returns Q m \<Longrightarrow> \<exists>log' x. m h log = (log', Inr x) \<and> Q x"
  unfolding succeeds_def returns_def by metis

end
