(* ===== verification/Paths.thy ===== *)
theory Paths
  imports Prelude
begin

section \<open>Paths below managed roots\<close>

text \<open>
  Where the node lets a task payload name a directory: \<open>resolvePath\<close> of
  \<open>toolsessions/toolsessions.go\<close>, \<open>resolveAccountPath\<close> and \<open>resolveImportConfigTarget\<close> of
  \<open>toolaccounts/toolaccounts.go\<close>, \<open>resolveRemotePath\<close> of \<open>workspace/workspace.go\<close>, and the
  functions they share with \<open>runtimehelper/engine.go\<close>. The functions of Go's \<open>path/filepath\<close>
  are modelled as documented for Unix: \<open>Clean\<close> works on the segments between slashes.
\<close>

subsection \<open>The \<open>filepath\<close> package\<close>

abbreviation slash :: char where
  "slash \<equiv> CHR ''/''"

definition isAbs :: "string \<Rightarrow> bool" where
  "isAbs path = has_prefix [slash] path"

text \<open>The second argument holds the segments kept so far, the last one first.\<close>

fun clean_segs :: "bool \<Rightarrow> string list \<Rightarrow> string list \<Rightarrow> string list" where
  "clean_segs rooted kept [] = rev kept"
| "clean_segs rooted kept (s # rest) =
     (if s = [] \<or> s = ''.'' then clean_segs rooted kept rest
      else if s = ''..'' then
        (case kept of
           [] \<Rightarrow> clean_segs rooted (if rooted then [] else [''..'']) rest
         | k # ks \<Rightarrow> clean_segs rooted (if k = ''..'' then ''..'' # kept else ks) rest)
      else clean_segs rooted (s # kept) rest)"

definition segments :: "string \<Rightarrow> string list" where
  "segments path = clean_segs (isAbs path) [] (split_on slash path)"

definition render :: "bool \<Rightarrow> string list \<Rightarrow> string" where
  "render rooted segs =
     (if rooted then slash # join_with slash segs else if segs = [] then ''.'' else join_with slash segs)"

definition Clean :: "string \<Rightarrow> string" where
  "Clean path = render (isAbs path) (segments path)"

definition Join :: "string list \<Rightarrow> string" where
  "Join elems = (case dropWhile (\<lambda>e. e = []) elems of [] \<Rightarrow> [] | e # es \<Rightarrow> Clean (join_with slash (e # es)))"

definition Dir :: "string \<Rightarrow> string" where
  "Dir path = Clean (rev (dropWhile (\<lambda>c. c \<noteq> slash) (rev path)))"

fun strip_common :: "string list \<Rightarrow> string list \<Rightarrow> string list \<times> string list" where
  "strip_common (b # bs) (t # ts) = (if b = t then strip_common bs ts else (b # bs, t # ts))"
| "strip_common bs ts = (bs, ts)"

text \<open>\<open>Rel\<close>; \<open>None\<close> is its error.\<close>

definition Rel :: "string \<Rightarrow> string \<Rightarrow> string option" where
  "Rel base targ =
     (if isAbs base \<noteq> isAbs targ then None
      else (case strip_common (segments base) (segments targ) of (b, t) \<Rightarrow>
              if b \<noteq> [] \<and> hd b = ''..'' then None
              else if b = [] \<and> t = [] then Some ''.''
              else Some (join_with slash (replicate (length b) ''..'' @ t))))"

subsection \<open>Resolving a path of a payload\<close>

definition controlPlaneRoot :: string where
  "controlPlaneRoot = ''/var/lib/agent-remote/users''"

definition isPathInside :: "string \<Rightarrow> string \<Rightarrow> bool" where
  "isPathInside root0 candidate0 =
     (let root = Clean root0; candidate = Clean candidate0 in candidate = root \<or> has_prefix (root @ [slash]) candidate)"

definition pathInside :: "string \<Rightarrow> string \<Rightarrow> bool" where
  "pathInside root candidate = isPathInside root candidate"

definition mapControlPlanePath :: "string \<Rightarrow> string \<Rightarrow> string option" where
  "mapControlPlanePath root candidate =
     (let cleanControlRoot = Clean controlPlaneRoot in
      if Clean root = cleanControlRoot then None
      else if \<not> isPathInside cleanControlRoot candidate then None
      else (case Rel cleanControlRoot candidate of
              None \<Rightarrow> None
            | Some relative \<Rightarrow>
                if relative = ''.'' \<or> has_prefix ''..'' relative then None else Some (Join [root, relative])))"

text \<open>The part of the three resolvers between the candidate and the final check.\<close>

definition settle_path :: "string \<Rightarrow> string \<Rightarrow> string" where
  "settle_path cleanRoot candidate =
     (let cleanPath = Clean candidate;
          cleanPath = (case mapControlPlanePath cleanRoot cleanPath of Some mapped \<Rightarrow> mapped | None \<Rightarrow> cleanPath)
      in if \<not> isAbs cleanPath then Join [cleanRoot, cleanPath] else cleanPath)"

datatype path_error = OutsideRoot string string | InvalidImportPath string | UnsupportedImportPath string | UnsafeImportPath string
  | InvalidIdentity | ImportOutsideClaude string

definition resolvePath :: "string \<Rightarrow> string \<Rightarrow> string \<Rightarrow> string \<Rightarrow> path_error + string" where
  "resolvePath root userID defaultSuffix remotePath =
     (let cleanRoot = Clean root;
          candidate = (if remotePath = [] then Join [cleanRoot, userID, defaultSuffix] else remotePath);
          cleanPath = settle_path cleanRoot candidate
      in if \<not> isPathInside cleanRoot cleanPath then Inl (OutsideRoot cleanPath cleanRoot) else Inr cleanPath)"

definition resolveAccountPath :: "string \<Rightarrow> string \<Rightarrow> string \<Rightarrow> string \<Rightarrow> string \<Rightarrow> path_error + string" where
  "resolveAccountPath root userID toolType toolAccountID remotePath =
     (let cleanRoot = Clean root;
          accountPath = (if remotePath = [] then Join [cleanRoot, userID, ''tool-accounts'', toolType, toolAccountID] else remotePath);
          cleanPath = settle_path cleanRoot accountPath
      in if \<not> isPathInside cleanRoot cleanPath then Inl (OutsideRoot cleanPath cleanRoot) else Inr cleanPath)"

text \<open>\<open>managedID\<close>, the regular expression \<open>^[a-zA-Z0-9_-]{1,128}$\<close> of \<open>workspace.go\<close>.\<close>

definition managed_char :: "char \<Rightarrow> bool" where
  "managed_char c = (let n = (of_char c :: nat) in
     (97 \<le> n \<and> n \<le> 122) \<or> (65 \<le> n \<and> n \<le> 90) \<or> (48 \<le> n \<and> n \<le> 57) \<or> c = CHR ''_'' \<or> c = CHR ''-'')"

definition managedID :: "string \<Rightarrow> bool" where
  "managedID value = (value \<noteq> [] \<and> length value \<le> 128 \<and> list_all managed_char value)"

definition validatePayload :: "string \<Rightarrow> string \<Rightarrow> string \<Rightarrow> path_error option" where
  "validatePayload userID workspaceID syncSessionID =
     (if \<not> managedID userID \<or> \<not> managedID workspaceID \<or> \<not> managedID syncSessionID then Some InvalidIdentity else None)"

text \<open>\<open>filepath.Abs\<close> of an absolute root is \<open>Clean\<close>; a relative root is resolved against the working directory.\<close>

definition Abs_path :: "string \<Rightarrow> string \<Rightarrow> string" where
  "Abs_path cwd path = (if isAbs path then Clean path else Join [cwd, path])"

definition resolveRemotePath :: "string \<Rightarrow> string \<Rightarrow> string \<Rightarrow> string \<Rightarrow> string \<Rightarrow> string \<Rightarrow> path_error + string" where
  "resolveRemotePath cwd root userID workspaceID syncSessionID remotePath0 =
     (case validatePayload userID workspaceID syncSessionID of Some e \<Rightarrow> Inl e
      | None \<Rightarrow>
          (let cleanRoot = Abs_path cwd root;
               expected = Join [cleanRoot, userID, ''workspaces'', workspaceID, ''files''];
               remotePath = (if remotePath0 = [] then expected else remotePath0);
               cleanPath = settle_path cleanRoot remotePath
           in if cleanPath \<noteq> expected then Inl (OutsideRoot cleanPath cleanRoot) else Inr cleanPath))"

definition resolveImportConfigTarget :: "string \<Rightarrow> string \<Rightarrow> path_error + string" where
  "resolveImportConfigTarget accountPath importPath =
     (if importPath = [] \<or> contains_any importPath [CHR 0x5C] \<or> contains_any importPath [CHR 0x00]
      then Inl (InvalidImportPath importPath)
      else if \<not> has_prefix ''~/.claude/'' importPath then Inl (UnsupportedImportPath importPath)
      else (let parts = split_on slash (trim_prefix ''~/.claude/'' importPath) in
            if list_ex (\<lambda>part. part = [] \<or> part = ''.'' \<or> part = ''..'') parts then Inl (UnsafeImportPath importPath)
            else (let targetPath = Join ([accountPath, ''.claude''] @ parts) in
                  if \<not> isPathInside (Join [accountPath, ''.claude'']) targetPath then Inl (ImportOutsideClaude importPath)
                  else Inr targetPath)))"

text \<open>The modes 0o644 and 0o600.\<close>

definition sanitizeFileMode :: "u32 \<Rightarrow> u32" where
  "sanitizeFileMode mode = (if mode = 420 then 420 else 384)"

subsection \<open>Parent directories\<close>

text \<open>
  The loop of \<open>managedParentDirectories\<close> goes up while it is strictly below the root; it stops
  because the path loses a segment at each turn. \<open>parent_loop\<close> has the number of turns as its
  first argument.
\<close>

fun parent_loop :: "nat \<Rightarrow> string \<Rightarrow> string \<Rightarrow> string list \<Rightarrow> (string list \<times> string) option" where
  "parent_loop 0 root current found = None"
| "parent_loop (Suc n) root current found =
     (if current \<noteq> root \<and> isPathInside root current then parent_loop n root (Dir current) (found @ [current])
      else Some (found, current))"

definition managedParentDirectories :: "string \<Rightarrow> string \<Rightarrow> string list option" where
  "managedParentDirectories root0 path =
     (let root = Clean root0 in
      map_option (\<lambda>(found, current). rev (if current = root then found @ [root] else found))
        (parent_loop (Suc (length (segments path))) root (Dir (Clean path)) []))"

fun parents_from :: "string \<Rightarrow> string list \<Rightarrow> string list" where
  "parents_from current [] = []"
| "parents_from current (part # rest) = (current @ slash # part) # parents_from (current @ slash # part) rest"

definition parentDirectories :: "string \<Rightarrow> string list" where
  "parentDirectories path =
     (let parts = split_on slash (trim_prefix [slash] (Clean path)) in parents_from [] (butlast parts))"

subsection \<open>Clean paths\<close>

definition good_seg :: "string \<Rightarrow> bool" where
  "good_seg s \<longleftrightarrow> s \<noteq> [] \<and> s \<noteq> ''.'' \<and> s \<noteq> ''..'' \<and> slash \<notin> set s"

definition good_segs :: "string list \<Rightarrow> bool" where
  "good_segs ss \<longleftrightarrow> (\<forall>s \<in> set ss. good_seg s)"

lemma good_segs_simps [simp]:
  "good_segs []" "good_segs (s # ss) \<longleftrightarrow> good_seg s \<and> good_segs ss" "good_segs (ss @ ts) \<longleftrightarrow> good_segs ss \<and> good_segs ts"
  "good_segs (rev ss) \<longleftrightarrow> good_segs ss"
  by (auto simp: good_segs_def)

lemma clean_segs_good: "\<forall>s \<in> set rest. slash \<notin> set s \<Longrightarrow> good_segs kept \<Longrightarrow> good_segs (clean_segs True kept rest)"
proof (induction rest arbitrary: kept)
  case (Cons s rest)
  then show ?case by (cases kept) (auto simp: good_seg_def)
qed simp

lemma clean_segs_id: "good_segs ss \<Longrightarrow> clean_segs rooted kept ss = rev kept @ ss"
  by (induction ss arbitrary: kept) (auto simp: good_seg_def)

lemma clean_segs_append:
  "clean_segs rooted kept (xs @ ys) = clean_segs rooted (rev (clean_segs rooted kept xs)) ys"
proof (induction xs arbitrary: kept)
  case (Cons x xs)
  then show ?case by (cases kept) auto
qed simp

lemma isAbs_simps [simp]: "\<not> isAbs []" "isAbs (c # s) \<longleftrightarrow> c = slash" "isAbs (render True ss)"
  by (auto simp: isAbs_def has_prefix_def render_def)

lemma isAbs_append: "isAbs a \<Longrightarrow> isAbs (a @ b)"
  by (cases a) auto

lemma good_join_split: "good_segs ss \<Longrightarrow> split_on slash (join_with slash ss) = (if ss = [] then [[]] else ss)"
  using split_join [of ss slash] by (auto simp: good_segs_def good_seg_def)

lemma split_on_append: "split_on c (a @ c # b) = split_on c a @ split_on c b"
proof (induction a)
  case (Cons x a)
  obtain p ps where "split_on c a = p # ps" by (cases "split_on c a") auto
  then show ?case using Cons by (cases "x = c") auto
qed simp

lemma segments_render [simp]: "good_segs ss \<Longrightarrow> segments (render True ss) = ss"
  by (simp add: segments_def render_def good_join_split clean_segs_id)

lemma segments_good: "isAbs p \<Longrightarrow> good_segs (segments p)"
  unfolding segments_def by (simp add: clean_segs_good split_on_no_sep)

lemma Clean_abs: "isAbs p \<Longrightarrow> Clean p = render True (segments p)"
  by (simp add: Clean_def)

lemma Clean_props:
  assumes "isAbs p"
  shows "isAbs (Clean p)" "segments (Clean p) = segments p" "Clean (Clean p) = Clean p"
  using assms segments_good [OF assms] by (simp_all add: Clean_abs)

text \<open>A path below an absolute one: the segments are appended.\<close>

lemma segments_below:
  assumes "isAbs a" "good_segs ss"
  shows "segments (a @ slash # join_with slash ss) = segments a @ ss"
proof -
  have "clean_segs True k (if ss = [] then [[]] else ss) = rev k @ ss" for k
    using clean_segs_id [OF assms(2)] by auto
  then show ?thesis
    using assms by (simp add: segments_def isAbs_append split_on_append clean_segs_append good_join_split)
qed

lemma Join_abs:
  assumes "isAbs a" "es \<noteq> []"
  shows "isAbs (Join (a # es))" "Clean (Join (a # es)) = Join (a # es)"
    "Join (a # es) = Clean (a @ slash # join_with slash es)"
proof -
  show J: "Join (a # es) = Clean (a @ slash # join_with slash es)"
    using assms by (cases a; cases es) (auto simp: Join_def)
  have "isAbs (a @ slash # join_with slash es)" by (rule isAbs_append [OF assms(1)])
  then show "isAbs (Join (a # es))" "Clean (Join (a # es)) = Join (a # es)" unfolding J by (simp_all add: Clean_props)
qed

lemma Join_segments:
  assumes "isAbs a" "good_segs es" "es \<noteq> []"
  shows "segments (Join (a # es)) = segments a @ es"
  using assms by (simp add: Join_abs(3) Clean_props(2) isAbs_append segments_below)

lemma join_with_append: "ss \<noteq> [] \<Longrightarrow> ts \<noteq> [] \<Longrightarrow> join_with c (ss @ ts) = join_with c ss @ c # join_with c ts"
proof (induction ss)
  case (Cons s ss)
  then show ?case by (cases ss) (simp_all add: join_with_Cons)
qed simp

text \<open>What the prefix test decides for absolute paths.\<close>

lemma isPathInside_iff:
  assumes "isAbs root" "isAbs p"
  shows "isPathInside root p \<longleftrightarrow> segments p = segments root \<or> segments root \<noteq> [] \<and> (\<exists>rest. segments p = segments root @ rest)"
proof -
  let ?r = "segments root" and ?s = "segments p"
  have good: "good_segs ?r" "good_segs ?s" using assms by (simp_all add: segments_good)
  have eq: "Clean p = Clean root \<longleftrightarrow> ?s = ?r"
    using good by (metis Clean_abs assms segments_render)
  have pre: "has_prefix (Clean root @ [slash]) (Clean p) \<longleftrightarrow> ?r \<noteq> [] \<and> (\<exists>rest. rest \<noteq> [] \<and> ?s = ?r @ rest)"
  proof
    assume "has_prefix (Clean root @ [slash]) (Clean p)"
    then obtain x where x: "join_with slash ?s = join_with slash ?r @ slash # x"
      using assms by (auto simp: has_prefix_iff Clean_abs render_def)
    have s: "split_on slash (join_with slash ?r) @ split_on slash x = (if ?s = [] then [[]] else ?s)"
      using arg_cong [OF x, of "split_on slash"] good(2) by (simp add: split_on_append good_join_split)
    have "?r \<noteq> []"
    proof
      assume "?r = []"
      then have "[] # split_on slash x = (if ?s = [] then [[]] else ?s)" using s by simp
      then show False using good(2) by (cases "?s") (auto simp: good_seg_def)
    qed
    moreover have "?s \<noteq> []" using s \<open>?r \<noteq> []\<close> good(1) by (cases "?r") (auto simp: good_join_split)
    ultimately show "?r \<noteq> [] \<and> (\<exists>rest. rest \<noteq> [] \<and> ?s = ?r @ rest)"
      using s good(1) by (intro conjI exI [of _ "split_on slash x"]) (simp_all add: good_join_split)
  next
    assume "?r \<noteq> [] \<and> (\<exists>rest. rest \<noteq> [] \<and> ?s = ?r @ rest)"
    then show "has_prefix (Clean root @ [slash]) (Clean p)"
      using assms by (auto simp: has_prefix_iff Clean_abs render_def join_with_append)
  qed
  show ?thesis unfolding isPathInside_def Let_def eq pre by auto
qed

definition names :: "string list \<Rightarrow> bool" where
  "names ss \<longleftrightarrow> (\<forall>s \<in> set ss. s \<noteq> [] \<and> slash \<notin> set s)"

lemma names_simps [simp]:
  "names []" "names (s # ss) \<longleftrightarrow> s \<noteq> [] \<and> slash \<notin> set s \<and> names ss" "names (rev ss) \<longleftrightarrow> names ss"
  by (auto simp: names_def)

lemma clean_segs_names: "\<forall>s \<in> set rest. slash \<notin> set s \<Longrightarrow> names kept \<Longrightarrow> names (clean_segs rooted kept rest)"
proof (induction rest arbitrary: kept)
  case (Cons s rest)
  have rest: "names (clean_segs rooted k rest)" if "names k" for k using Cons that by simp
  show ?case using Cons.prems rest by (cases kept) simp_all
qed simp

lemma Clean_isAbs: "isAbs (Clean c) \<longleftrightarrow> isAbs c"
proof (cases "isAbs c")
  case False
  have n: "names (segments c)"
    unfolding segments_def by (rule clean_segs_names) (simp_all add: split_on_no_sep)
  have "\<not> isAbs (render False (segments c))"
  proof (cases "segments c")
    case (Cons s ss)
    then obtain x xs where "s = x # xs" "x \<noteq> slash" using n by (cases s) auto
    then show ?thesis using Cons by (cases ss) (simp_all add: render_def)
  qed (simp add: render_def)
  then show ?thesis using False by (simp add: Clean_def)
qed (simp add: Clean_props)

lemma settle_path_abs:
  assumes "isAbs root"
  shows "isAbs (settle_path (Clean root) c)" "Clean (settle_path (Clean root) c) = settle_path (Clean root) c"
proof -
  note join = Join_abs(1,2) [OF Clean_props(1) [OF assms], of "[_]"]
  have "isAbs (settle_path (Clean root) c) \<and> Clean (settle_path (Clean root) c) = settle_path (Clean root) c"
  proof (cases "mapControlPlanePath (Clean root) (Clean c)")
    case None
    show ?thesis
    proof (cases "isAbs (Clean c)")
      case True
      then show ?thesis using None by (simp add: settle_path_def Let_def Clean_props(3) Clean_isAbs)
    next
      case False
      then show ?thesis using None join by (simp add: settle_path_def Let_def)
    qed
  next
    case (Some m)
    then obtain rel where "m = Join [Clean root, rel]"
      by (auto simp: mapControlPlanePath_def Let_def split: if_splits option.splits)
    then have "isAbs m" "Clean m = m" using join by simp_all
    then show ?thesis using Some by (simp add: settle_path_def Let_def)
  qed
  then show "isAbs (settle_path (Clean root) c)" "Clean (settle_path (Clean root) c) = settle_path (Clean root) c" by simp_all
qed

lemma resolved_inside:
  assumes "isAbs root" "isPathInside (Clean root) (settle_path (Clean root) c)"
  shows "\<exists>rest. segments (settle_path (Clean root) c) = segments root @ rest \<and> good_segs rest"
proof -
  let ?p = "settle_path (Clean root) c"
  have abs: "isAbs ?p" by (rule settle_path_abs(1) [OF assms(1)])
  obtain rest where rest: "segments ?p = segments root @ rest"
    using assms(2) isPathInside_iff [OF Clean_props(1) [OF assms(1)] abs] Clean_props(2) [OF assms(1)] by auto
  then have "good_segs rest" using segments_good [OF abs] by simp
  then show ?thesis using rest by blast
qed

lemma mapped_outside:
  "isPathInside (Clean controlPlaneRoot) p \<Longrightarrow> Clean root = Clean controlPlaneRoot \<Longrightarrow> mapControlPlanePath root p = None"
  "\<not> isPathInside (Clean controlPlaneRoot) p \<Longrightarrow> mapControlPlanePath root p = None"
  by (simp_all add: mapControlPlanePath_def Let_def)

text \<open>A path that \<open>settle_path\<close> leaves alone.\<close>

lemma settle_unmapped:
  assumes "isAbs p" "Clean p = p" "Clean root = Clean controlPlaneRoot \<or> \<not> isPathInside (Clean controlPlaneRoot) p"
  shows "settle_path root p = p"
proof -
  have "mapControlPlanePath root p = None" using assms(3) mapped_outside by (metis (full_types))
  then show ?thesis using assms(1,2) by (simp add: settle_path_def Let_def)
qed

definition confined :: "string \<Rightarrow> string \<Rightarrow> bool" where
  "confined root p \<longleftrightarrow> isAbs p \<and> Clean p = p \<and> (\<exists>rest. segments p = segments root @ rest \<and> good_segs rest)"

lemma resolve_confined:
  assumes "isAbs root" "isPathInside (Clean root) (settle_path (Clean root) c)"
  shows "confined root (settle_path (Clean root) c)"
  using resolved_inside [OF assms] settle_path_abs [OF assms(1)] by (simp add: confined_def)

lemma managedID_good: "managedID s \<Longrightarrow> good_seg s"
  by (auto simp: managedID_def good_seg_def managed_char_def list_all_iff Let_def)

lemma import_target_segments:
  assumes "isAbs account" "resolveImportConfigTarget account importPath = Inr p"
  shows "\<exists>parts. parts \<noteq> [] \<and> good_segs parts \<and> segments p = segments account @ ''.claude'' # parts"
proof -
  let ?parts = "split_on slash (trim_prefix ''~/.claude/'' importPath)"
  have p: "p = Join (account # ''.claude'' # ?parts)"
    and ok: "\<not> list_ex (\<lambda>part. part = [] \<or> part = ''.'' \<or> part = ''..'') ?parts"
    using assms(2) by (auto simp: resolveImportConfigTarget_def Let_def split: if_splits)
  have "good_segs ?parts"
    using ok split_on_no_sep by (auto simp: good_segs_def good_seg_def list_ex_iff)
  then have "good_segs (''.claude'' # ?parts)" by (simp add: good_seg_def)
  then have "segments p = segments account @ ''.claude'' # ?parts" unfolding p by (rule Join_segments [OF assms(1)]) simp
  then show ?thesis using \<open>good_segs ?parts\<close> by (intro exI [of _ ?parts]) simp
qed

text \<open>
  C28: no payload names a path outside the managed roots. For an absolute root and any text in
  the payload, what the resolvers of tool sessions and tool accounts return is a clean absolute
  path whose segments are those of the root followed by ordinary names; the workspace resolver
  returns exactly the files directory of that workspace and user; and an imported file lands
  strictly below the account's \<open>.claude\<close> directory.
\<close>

theorem resolved_paths_stay_inside:
  assumes "isAbs root"
  shows "(resolvePath root userID suffix remote = Inr p \<longrightarrow> confined root p) \<and>
    (resolveAccountPath root userID toolType accountID remote = Inr p \<longrightarrow> confined root p) \<and>
    (resolveRemotePath cwd root userID workspaceID syncID remote = Inr p \<longrightarrow>
       isAbs p \<and> segments p = segments root @ [userID, ''workspaces'', workspaceID, ''files'']) \<and>
    (resolveImportConfigTarget root importPath = Inr p \<longrightarrow>
       (\<exists>parts. parts \<noteq> [] \<and> good_segs parts \<and> segments p = segments root @ ''.claude'' # parts))"
proof (intro conjI impI)
  assume "resolvePath root userID suffix remote = Inr p"
  then show "confined root p" using resolve_confined [OF assms] by (auto simp: resolvePath_def Let_def split: if_splits)
next
  assume "resolveAccountPath root userID toolType accountID remote = Inr p"
  then show "confined root p" using resolve_confined [OF assms] by (auto simp: resolveAccountPath_def Let_def split: if_splits)
next
  let ?es = "[userID, ''workspaces'', workspaceID, ''files'']"
  assume r: "resolveRemotePath cwd root userID workspaceID syncID remote = Inr p"
  then have p: "p = Join (Clean root # ?es)" and ids: "managedID userID" "managedID workspaceID"
    using assms by (auto simp: resolveRemotePath_def validatePayload_def Abs_path_def Let_def split: option.splits if_splits)
  have "good_segs ?es" using ids managedID_good by (simp add: good_seg_def)
  then show "segments p = segments root @ ?es"
    unfolding p using Join_segments [OF Clean_props(1) [OF assms]] Clean_props(2) [OF assms] by simp
  show "isAbs p" unfolding p by (rule Join_abs(1) [OF Clean_props(1) [OF assms]]) simp
next
  assume "resolveImportConfigTarget root importPath = Inr p"
  then show "\<exists>parts. parts \<noteq> [] \<and> good_segs parts \<and> segments p = segments root @ ''.claude'' # parts"
    by (rule import_target_segments [OF assms])
qed

theorem resolved_paths_stay_inside_witness:
  "resolvePath ''/srv/users'' ''u1'' ''files'' ''u1/./x/../files'' = Inr ''/srv/users/u1/files'' \<and>
   confined ''/srv/users'' ''/srv/users/u1/files''"
proof -
  have abs: "isAbs ''/srv/users''" by simp
  have r: "resolvePath ''/srv/users'' ''u1'' ''files'' ''u1/./x/../files'' = Inr ''/srv/users/u1/files''" by code_simp
  then show ?thesis using resolved_paths_stay_inside [OF abs] by blast
qed

text \<open>
  The defaults are accepted: with names that are ordinary segments, a payload without a path
  gets the directory of its user, provided the root is the control plane's own or apart from it.
\<close>

lemma default_path_accepted:
  assumes "isAbs root" "segments root \<noteq> []" "good_segs [userID, suffix]"
    "Clean root = Clean controlPlaneRoot \<or> \<not> isPathInside (Clean controlPlaneRoot) (Join [Clean root, userID, suffix])"
  shows "\<exists>p. resolvePath root userID suffix [] = Inr p \<and> segments p = segments root @ [userID, suffix]"
proof -
  let ?p = "Join [Clean root, userID, suffix]"
  have r: "isAbs (Clean root)" "segments (Clean root) = segments root" "Clean (Clean root) = Clean root"
    by (simp_all add: Clean_props [OF assms(1)])
  have p: "isAbs ?p" "Clean ?p = ?p" using Join_abs [OF r(1), of "[userID, suffix]"] by simp_all
  have segs: "segments ?p = segments root @ [userID, suffix]"
    using Join_segments [OF r(1) assms(3)] r(2) by simp
  have "settle_path (Clean root) ?p = ?p" by (rule settle_unmapped [OF p]) (use assms(4) r(3) in simp)
  moreover have "isPathInside (Clean root) ?p" using isPathInside_iff [OF r(1) p(1)] segs r(2) assms(2) by simp
  ultimately show ?thesis using segs by (simp add: resolvePath_def Let_def)
qed

text \<open>
  A root strictly below the control plane's root is mapped a second time: the path the
  workspace resolver itself chooses is then refused.
\<close>

lemma nested_root_refuses_default:
  "resolveRemotePath ''/'' ''/var/lib/agent-remote/users/data'' ''u1'' ''w1'' ''s1'' [] =
     Inl (OutsideRoot ''/var/lib/agent-remote/users/data/data/u1/workspaces/w1/files'' ''/var/lib/agent-remote/users/data'')"
  by code_simp

subsection \<open>The directories above a managed path\<close>

lemma dropWhile_to_slash: "slash \<notin> set s \<Longrightarrow> rev (dropWhile (\<lambda>c. c \<noteq> slash) (rev (a @ slash # s))) = a @ [slash]"
proof -
  assume "slash \<notin> set s"
  then have "dropWhile (\<lambda>c. c \<noteq> slash) (rev s @ slash # rev a) = slash # rev a"
    by (subst dropWhile_append2) auto
  then show ?thesis by simp
qed

lemma Dir_render:
  assumes "good_segs (ss @ [s])"
  shows "Dir (render True (ss @ [s])) = render True ss"
proof -
  have s: "slash \<notin> set s" using assms by (simp add: good_seg_def)
  show ?thesis
  proof (cases "ss = []")
    case True
    then show ?thesis
      using dropWhile_to_slash [OF s, of "[]"] by (simp add: Dir_def render_def Clean_def segments_def)
  next
    case False
    let ?d = "slash # join_with slash ss"
    have "Dir (render True (ss @ [s])) = Clean (?d @ [slash])"
      using dropWhile_to_slash [OF s, of ?d] False by (simp add: Dir_def render_def join_with_append)
    moreover have "segments (?d @ slash # join_with slash []) = segments ?d @ []"
      by (rule segments_below) simp_all
    moreover have "segments ?d = ss" using segments_render [of ss] assms by (simp add: render_def)
    ultimately show ?thesis by (simp add: Clean_def)
  qed
qed

lemma render_inj: "good_segs ss \<Longrightarrow> good_segs ts \<Longrightarrow> render True ss = render True ts \<longleftrightarrow> ss = ts"
  by (metis segments_render)

lemma parent_loop_up:
  assumes "good_segs (r @ rest)" "r \<noteq> []" "length rest < n"
  shows "parent_loop n (render True r) (render True (r @ rest)) found =
    Some (found @ map (\<lambda>k. render True (r @ take k rest)) (rev [1..<Suc (length rest)]), render True r)"
  using assms
proof (induction rest arbitrary: n found rule: rev_induct)
  case Nil
  then show ?case by (cases n) simp_all
next
  case (snoc x rest)
  obtain m where n: "n = Suc m" "length rest < m" using snoc.prems(3) by (cases n) auto
  have neq: "render True (r @ rest @ [x]) \<noteq> render True r"
    using snoc.prems(1) render_inj [of "r @ rest @ [x]" r] by auto
  have inside: "isPathInside (render True r) (render True (r @ rest @ [x]))"
    using snoc.prems(1,2) by (auto simp: isPathInside_iff)
  have dir: "Dir (render True (r @ rest @ [x])) = render True (r @ rest)"
    using Dir_render [of "r @ rest" x] snoc.prems(1) by simp
  have ih: "parent_loop m (render True r) (render True (r @ rest)) f =
      Some (f @ map (\<lambda>k. render True (r @ take k rest)) (rev [1..<Suc (length rest)]), render True r)" for f
    by (rule snoc.IH) (use snoc.prems n in simp_all)
  have "map (\<lambda>k. render True (r @ take k (rest @ [x]))) (rev [1..<Suc (length rest)]) =
      map (\<lambda>k. render True (r @ take k rest)) (rev [1..<Suc (length rest)])" by (rule map_cong) auto
  then show ?case using neq inside ih by (simp add: n(1) dir)
qed

text \<open>
  the directories that are opened for traversal are exactly the ones between the managed root
  and the path, the root first: the loop of \<open>managedParentDirectories\<close> ends, never leaves the
  root, and misses none.
\<close>

theorem managed_parents_exact:
  assumes "isAbs root" "isAbs path" "segments root \<noteq> []" "segments path = segments root @ rest" "rest \<noteq> []"
  shows "managedParentDirectories root path =
    Some (map (\<lambda>k. render True (segments root @ take k rest)) [0..<length rest])"
proof -
  obtain init x where rest: "rest = init @ [x]" using assms(5) by (metis rev_exhaust)
  have good: "good_segs (segments root @ init @ [x])"
    using segments_good [OF assms(2)] assms(4) rest by simp
  have "Dir (Clean path) = render True (segments root @ init)"
    using Dir_render [of "segments root @ init" x] good by (simp add: Clean_abs [OF assms(2)] assms(4) rest)
  moreover have "parent_loop (Suc (length (segments path))) (render True (segments root)) (render True (segments root @ init)) [] =
      Some ([] @ map (\<lambda>k. render True (segments root @ take k init)) (rev [1..<Suc (length init)]), render True (segments root))"
    by (rule parent_loop_up) (use good assms rest in simp_all)
  moreover have "map (\<lambda>k. render True (segments root @ take k rest)) [0..<length rest] =
      render True (segments root) # map (\<lambda>k. render True (segments root @ take k init)) [1..<Suc (length init)]"
    by (auto simp: rest upt_conv_Cons simp del: upt_Suc)
  ultimately show ?thesis
    by (simp add: managedParentDirectories_def Let_def Clean_abs [OF assms(1)] rev_map del: upt_Suc parent_loop.simps)
qed

theorem managed_parents_exact_witness:
  "managedParentDirectories ''/srv/users'' ''/srv/users/u1/tool-accounts/claude'' =
     Some [''/srv/users'', ''/srv/users/u1'', ''/srv/users/u1/tool-accounts'']"
proof -
  have "segments ''/srv/users'' = [''srv'', ''users'']"
    "segments ''/srv/users/u1/tool-accounts/claude'' = [''srv'', ''users'', ''u1'', ''tool-accounts'', ''claude'']" by code_simp+
  then show ?thesis
    using managed_parents_exact [of "''/srv/users''" "''/srv/users/u1/tool-accounts/claude''" "[''u1'', ''tool-accounts'', ''claude'']"]
    by (simp add: render_def upt_rec)
qed

end
