(* ===== verification/Skill_Manifest.thy ===== *)
theory Skill_Manifest
  imports Paths Ego_Contract "HOL-Library.List_Lexorder" "HOL-Library.Char_ord"
begin

section \<open>Skill manifests\<close>

text \<open>
  The manifest of a skill tree: \<open>skillmanager/validate.go\<close> (\<open>Validate\<close>, \<open>ValidatePath\<close>,
  \<open>validateEntry\<close>, the resolution of links) and \<open>skillmanager/manifest.go\<close> (\<open>Digest\<close>,
  \<open>VerifyContent\<close>). Unicode normalisation belongs to \<open>golang.org/x/text\<close>: \<open>nfc\<close>, the answer of
  \<open>norm.NFC.IsNormalString\<close>, is an argument. SHA-256 is an argument \<open>sha\<close> as well; what is proved
  concerns the bytes it is given.

  The link resolution of the code is shown equal to a relation \<open>denotes\<close> that says what a
  relative POSIX path means in a tree with links; a validated manifest is a closed tree in that
  sense, and its hashed byte stream determines it.
\<close>

subsection \<open>Text\<close>

definition cont :: "nat \<Rightarrow> nat \<Rightarrow> char \<Rightarrow> bool" where
  "cont lo hi c = (let n = (of_char c :: nat) in lo \<le> n \<and> n \<le> hi)"

text \<open>\<open>utf8.ValidString\<close>: the encodings of Unicode scalar values in their shortest form.\<close>

fun utf8_valid :: "string \<Rightarrow> bool" where
  "utf8_valid [] = True"
| "utf8_valid (a # s) =
     (if cont 0 127 a then utf8_valid s
      else (case s of
          [] \<Rightarrow> False
        | b # s1 \<Rightarrow>
            if cont 194 223 a then cont 128 191 b \<and> utf8_valid s1
            else (case s1 of
                [] \<Rightarrow> False
              | c # s2 \<Rightarrow>
                  if cont 224 239 a then
                    cont (if of_char a = (224 :: nat) then 160 else 128) (if of_char a = (237 :: nat) then 159 else 191) b
                    \<and> cont 128 191 c \<and> utf8_valid s2
                  else (case s2 of
                      [] \<Rightarrow> False
                    | d # s3 \<Rightarrow>
                        cont 240 244 a
                        \<and> cont (if of_char a = (240 :: nat) then 144 else 128) (if of_char a = (244 :: nat) then 143 else 191) b
                        \<and> cont 128 191 c \<and> cont 128 191 d \<and> utf8_valid s3))))"

text \<open>
  Whether some code point of a valid string satisfies \<open>unicode.IsControl\<close>: U+0000 to U+001F,
  U+007F, and U+0080 to U+009F, which UTF-8 writes with the first byte C2.
\<close>

fun has_control :: "string \<Rightarrow> bool" where
  "has_control [] = False"
| "has_control (c # s) =
     (cont 0 31 c \<or> cont 127 127 c
      \<or> (cont 194 194 c \<and> (case s of [] \<Rightarrow> False | d # _ \<Rightarrow> cont 128 159 d)) \<or> has_control s)"

definition validPathText :: "(string \<Rightarrow> bool) \<Rightarrow> string \<Rightarrow> bool" where
  "validPathText nfc value =
     (if \<not> utf8_valid value \<or> length value > 4096 \<or> \<not> nfc value then False else \<not> has_control value)"

datatype skill_error =
    UnsupportedManifest | NotRelative | NotCanonicalText | BadComponent | BadSizeOrMode
  | BadFileMetadata | BadNonFileMetadata | BadDirectoryMetadata | UnsupportedKind | BadLinkEntry
  | BadRuntimeLink | BadOrdinaryLink | NotSorted | NoDirectoryParent | SizeOverflow
  | LinkTargetMissing | LinkEscapes | LinkCycle | LinkThroughFile | LinkToAncestor
  | ContentSize | ContentDigest | ContentClass

definition ValidatePath :: "(string \<Rightarrow> bool) \<Rightarrow> string \<Rightarrow> skill_error option" where
  "ValidatePath nfc value =
     (if value = [] \<or> has_prefix [slash] value \<or> contains_any value [CHR 0x5C] then Some NotRelative
      else if \<not> validPathText nfc value then Some NotCanonicalText
      else if list_ex (\<lambda>part. part = [] \<or> part = ''.'' \<or> part = ''..'' \<or> length part > 255) (split_on slash value)
      then Some BadComponent
      else None)"

subsection \<open>Entries\<close>

record skill_entry =
  se_Path :: string
  se_Kind :: string
  se_Mode :: u32
  se_Size :: int
  se_SHA256 :: string
  se_Target :: string
  se_ContentKind :: string
  se_Dependency :: string

record Manifest =
  mf_Version :: int
  mf_Entries :: "skill_entry list"

definition contentDigestPattern :: "string \<Rightarrow> bool" where
  "contentDigestPattern s = (length s = 64 \<and> list_all lower_hex s)"

definition dependency_char :: "char \<Rightarrow> bool" where
  "dependency_char c = (cont 97 122 c \<or> cont 48 57 c \<or> c \<in> set ''_.-'')"

definition dependencyPattern :: "string \<Rightarrow> bool" where
  "dependencyPattern s =
     (case s of [] \<Rightarrow> False | c # rest \<Rightarrow> cont 97 122 c \<and> length rest \<le> 63 \<and> list_all dependency_char rest)"

definition validateEntry :: "(string \<Rightarrow> bool) \<Rightarrow> skill_entry \<Rightarrow> skill_error option" where
  "validateEntry nfc entry =
     (case ValidatePath nfc (se_Path entry) of
        Some e \<Rightarrow> Some e
      | None \<Rightarrow>
          if se_Mode entry > 511 \<or> se_Size entry < 0 then Some BadSizeOrMode
          else if se_Kind entry = ''file'' then
            (if \<not> contentDigestPattern (se_SHA256 entry)
                \<or> (se_ContentKind entry \<noteq> ''text'' \<and> se_ContentKind entry \<noteq> ''binary'')
                \<or> se_Target entry \<noteq> [] \<or> se_Dependency entry \<noteq> []
             then Some BadFileMetadata else None)
          else if se_Size entry \<noteq> 0 \<or> se_SHA256 entry \<noteq> [] \<or> se_ContentKind entry \<noteq> [] then Some BadNonFileMetadata
          else if se_Kind entry = ''directory'' then
            (if se_Target entry \<noteq> [] \<or> se_Dependency entry \<noteq> [] then Some BadDirectoryMetadata else None)
          else if se_Kind entry \<noteq> ''symlink'' \<and> se_Kind entry \<noteq> ''runtime_link'' then Some UnsupportedKind
          else if se_Mode entry \<noteq> 511 \<or> se_Target entry = [] \<or> contains_any (se_Target entry) [CHR 0x5C]
                  \<or> \<not> validPathText nfc (se_Target entry)
          then Some BadLinkEntry
          else if se_Kind entry = ''runtime_link'' then
            (if \<not> has_prefix [slash] (se_Target entry) \<or> \<not> dependencyPattern (se_Dependency entry)
             then Some BadRuntimeLink
             else ValidatePath nfc (trim_prefix [slash] (se_Target entry)))
          else if has_prefix [slash] (se_Target entry) \<or> se_Dependency entry \<noteq> [] then Some BadOrdinaryLink
          else None)"

subsection \<open>Links\<close>

text \<open>
  The loop of \<open>validateLinkLookup\<close>: \<open>hops\<close> counts the links followed so far, \<open>resolved\<close> is the
  path reached and \<open>pending\<close> what is left to walk. A link adds components, but at most forty
  links are followed, so the loop ends.
\<close>

function link_loop ::
  "(string \<Rightarrow> skill_error + skill_entry) \<Rightarrow> nat \<Rightarrow> string list \<Rightarrow> string list \<Rightarrow> skill_error + string list" where
  "link_loop lookup hops resolved [] = Inr resolved"
| "link_loop lookup hops resolved (part # pending) =
     (if part = [] \<or> part = ''.'' then link_loop lookup hops resolved pending
      else if part = ''..'' then
        (if resolved = [] then Inl LinkEscapes else link_loop lookup hops (butlast resolved) pending)
      else (case lookup (join_with slash (resolved @ [part])) of
              Inl e \<Rightarrow> Inl e
            | Inr target \<Rightarrow>
                if se_Kind target = ''symlink'' then
                  (if hops + 1 > 40 then Inl LinkCycle
                   else link_loop lookup (hops + 1) resolved (split_on slash (se_Target target) @ pending))
                else if pending \<noteq> [] \<and> se_Kind target \<noteq> ''directory'' then Inl LinkThroughFile
                else link_loop lookup hops (resolved @ [part]) pending))"
  by pat_completeness auto
termination
  by (relation "measures [\<lambda>(lookup, hops, resolved, pending). 41 - hops, \<lambda>(lookup, hops, resolved, pending). length pending]")
     auto

declare link_loop.simps [simp del]

definition validateLinkLookup :: "skill_entry \<Rightarrow> (string \<Rightarrow> skill_error + skill_entry) \<Rightarrow> skill_error option" where
  "validateLinkLookup entry lookup =
     (case link_loop lookup 0 (butlast (split_on slash (se_Path entry))) (split_on slash (se_Target entry)) of
        Inl e \<Rightarrow> Some e
      | Inr resolved \<Rightarrow>
          if resolved = [] \<or> has_prefix (join_with slash resolved @ [slash]) (se_Path entry) then Some LinkToAncestor
          else None)"

definition entry_lookup :: "(string \<times> skill_entry) list \<Rightarrow> string \<Rightarrow> skill_error + skill_entry" where
  "entry_lookup entries path = (case map_of entries path of None \<Rightarrow> Inl LinkTargetMissing | Some target \<Rightarrow> Inr target)"

definition validateLink :: "skill_entry \<Rightarrow> (string \<times> skill_entry) list \<Rightarrow> skill_error option" where
  "validateLink entry entries = validateLinkLookup entry (entry_lookup entries)"

subsection \<open>The whole manifest\<close>

definition parent_missing :: "(string \<times> skill_entry) list \<Rightarrow> string \<Rightarrow> bool" where
  "parent_missing byPath path =
     (let parts = split_on slash path in
      list_ex (\<lambda>index. case map_of byPath (join_with slash (take index parts)) of
                          None \<Rightarrow> True | Some parent \<Rightarrow> se_Kind parent \<noteq> ''directory'') [1..<length parts])"

fun check_entries ::
  "(string \<Rightarrow> bool) \<Rightarrow> (string \<times> skill_entry) list \<Rightarrow> string \<Rightarrow> int \<Rightarrow> skill_entry list
   \<Rightarrow> skill_error + (string \<times> skill_entry) list" where
  "check_entries nfc byPath previous sum_size [] = Inr byPath"
| "check_entries nfc byPath previous sum_size (entry # rest) =
     (case validateEntry nfc entry of
        Some e \<Rightarrow> Inl e
      | None \<Rightarrow>
          if se_Path entry \<le> previous then Inl NotSorted
          else if parent_missing byPath (se_Path entry) then Inl NoDirectoryParent
          else if sum_size > max_int64 - se_Size entry then Inl SizeOverflow
          else check_entries nfc (put (se_Path entry) entry byPath) (se_Path entry) (sum_size + se_Size entry) rest)"

fun check_links :: "(string \<times> skill_entry) list \<Rightarrow> skill_entry list \<Rightarrow> skill_error option" where
  "check_links byPath [] = None"
| "check_links byPath (entry # rest) =
     (case (if se_Kind entry = ''symlink'' then validateLink entry byPath else None) of
        Some e \<Rightarrow> Some e | None \<Rightarrow> check_links byPath rest)"

definition Validate :: "(string \<Rightarrow> bool) \<Rightarrow> Manifest \<Rightarrow> skill_error option" where
  "Validate nfc manifest =
     (if mf_Version manifest \<noteq> 1 \<or> length (mf_Entries manifest) > 100000 then Some UnsupportedManifest
      else (case check_entries nfc [] [] 0 (mf_Entries manifest) of
              Inl e \<Rightarrow> Some e
            | Inr byPath \<Rightarrow> check_links byPath (mf_Entries manifest)))"

subsection \<open>Identity and content\<close>

definition writeField :: "string \<Rightarrow> bytes" where
  "writeField value = value @ [NUL]"

definition entry_fields :: "skill_entry \<Rightarrow> string list" where
  "entry_fields entry =
     [se_Path entry, se_Kind entry, format_nat (unat (se_Mode entry)), format_int (se_Size entry),
      se_SHA256 entry, se_Target entry, se_ContentKind entry, se_Dependency entry]"

text \<open>The bytes \<open>Digest\<close> writes to the hash.\<close>

definition digest_input :: "Manifest \<Rightarrow> bytes" where
  "digest_input manifest =
     concat (map writeField (''agent-remote-skill-tree-v1'' # concat (map entry_fields (mf_Entries manifest))))"

definition hex_digit :: "nat \<Rightarrow> char" where
  "hex_digit n = (if n < 10 then char_of (48 + n) else char_of (87 + n))"

definition hex_encode :: "bytes \<Rightarrow> string" where
  "hex_encode s = concat (map (\<lambda>c. [hex_digit (of_char c div 16), hex_digit (of_char c mod 16)]) s)"

definition Digest :: "(string \<Rightarrow> bool) \<Rightarrow> (bytes \<Rightarrow> bytes) \<Rightarrow> Manifest \<Rightarrow> skill_error + string" where
  "Digest nfc sha manifest =
     (case Validate nfc manifest of Some e \<Rightarrow> Inl e | None \<Rightarrow> Inr (hex_encode (sha (digest_input manifest))))"

definition VerifyContent :: "(string \<Rightarrow> bool) \<Rightarrow> (bytes \<Rightarrow> bytes) \<Rightarrow> skill_entry \<Rightarrow> bytes \<Rightarrow> skill_error option" where
  "VerifyContent nfc sha entry content =
     (case validateEntry nfc entry of
        Some e \<Rightarrow> Some e
      | None \<Rightarrow>
          if se_Kind entry \<noteq> ''file'' \<or> se_Size entry \<noteq> int (length content) then Some ContentSize
          else if hex_encode (sha content) \<noteq> se_SHA256 entry then Some ContentDigest
          else if (se_ContentKind entry = ''text'') \<noteq> (utf8_valid content \<and> NUL \<notin> set content) then Some ContentClass
          else None)"

subsection \<open>What a link denotes\<close>

text \<open>
  \<open>denotes tree k dir path reached\<close>: walking \<open>path\<close> from the directory \<open>dir\<close> of the tree, through
  \<open>k\<close> links, ends at \<open>reached\<close>. Nothing lies above the root, a name must exist, only a directory
  can be walked through, and a link stands for its target.
\<close>

inductive denotes :: "(string \<Rightarrow> skill_entry option) \<Rightarrow> nat \<Rightarrow> string list \<Rightarrow> string list \<Rightarrow> string list \<Rightarrow> bool" for tree where
  arrived: "denotes tree 0 dir [] dir"
| stay: "\<lbrakk>name = [] \<or> name = ''.''; denotes tree k dir path reached\<rbrakk> \<Longrightarrow> denotes tree k dir (name # path) reached"
| up: "denotes tree k dir path reached \<Longrightarrow> denotes tree k (dir @ [x]) (''..'' # path) reached"
| down: "\<lbrakk>name \<notin> {[], ''.'', ''..''}; tree (join_with slash (dir @ [name])) = Some e; se_Kind e \<noteq> ''symlink'';
          path = [] \<or> se_Kind e = ''directory''; denotes tree k (dir @ [name]) path reached\<rbrakk>
         \<Longrightarrow> denotes tree k dir (name # path) reached"
| follow: "\<lbrakk>name \<notin> {[], ''.'', ''..''}; tree (join_with slash (dir @ [name])) = Some e; se_Kind e = ''symlink'';
            denotes tree k dir (split_on slash (se_Target e) @ path) reached\<rbrakk>
           \<Longrightarrow> denotes tree (Suc k) dir (name # path) reached"

lemma loop_sound:
  "link_loop (entry_lookup es) h d ps = Inr r \<Longrightarrow> h \<le> 40 \<Longrightarrow> \<exists>k. denotes (map_of es) k d ps r \<and> h + k \<le> 40"
proof (induction "entry_lookup es" h d ps rule: link_loop.induct)
  case (1 hops resolved)
  then show ?case by (auto simp: link_loop.simps intro: arrived)
next
  case (2 hops resolved part pending)
  consider (stay) "part = [] \<or> part = ''.''"
    | (up) "part = ''..''"
    | (name) "part \<notin> {[], ''.'', ''..''}" by auto
  then show ?case
  proof cases
    case stay
    then show ?thesis using 2 by (auto simp: link_loop.simps(2) intro: denotes.stay)
  next
    case up
    then have "resolved \<noteq> []" and rest: "link_loop (entry_lookup es) hops (butlast resolved) pending = Inr r"
      using "2.prems"(1) by (auto simp: link_loop.simps(2) split: if_splits)
    have "\<exists>k. denotes (map_of es) k (butlast resolved) pending r \<and> hops + k \<le> 40"
      using 2(2) [OF _ up \<open>resolved \<noteq> []\<close> rest "2.prems"(2)] up by simp
    then obtain k where "denotes (map_of es) k (butlast resolved) pending r" "hops + k \<le> 40" by blast
    then show ?thesis using denotes.up [of "map_of es" k "butlast resolved" pending r "last resolved"] \<open>resolved \<noteq> []\<close> up by auto
  next
    case name
    then obtain e where e: "map_of es (join_with slash (resolved @ [part])) = Some e"
      using "2.prems"(1) by (auto simp: link_loop.simps(2) entry_lookup_def split: option.splits)
    then have look: "entry_lookup es (join_with slash (resolved @ [part])) = Inr e" by (simp add: entry_lookup_def)
    show ?thesis
    proof (cases "se_Kind e = ''symlink''")
      case True
      then have "\<not> hops + 1 > 40" "link_loop (entry_lookup es) (hops + 1) resolved (split_on slash (se_Target e) @ pending) = Inr r"
        using "2.prems"(1) name look by (auto simp: link_loop.simps(2) split: if_splits)
      then obtain k where k: "denotes (map_of es) k resolved (split_on slash (se_Target e) @ pending) r" "hops + 1 + k \<le> 40"
        using 2(3) [OF _ _ look True] name by auto
      show ?thesis using follow [OF name e True k(1)] k(2) by (intro exI [of _ "Suc k"]) simp
    next
      case False
      then have go: "\<not> (pending \<noteq> [] \<and> se_Kind e \<noteq> ''directory'')" "link_loop (entry_lookup es) hops (resolved @ [part]) pending = Inr r"
        using "2.prems"(1) name look by (auto simp: link_loop.simps(2) split: if_splits)
      then obtain k where k: "denotes (map_of es) k (resolved @ [part]) pending r" "hops + k \<le> 40"
        using 2(4) [OF _ _ look False] "2.prems"(2) name by auto
      show ?thesis using down [OF name e False _ k(1)] go(1) k(2) by auto
    qed
  qed
qed

lemma loop_complete:
  "denotes (map_of es) k d ps r \<Longrightarrow> h + k \<le> 40 \<Longrightarrow> link_loop (entry_lookup es) h d ps = Inr r"
  by (induction arbitrary: h rule: denotes.induct) (auto simp: link_loop.simps entry_lookup_def)

lemma loop_iff: "link_loop (entry_lookup es) 0 d ps = Inr r \<longleftrightarrow> (\<exists>k \<le> 40. denotes (map_of es) k d ps r)"
  using loop_sound [of es 0 d ps r] loop_complete [of es _ d ps r 0] by auto

text \<open>Every directory passed on the way to \<open>dir\<close>, and \<open>dir\<close> itself, is in the tree and is not a link.\<close>

definition plain_path :: "(string \<Rightarrow> skill_entry option) \<Rightarrow> string list \<Rightarrow> bool" where
  "plain_path tree dir \<longleftrightarrow>
     (\<forall>i. 0 < i \<and> i \<le> length dir \<longrightarrow> (\<exists>e. tree (join_with slash (take i dir)) = Some e \<and> se_Kind e \<noteq> ''symlink''))"

lemma plain_path_snoc:
  "plain_path tree (dir @ [x]) \<longleftrightarrow>
     plain_path tree dir \<and> (\<exists>e. tree (join_with slash (dir @ [x])) = Some e \<and> se_Kind e \<noteq> ''symlink'')"
  by (auto simp: plain_path_def le_Suc_eq)

lemma denotes_plain: "denotes tree k d ps r \<Longrightarrow> plain_path tree d \<Longrightarrow> plain_path tree r"
  by (induction rule: denotes.induct) (auto simp: plain_path_snoc)

subsection \<open>What the checks establish\<close>

definition tree_of :: "skill_entry list \<Rightarrow> string \<Rightarrow> skill_entry option" where
  "tree_of es = map_of (map (\<lambda>e. (se_Path e, e)) es)"

lemma tree_of_Cons: "tree_of (e # es) = (tree_of es)(se_Path e \<mapsto> e)"
  by (simp add: tree_of_def)

lemma tree_of_SomeD: "tree_of es p = Some e \<Longrightarrow> e \<in> set es \<and> se_Path e = p"
  by (auto simp: tree_of_def dest: map_of_SomeD)

lemma tree_of_dom: "dom (tree_of es) = se_Path ` set es"
  by (auto simp: tree_of_def dom_map_of_conv_image_fst image_image)

lemma tree_of_member: "sorted_wrt (<) (map se_Path es) \<Longrightarrow> e \<in> set es \<Longrightarrow> tree_of es (se_Path e) = Some e"
  by (induction es) (auto simp: tree_of_Cons)

lemma check_entries_sorted:
  "check_entries nfc byPath previous n es = Inr t \<Longrightarrow> sorted_wrt (<) (previous # map se_Path es)"
proof (induction es arbitrary: byPath previous n)
  case (Cons e es)
  then have "previous < se_Path e" "sorted_wrt (<) (se_Path e # map se_Path es)"
    by (auto simp: not_le split: option.splits if_splits)
  then show ?case by auto
qed simp

lemma check_entries_valid:
  "check_entries nfc byPath previous n es = Inr t \<Longrightarrow> e \<in> set es \<Longrightarrow> validateEntry nfc e = None"
  by (induction es arbitrary: byPath previous n) (auto split: option.splits if_splits)

lemma check_entries_size:
  "check_entries nfc byPath previous n es = Inr t \<Longrightarrow> n \<le> max_int64 \<Longrightarrow> n + sum_list (map se_Size es) \<le> max_int64"
proof (induction es arbitrary: byPath previous n)
  case (Cons e es)
  then have "check_entries nfc (put (se_Path e) e byPath) (se_Path e) (n + se_Size e) es = Inr t" "n + se_Size e \<le> max_int64"
    by (auto split: option.splits if_splits)
  from Cons.IH [OF this] show ?case by (simp add: add.assoc)
qed simp

lemma check_entries_map: "check_entries nfc byPath previous n es = Inr t \<Longrightarrow> map_of t = map_of byPath ++ tree_of es"
proof (induction es arbitrary: byPath previous n)
  case Nil
  then show ?case by (simp add: tree_of_def)
next
  case (Cons e es)
  then have rest: "check_entries nfc (put (se_Path e) e byPath) (se_Path e) (n + se_Size e) es = Inr t"
    by (auto split: option.splits if_splits)
  have "se_Path e \<notin> dom (tree_of es)" using check_entries_sorted [OF rest] by (auto simp: tree_of_dom)
  then show ?case using Cons.IH [OF rest] by (auto simp: tree_of_Cons fun_eq_iff map_add_def split: option.splits)
qed

lemma check_entries_parents:
  "check_entries nfc byPath previous n es = Inr t \<Longrightarrow> \<forall>p. map_of byPath p \<noteq> None \<longrightarrow> p \<le> previous \<Longrightarrow>
   e \<in> set es \<Longrightarrow> \<not> parent_missing t (se_Path e)"
proof (induction es arbitrary: byPath previous n)
  case (Cons a es)
  then have a: "\<not> parent_missing byPath (se_Path a)" "\<not> se_Path a \<le> previous"
    and rest: "check_entries nfc (put (se_Path a) a byPath) (se_Path a) (n + se_Size a) es = Inr t"
    by (auto split: option.splits if_splits)
  have below: "\<forall>p. map_of (put (se_Path a) a byPath) p \<noteq> None \<longrightarrow> p \<le> se_Path a"
    using Cons.prems(2) a(2) by (auto simp: not_le intro: order.trans [OF _ less_imp_le])
  show ?case
  proof (cases "e \<in> set es")
    case True
    then show ?thesis by (rule Cons.IH [OF rest below])
  next
    case False
    have "map_of t p = Some d" if "map_of byPath p = Some d" for p d
    proof -
      have "p \<le> previous" using Cons.prems(2) that by simp
      then have "p \<notin> dom (tree_of (a # es))" using check_entries_sorted [OF Cons.prems(1)] by (auto simp: tree_of_dom)
      then show ?thesis using check_entries_map [OF Cons.prems(1)] that by (simp add: map_add_dom_app_simps(3))
    qed
    moreover have "e = a" using False Cons.prems(3) by simp
    ultimately show ?thesis using a(1)
      by (fastforce simp: parent_missing_def Let_def list_ex_iff split: option.splits)
  qed
qed simp

lemma check_links_None: "check_links t es = None \<longleftrightarrow> (\<forall>e \<in> set es. se_Kind e = ''symlink'' \<longrightarrow> validateLink e t = None)"
  by (induction es) (auto split: option.splits)

lemma validateLink_None:
  "validateLink e entries = None \<longleftrightarrow>
     (\<exists>k r. k \<le> 40 \<and> denotes (map_of entries) k (butlast (split_on slash (se_Path e))) (split_on slash (se_Target e)) r
            \<and> r \<noteq> [] \<and> \<not> has_prefix (join_with slash r @ [slash]) (se_Path e))"
proof -
  have "validateLink e entries = None \<longleftrightarrow>
     (\<exists>r. link_loop (entry_lookup entries) 0 (butlast (split_on slash (se_Path e))) (split_on slash (se_Target e)) = Inr r
          \<and> r \<noteq> [] \<and> \<not> has_prefix (join_with slash r @ [slash]) (se_Path e))"
    by (auto simp: validateLink_def validateLinkLookup_def split: sum.splits)
  then show ?thesis unfolding loop_iff by blast
qed

lemma ValidatePath_good: "ValidatePath nfc p = None \<Longrightarrow> good_segs (split_on slash p)"
  by (auto simp: ValidatePath_def good_segs_def good_seg_def list_ex_iff dest: split_on_no_sep split: if_splits)

lemma validateEntry_path: "validateEntry nfc e = None \<Longrightarrow> ValidatePath nfc (se_Path e) = None"
  by (auto simp: validateEntry_def split: option.splits)

lemma validateEntry_size: "validateEntry nfc e = None \<Longrightarrow> se_Size e \<ge> 0"
  by (auto simp: validateEntry_def split: option.splits if_splits)

lemma relative_confined:
  assumes "isAbs root" "good_segs (split_on slash p)"
  shows "confined root (Join [root, p])"
proof -
  have "Join [root, p] = Join (root # split_on slash p)" using assms(1) by (simp add: Join_abs(3))
  then show ?thesis
    using Join_abs(1,2) [OF assms(1)] Join_segments [OF assms] assms(2) by (simp add: confined_def)
qed

subsection \<open>Properties of manifests\<close>


lemma validated_parts:
  assumes "Validate nfc m = None"
  obtains t where "check_entries nfc [] [] 0 (mf_Entries m) = Inr t" "check_links t (mf_Entries m) = None"
  using assms by (auto simp: Validate_def split: if_splits sum.splits)

lemma validated_parents:
  assumes "check_entries nfc [] [] 0 es = Inr t" "e \<in> set es" "0 < i" "i < length (split_on slash (se_Path e))"
  shows "\<exists>d \<in> set es. tree_of es (join_with slash (take i (split_on slash (se_Path e)))) = Some d \<and> se_Kind d = ''directory''"
proof -
  have "\<not> parent_missing t (se_Path e)" by (rule check_entries_parents [OF assms(1) _ assms(2)]) simp
  then obtain d where "map_of t (join_with slash (take i (split_on slash (se_Path e)))) = Some d" "se_Kind d = ''directory''"
    using assms(3,4) by (fastforce simp: parent_missing_def Let_def list_ex_iff split: option.splits)
  then show ?thesis using check_entries_map [OF assms(1)] tree_of_SomeD by fastforce
qed

lemma parents_plain:
  assumes "check_entries nfc [] [] 0 es = Inr t" "e \<in> set es"
  shows "plain_path (tree_of es) (butlast (split_on slash (se_Path e)))"
  unfolding plain_path_def
proof (intro allI impI)
  fix i
  assume i: "0 < i \<and> i \<le> length (butlast (split_on slash (se_Path e)))"
  then have lt: "i < length (split_on slash (se_Path e))" by auto
  then have "take i (butlast (split_on slash (se_Path e))) = take i (split_on slash (se_Path e))"
    using i by (simp add: take_butlast)
  then show "\<exists>d. tree_of es (join_with slash (take i (butlast (split_on slash (se_Path e))))) = Some d \<and> se_Kind d \<noteq> ''symlink''"
    using validated_parents [OF assms _ lt] i by auto
qed

definition parents_listed :: "skill_entry list \<Rightarrow> skill_entry \<Rightarrow> bool" where
  "parents_listed es e \<longleftrightarrow>
     (\<forall>i. 0 < i \<and> i < length (split_on slash (se_Path e)) \<longrightarrow>
        (\<exists>d \<in> set es. se_Path d = join_with slash (take i (split_on slash (se_Path e))) \<and> se_Kind d = ''directory''))"

definition link_lands :: "skill_entry list \<Rightarrow> skill_entry \<Rightarrow> bool" where
  "link_lands es e \<longleftrightarrow>
     (\<exists>k r t. k \<le> 40 \<and> denotes (tree_of es) k (butlast (split_on slash (se_Path e))) (split_on slash (se_Target e)) r
        \<and> t \<in> set es \<and> se_Path t = join_with slash r \<and> se_Kind t \<noteq> ''symlink''
        \<and> \<not> has_prefix (se_Path t @ [slash]) (se_Path e))"

lemma validated_link:
  assumes t: "check_entries nfc [] [] 0 es = Inr t" and e: "e \<in> set es" and "validateLink e t = None"
  shows "link_lands es e"
proof -
  obtain k r where kr: "k \<le> 40" "r \<noteq> []" "\<not> has_prefix (join_with slash r @ [slash]) (se_Path e)"
      "denotes (tree_of es) k (butlast (split_on slash (se_Path e))) (split_on slash (se_Target e)) r"
    using assms(3) unfolding validateLink_None check_entries_map [OF t] by auto
  have "plain_path (tree_of es) r" by (rule denotes_plain [OF kr(4) parents_plain [OF t e]])
  then obtain x where x: "tree_of es (join_with slash (take (length r) r)) = Some x" "se_Kind x \<noteq> ''symlink''"
    using kr(2) unfolding plain_path_def by blast
  have "x \<in> set es \<and> se_Path x = join_with slash r" using tree_of_SomeD [OF x(1)] by simp
  then show ?thesis using kr x(2) unfolding link_lands_def by (intro exI [of _ k] exI [of _ r] exI [of _ x]) simp
qed

text \<open>
  C29: a validated manifest is a closed tree. Its paths are strictly increasing; materialised
  below any absolute root every path stays inside; every parent is listed as a directory; the
  sizes cannot overflow a 64-bit count; and every link leads, through at most forty links, to an
  entry of the manifest that is not a link itself and not a directory above the link.
\<close>

theorem manifest_tree_closed:
  assumes "Validate nfc m = None" and "isAbs root"
  shows "sorted_wrt (<) (map se_Path (mf_Entries m)) \<and> sum_list (map se_Size (mf_Entries m)) \<le> max_int64 \<and>
    (\<forall>e \<in> set (mf_Entries m). confined root (Join [root, se_Path e]) \<and> parents_listed (mf_Entries m) e \<and>
       (se_Kind e = ''symlink'' \<longrightarrow> link_lands (mf_Entries m) e))"
proof (intro conjI ballI impI)
  obtain t where t: "check_entries nfc [] [] 0 (mf_Entries m) = Inr t" and links: "check_links t (mf_Entries m) = None"
    using assms(1) by (rule validated_parts)
  show "sorted_wrt (<) (map se_Path (mf_Entries m))" using check_entries_sorted [OF t] by simp
  show "sum_list (map se_Size (mf_Entries m)) \<le> max_int64" using check_entries_size [OF t] by simp
  fix e
  assume e: "e \<in> set (mf_Entries m)"
  show "confined root (Join [root, se_Path e])"
    by (rule relative_confined [OF assms(2) ValidatePath_good [OF validateEntry_path [OF check_entries_valid [OF t e]]]])
  show "parents_listed (mf_Entries m) e"
    unfolding parents_listed_def
  proof (intro allI impI)
    fix i
    assume "0 < i \<and> i < length (split_on slash (se_Path e))"
    then obtain d where "d \<in> set (mf_Entries m)" "se_Kind d = ''directory''"
        and d: "tree_of (mf_Entries m) (join_with slash (take i (split_on slash (se_Path e)))) = Some d"
      using validated_parents [OF t e, of i] by blast
    then show "\<exists>d \<in> set (mf_Entries m). se_Path d = join_with slash (take i (split_on slash (se_Path e))) \<and> se_Kind d = ''directory''"
      using tree_of_SomeD [OF d] by (intro bexI [of _ d]) simp_all
  qed
  assume "se_Kind e = ''symlink''"
  then have "validateLink e t = None" using links e by (simp add: check_links_None)
  then show "link_lands (mf_Entries m) e" by (rule validated_link [OF t e])
qed

definition sample_manifest :: Manifest where
  "sample_manifest = \<lparr>mf_Version = 1, mf_Entries =
     [\<lparr>se_Path = ''bin'', se_Kind = ''directory'', se_Mode = 493, se_Size = 0, se_SHA256 = [], se_Target = [],
       se_ContentKind = [], se_Dependency = []\<rparr>,
      \<lparr>se_Path = ''bin/a'', se_Kind = ''symlink'', se_Mode = 511, se_Size = 0, se_SHA256 = [], se_Target = ''../run'',
       se_ContentKind = [], se_Dependency = []\<rparr>,
      \<lparr>se_Path = ''run'', se_Kind = ''file'', se_Mode = 493, se_Size = 5, se_SHA256 = replicate 64 CHR ''a'', se_Target = [],
       se_ContentKind = ''text'', se_Dependency = []\<rparr>]\<rparr>"

lemmas sample_checks = validateEntry_def ValidatePath_def validPathText_def cont_def has_prefix_def contains_any_def
  contentDigestPattern_def lower_hex_def list_all_iff

lemma sample_manifest_valid: "Validate (\<lambda>_. True) sample_manifest = None"
  by (simp add: Validate_def sample_manifest_def sample_checks parent_missing_def put_def upt_rec
      Cons_le_Cons Cons_less_Cons less_eq_char_def less_char_def validateLink_def validateLinkLookup_def link_loop.simps entry_lookup_def)

theorem manifest_tree_closed_witness:
  "Validate (\<lambda>_. True) sample_manifest = None \<and> isAbs ''/srv/skills''
   \<and> link_lands (mf_Entries sample_manifest) (mf_Entries sample_manifest ! 1)"
proof -
  have abs: "isAbs ''/srv/skills''" by simp
  have "mf_Entries sample_manifest ! 1 \<in> set (mf_Entries sample_manifest)" "se_Kind (mf_Entries sample_manifest ! 1) = ''symlink''"
    by (simp_all add: sample_manifest_def)
  then show ?thesis using manifest_tree_closed [OF sample_manifest_valid abs] sample_manifest_valid by simp
qed

subsection \<open>The digest identifies the tree\<close>

lemma no_control_NUL: "\<not> has_control s \<Longrightarrow> NUL \<notin> set s"
  by (induction s rule: has_control.induct) (auto simp: cont_def)

lemma pattern_NUL: "contentDigestPattern s \<Longrightarrow> NUL \<notin> set s" "dependencyPattern s \<Longrightarrow> NUL \<notin> set s"
  by (auto simp: contentDigestPattern_def dependencyPattern_def dependency_char_def lower_hex_def list_all_iff cont_def
      split: list.splits)

lemma text_NUL: "validPathText nfc s \<Longrightarrow> NUL \<notin> set s" "ValidatePath nfc s = None \<Longrightarrow> NUL \<notin> set s"
  by (auto simp: validPathText_def ValidatePath_def no_control_NUL split: if_splits)

lemma entry_fields_NUL:
  assumes "validateEntry nfc e = None" "f \<in> set (entry_fields e)"
  shows "NUL \<notin> set f"
proof -
  have "NUL \<notin> set (se_Path e)" using text_NUL(2) [OF validateEntry_path [OF assms(1)]] .
  moreover have "NUL \<notin> set (se_Kind e)" "NUL \<notin> set (se_SHA256 e)" "NUL \<notin> set (se_Target e)"
      "NUL \<notin> set (se_ContentKind e)" "NUL \<notin> set (se_Dependency e)" "se_Size e \<ge> 0"
    using assms(1) pattern_NUL text_NUL(1) by (auto simp: validateEntry_def split: option.splits if_splits)
  ultimately show ?thesis using assms(2) by (auto simp: entry_fields_def format_int_def)
qed

lemma entry_fields_inj:
  assumes "entry_fields a = entry_fields b" "se_Size a \<ge> 0" "se_Size b \<ge> 0"
  shows "a = (b :: skill_entry)"
  using assms by (cases a; cases b) (auto simp: entry_fields_def format_int_def format_nat_inj word_unat_eq_iff nat_eq_iff2 split: if_splits)

lemma fields_inj:
  "concat (map writeField fs) = concat (map writeField gs) \<Longrightarrow> \<forall>f \<in> set fs \<union> set gs. NUL \<notin> set f \<Longrightarrow> fs = gs"
proof (induction fs arbitrary: gs)
  case Nil
  then show ?case by (cases gs) (auto simp: writeField_def)
next
  case (Cons f fs)
  then obtain g gs' where gs: "gs = g # gs'" by (cases gs) (auto simp: writeField_def)
  then have "f = g \<and> concat (map writeField fs) = concat (map writeField gs')"
    using Cons.prems by (intro split_at_sep [of _ NUL]) (simp_all add: writeField_def [abs_def])
  then show ?case using Cons.IH [of gs'] Cons.prems(2) gs by simp
qed

lemma concat_fields_inj:
  "concat (map entry_fields es) = concat (map entry_fields fs) \<Longrightarrow> \<forall>e \<in> set es \<union> set fs. se_Size e \<ge> 0 \<Longrightarrow> es = fs"
proof (induction es arbitrary: fs)
  case Nil
  then show ?case by (cases fs) (auto simp: entry_fields_def)
next
  case (Cons e es)
  then obtain f fs' where fs: "fs = f # fs'" by (cases fs) (auto simp: entry_fields_def)
  have "length (entry_fields e) = length (entry_fields f)" by (simp add: entry_fields_def)
  then have "entry_fields e = entry_fields f \<and> concat (map entry_fields es) = concat (map entry_fields fs')"
    using Cons.prems(1) fs by (intro append_eq_lengthD) simp_all
  then show ?case using Cons.IH [of fs'] Cons.prems(2) fs entry_fields_inj [of e f] by simp
qed

lemma digest_input_inj:
  assumes "Validate nfc m = None" "Validate nfc m' = None" "digest_input m = digest_input m'"
  shows "m = (m' :: Manifest)"
proof -
  have valid: "validateEntry nfc e = None" if "e \<in> set (mf_Entries m) \<union> set (mf_Entries m')" for e
    using assms(1,2) that check_entries_valid by (auto elim!: validated_parts)
  then have size: "\<forall>e \<in> set (mf_Entries m) \<union> set (mf_Entries m'). se_Size e \<ge> 0"
    using validateEntry_size by blast
  have "concat (map entry_fields (mf_Entries m)) = concat (map entry_fields (mf_Entries m'))"
    using assms(3) valid entry_fields_NUL by (intro fields_inj) (auto simp: digest_input_def)
  then have "mf_Entries m = mf_Entries m'" by (rule concat_fields_inj [OF _ size])
  moreover have "mf_Version m = 1" "mf_Version m' = 1" using assms(1,2) by (auto simp: Validate_def split: if_splits)
  ultimately show ?thesis by (cases m; cases m') simp
qed

lemma hex_digit_inj: "a < 16 \<Longrightarrow> b < 16 \<Longrightarrow> hex_digit a = hex_digit b \<Longrightarrow> a = b"
  by (auto simp: hex_digit_def char_of_eq_iff take_bit_nat_eq_self split: if_splits)

lemma hex_encode_inj: "hex_encode s = hex_encode t \<Longrightarrow> s = t"
proof (induction s arbitrary: t)
  case Nil
  then show ?case by (cases t) (auto simp: hex_encode_def)
next
  case (Cons c s)
  then obtain d t' where t: "t = d # t'" by (cases t) (auto simp: hex_encode_def)
  have "of_char x < (256 :: nat)" for x :: char by simp
  then have lt: "of_char x div 16 < (16 :: nat)" "of_char x mod 16 < (16 :: nat)" for x :: char
    using less_mult_imp_div_less [of "of_char x :: nat" 16 16] by simp_all
  have "of_char c div 16 = (of_char d div 16 :: nat)" "of_char c mod 16 = (of_char d mod 16 :: nat)"
    using Cons.prems t by (auto simp: hex_encode_def intro: hex_digit_inj lt)
  then have "(of_char c :: nat) = of_char d" by (metis mult_div_mod_eq)
  then show ?case using Cons t by (simp add: hex_encode_def)
qed

text \<open>
  C31: the digest identifies the tree. Two manifests with the same digest are equal, or their
  canonical byte streams are a collision of the hash: the stream itself determines the manifest.
\<close>

theorem digest_identifies_tree:
  assumes "Digest nfc sha m = Inr d" "Digest nfc sha m' = Inr d"
  shows "m = m' \<or> (digest_input m \<noteq> digest_input m' \<and> sha (digest_input m) = sha (digest_input m'))"
proof -
  have ok: "Validate nfc m = None" "Validate nfc m' = None"
    and "hex_encode (sha (digest_input m)) = hex_encode (sha (digest_input m'))"
    using assms by (auto simp: Digest_def split: option.splits)
  then show ?thesis using digest_input_inj [OF ok] hex_encode_inj by blast
qed

theorem digest_identifies_tree_witness:
  "\<exists>d. Digest (\<lambda>_. True) (\<lambda>s. s) sample_manifest = Inr d
     \<and> Digest (\<lambda>_. True) (\<lambda>s. s) (sample_manifest\<lparr>mf_Entries := []\<rparr>) \<noteq> Inr d"
proof -
  have ok: "Digest (\<lambda>_. True) (\<lambda>s. s) sample_manifest = Inr (hex_encode (digest_input sample_manifest))"
    by (simp add: Digest_def sample_manifest_valid)
  moreover have "Digest (\<lambda>_. True) (\<lambda>s. s) (sample_manifest\<lparr>mf_Entries := []\<rparr>) \<noteq> Inr (hex_encode (digest_input sample_manifest))"
    using digest_identifies_tree [OF ok] by (auto simp: sample_manifest_def)
  ultimately show ?thesis by blast
qed

end
