(* ===== verification/Managed_Skills.thy ===== *)
theory Managed_Skills
  imports Effects Skill_Manifest
begin

section \<open>Installing the node's own skills\<close>

text \<open>
  \<open>managedskills/managedskills.go\<close>: \<open>InstallClaude\<close> writes the embedded skills into an account.
  The embedded files are arguments, in the order in which \<open>fs.WalkDir\<close> visits them: their path,
  whether they are regular, and their content. The operations go through an \<open>os.Root\<close> opened on
  the account; their calls name the path below it. Closing a handle that was only read is not
  recorded.
\<close>

definition deviceSkillDirectory :: string where
  "deviceSkillDirectory = ''.claude/skills/agent-remote-device''"

definition deviceSkillReferencesDirectory :: string where
  "deviceSkillReferencesDirectory = deviceSkillDirectory @ ''/references''"

definition deviceSkillPath :: string where
  "deviceSkillPath = deviceSkillDirectory @ ''/SKILL.md''"

definition deviceBrowserReferencePath :: string where
  "deviceBrowserReferencePath = deviceSkillReferencesDirectory @ ''/browser.md''"

definition egoBrowserSkillDirectory :: string where
  "egoBrowserSkillDirectory = ''.claude/skills/ego-browser''"

definition egoBrowserEmbeddedRoot :: string where
  "egoBrowserEmbeddedRoot = ''skills/ego-browser''"

definition OfficialSkillDocumentSHA256 :: string where
  "OfficialSkillDocumentSHA256 = ''9402bf03db895209a755d5e2af9b436dbf98eed0911907110a4ea482c30632de''"

definition OfficialSkillTreeSHA256 :: string where
  "OfficialSkillTreeSHA256 = ''a45cc7fcbea45a6f6222faf83c891b0fd22955193699dd99c9e40b0c0b4a0741''"

record managedFile =
  gf_path :: string
  gf_content :: bytes

record Ownership =
  ow_UID :: int
  ow_GID :: int

subsection \<open>The embedded files\<close>

definition fs_ValidPath :: "string \<Rightarrow> bool" where
  "fs_ValidPath name =
     (utf8_valid name \<and> (name = ''.'' \<or> list_all (\<lambda>e. e \<noteq> [] \<and> e \<noteq> ''.'' \<and> e \<noteq> ''..'') (split_on slash name)))"

record embedded_file =
  em_path :: string
  em_regular :: bool
  em_content :: bytes

definition cut_prefix :: "string \<Rightarrow> string \<Rightarrow> string option" where
  "cut_prefix p s = (if has_prefix p s then Some (drop (length p) s) else None)"

text \<open>The walk: the files in order, and the bytes written to the tree digest.\<close>

fun collect_files :: "embedded_file list \<Rightarrow> prog_error + managedFile list \<times> bytes" where
  "collect_files [] = Inr ([], [])"
| "collect_files (f # rest) =
     (if \<not> em_regular f then Inl (Refused ''embedded path is not a regular file'')
      else (case cut_prefix (egoBrowserEmbeddedRoot @ [slash]) (em_path f) of
              None \<Rightarrow> Inl (Refused ''embedded path is invalid'')
            | Some relative \<Rightarrow>
                if relative = [] \<or> \<not> fs_ValidPath relative then Inl (Refused ''embedded path is invalid'')
                else (case collect_files rest of
                        Inl e \<Rightarrow> Inl e
                      | Inr (files, digested) \<Rightarrow>
                          Inr (\<lparr>gf_path = Join [egoBrowserSkillDirectory, relative], gf_content = em_content f\<rparr> # files,
                               relative @ [NUL] @ format_nat (length (em_content f)) @ [NUL] @ em_content f @ [NUL] @ digested))))"

definition verifiedEgoBrowserSkillFiles :: "(bytes \<Rightarrow> bytes) \<Rightarrow> embedded_file list \<Rightarrow> prog_error + managedFile list" where
  "verifiedEgoBrowserSkillFiles sha embedded =
     (case collect_files embedded of
        Inl e \<Rightarrow> Inl e
      | Inr ([], _) \<Rightarrow> Inl (Refused ''official Skill tree is empty'')
      | Inr (document # files, digested) \<Rightarrow>
          if gf_path document \<noteq> egoBrowserSkillDirectory @ ''/SKILL.md'' then Inl (Refused ''official Skill document is missing'')
          else if hex_encode (sha (gf_content document)) \<noteq> OfficialSkillDocumentSHA256
          then Inl (Refused ''official Skill document digest mismatch'')
          else if hex_encode (sha digested) \<noteq> OfficialSkillTreeSHA256 then Inl (Refused ''official Skill tree digest mismatch'')
          else Inr (document # files))"

subsection \<open>The installation\<close>

definition chown_to :: "string \<Rightarrow> Ownership option \<Rightarrow> unit prog" where
  "chown_to path ownership =
     (case ownership of None \<Rightarrow> return_p () | Some ow \<Rightarrow> must (FileChown path (ow_UID ow) (ow_GID ow)))"

definition ensureDirectory :: "string \<Rightarrow> string \<Rightarrow> Ownership option \<Rightarrow> unit prog" where
  "ensureDirectory root path ownership =
     (let full = Join [root, path] in
      before_p (must (MkdirAll full))
     (before_p (must (OpenDir full))
     (then_p (ask (Stat full)) (\<lambda>info. case info of
        Node kind \<Rightarrow> if kind \<noteq> Directory then refuse ''path is not a directory'' else chown_to full ownership
      | _ \<Rightarrow> fail_p (HostError (Stat full) info)))))"

definition temporary_name :: "bytes \<Rightarrow> string" where
  "temporary_name suffix = ''.agent-remote-skill-'' @ hex_encode suffix"

fun createTemporaryFile :: "nat \<Rightarrow> string \<Rightarrow> string \<Rightarrow> string prog" where
  "createTemporaryFile 0 root directory = refuse ''could not allocate temporary skill file''"
| "createTemporaryFile (Suc attempts) root directory =
     then_p (ask (RandomBytes 12)) (\<lambda>answer. case answer of
       Content suffix \<Rightarrow>
         (let path = Join [directory, temporary_name (take 12 suffix)]; full = Join [root, path] in
          then_p (ask (CreateExclusive full)) (\<lambda>opened.
            if opened = Done then return_p path
            else if opened = Present then createTemporaryFile attempts root directory
            else fail_p (HostError (CreateExclusive full) opened)))
     | _ \<Rightarrow> fail_p (HostError (RandomBytes 12) answer))"

definition writeFileAtomic :: "string \<Rightarrow> string \<Rightarrow> bytes \<Rightarrow> Ownership option \<Rightarrow> unit prog" where
  "writeFileAtomic root path content ownership =
     then_p (createTemporaryFile 10 root (Dir path)) (\<lambda>temporaryPath.
       (let temporary = Join [root, temporaryPath] in
        finally_p
          (before_p
            (on_error_p
              (before_p (must (WriteTo temporary content))
              (before_p (must (FileChmod temporary 384))
              (before_p (chown_to temporary ownership)
              (before_p (must (FileSync temporary)) (must (FileClose temporary))))))
              [FileClose temporary])
            (must (Rename temporary (Join [root, path]))))
          [Remove temporary]))"

definition applyFileMetadata :: "string \<Rightarrow> string \<Rightarrow> Ownership option \<Rightarrow> unit prog" where
  "applyFileMetadata root path ownership =
     (let full = Join [root, path] in
      before_p (must (Openat full))
     (then_p (ask (Stat full)) (\<lambda>info. case info of
        Node kind \<Rightarrow>
          if kind \<noteq> RegularFile then refuse ''managed skill is not a regular file''
          else before_p (must (FileChmod full 384)) (chown_to full ownership)
      | _ \<Rightarrow> fail_p (HostError (Stat full) info))))"

definition installManagedFile :: "string \<Rightarrow> managedFile \<Rightarrow> Ownership option \<Rightarrow> unit prog" where
  "installManagedFile root file ownership =
     (let full = Join [root, gf_path file];
          write_or_keep =
            then_p (ask (ReadFile full)) (\<lambda>current. case current of
              Content c \<Rightarrow>
                if c = gf_content file then applyFileMetadata root (gf_path file) ownership
                else writeFileAtomic root (gf_path file) (gf_content file) ownership
            | Absent \<Rightarrow> writeFileAtomic root (gf_path file) (gf_content file) ownership
            | _ \<Rightarrow> fail_p (HostError (ReadFile full) current)) in
      then_p (ask (Lstat full)) (\<lambda>info. case info of
        Node kind \<Rightarrow> if kind \<noteq> RegularFile then refuse ''managed skill path is not a regular file'' else write_or_keep
      | Absent \<Rightarrow> write_or_keep
      | _ \<Rightarrow> fail_p (HostError (Lstat full) info)))"

record managed_content =
  mc_sha :: "bytes \<Rightarrow> bytes"
  mc_embedded :: "embedded_file list"
  mc_deviceSkill :: bytes
  mc_deviceBrowserReference :: bytes

definition InstallClaude :: "managed_content \<Rightarrow> string \<Rightarrow> Ownership option \<Rightarrow> unit prog" where
  "InstallClaude mc accountPath ownership =
     (case verifiedEgoBrowserSkillFiles (mc_sha mc) (mc_embedded mc) of
        Inl e \<Rightarrow> fail_p e
      | Inr egoBrowserFiles \<Rightarrow>
          before_p (must (OpenDir accountPath))
         (before_p
           (each_p (\<lambda>path. ensureDirectory accountPath path ownership)
             [''.claude/skills'', deviceSkillDirectory, deviceSkillReferencesDirectory, egoBrowserSkillDirectory])
         (before_p
           (each_p (\<lambda>file. installManagedFile accountPath file ownership)
             [\<lparr>gf_path = deviceSkillPath, gf_content = mc_deviceSkill mc\<rparr>,
              \<lparr>gf_path = deviceBrowserReferencePath, gf_content = mc_deviceBrowserReference mc\<rparr>])
           (each_p (\<lambda>file. before_p (ensureDirectory accountPath (Dir (gf_path file)) ownership)
                                    (installManagedFile accountPath file ownership))
             egoBrowserFiles))))"

subsection \<open>Where the installation writes\<close>

text \<open>Relative paths in their cleaned form.\<close>

lemma rel_not_abs: "good_segs ss \<Longrightarrow> ss \<noteq> [] \<Longrightarrow> \<not> isAbs (join_with slash ss @ t)"
proof -
  assume "good_segs ss" "ss \<noteq> []"
  then obtain c s rest where "ss = (c # s) # rest" "c \<noteq> slash" by (cases ss; cases "hd ss") (auto simp: good_seg_def)
  then show ?thesis by (cases rest) simp_all
qed

lemma Clean_rel:
  assumes "good_segs ss" "ss \<noteq> []"
  shows "Clean (join_with slash ss) = join_with slash ss" "Clean (join_with slash ss @ [slash]) = join_with slash ss"
proof -
  have "\<not> isAbs (join_with slash ss)" using rel_not_abs [OF assms, of "[]"] by simp
  moreover have "segments (join_with slash ss) = ss"
    using assms by (simp add: segments_def good_join_split clean_segs_id)
  ultimately show "Clean (join_with slash ss) = join_with slash ss" using assms by (simp add: Clean_def render_def)
  have "split_on slash (join_with slash ss @ [slash]) = ss @ [[]]"
    using assms split_on_append [of slash "join_with slash ss" "[]"] by (simp add: good_join_split)
  then have "segments (join_with slash ss @ [slash]) = ss"
    using assms by (simp add: segments_def clean_segs_append clean_segs_id)
  then show "Clean (join_with slash ss @ [slash]) = join_with slash ss"
    using rel_not_abs [OF assms] assms(2) by (simp add: Clean_def render_def)
qed

lemma Join_rel:
  assumes "good_segs ss" "good_segs ts" "ss \<noteq> []" "ts \<noteq> []"
  shows "Join [join_with slash ss, join_with slash ts] = join_with slash (ss @ ts)"
proof -
  have "join_with slash ss \<noteq> []" using assms(1,3) by (cases ss; cases "tl ss") (auto simp: good_seg_def)
  then show ?thesis using assms Clean_rel(1) [of "ss @ ts"] by (simp add: Join_def join_with_append)
qed

lemma Dir_rel:
  assumes "good_segs (ss @ [s])" "ss \<noteq> []"
  shows "Dir (join_with slash (ss @ [s])) = join_with slash ss"
proof -
  have good: "good_segs ss" and "slash \<notin> set s" using assms by (simp_all add: good_seg_def)
  have join: "join_with slash (ss @ [s]) = join_with slash ss @ slash # s" using assms(2) by (simp add: join_with_append)
  show ?thesis unfolding Dir_def join dropWhile_to_slash [OF \<open>slash \<notin> set s\<close>] by (rule Clean_rel(2) [OF good assms(2)])
qed

definition skills_root :: "string list" where
  "skills_root = [''.claude'', ''skills'']"

definition skills_path :: "string \<Rightarrow> bool" where
  "skills_path p \<longleftrightarrow> (\<exists>rest. good_segs rest \<and> p = join_with slash (skills_root @ rest))"

definition skills_call :: "string \<Rightarrow> call \<Rightarrow> bool" where
  "skills_call account c \<longleftrightarrow> (\<forall>p \<in> set (touched c). confined (Join [account, ''.claude/skills'']) p)"

lemma good_skills [simp]: "good_segs skills_root" "skills_root \<noteq> []"
  by (simp_all add: good_seg_def skills_root_def)

lemma skills_path_confined:
  assumes "isAbs account" "skills_path p"
  shows "confined (Join [account, ''.claude/skills'']) (Join [account, p])"
proof -
  obtain rest where rest: "good_segs rest" "p = join_with slash (skills_root @ rest)"
    using assms(2) unfolding skills_path_def by blast
  have join: "Join [account, join_with slash ss] = Join (account # ss)" if "ss \<noteq> []" for ss
    using assms(1) that by (simp add: Join_abs(3))
  have root: "Join [account, ''.claude/skills''] = Join (account # skills_root)"
    using join [of skills_root] by (simp add: skills_root_def)
  have "segments (Join (account # ss @ ts)) = segments (Join (account # ss)) @ ts"
    if "good_segs ss" "good_segs ts" "ss \<noteq> []" for ss ts
    using Join_segments [OF assms(1)] that by simp
  from this [OF good_skills(1) rest(1) good_skills(2)]
  have "segments (Join [account, p]) = segments (Join [account, ''.claude/skills'']) @ rest"
    unfolding root rest(2) using join [of "skills_root @ rest"] by simp
  moreover have "isAbs (Join [account, p])" "Clean (Join [account, p]) = Join [account, p]"
    using Join_abs(1,2) [OF assms(1)] by simp_all
  ultimately show ?thesis using rest(1) by (auto simp: confined_def)
qed

lemma skills_path_Dir:
  assumes "good_segs (rest @ [s])"
  shows "skills_path (join_with slash (skills_root @ rest @ [s]))" "skills_path (Dir (join_with slash (skills_root @ rest @ [s])))"
proof -
  have "Dir (join_with slash ((skills_root @ rest) @ [s])) = join_with slash (skills_root @ rest)"
    using assms by (intro Dir_rel) simp_all
  then show "skills_path (join_with slash (skills_root @ rest @ [s]))" "skills_path (Dir (join_with slash (skills_root @ rest @ [s])))"
    using assms unfolding skills_path_def by (auto intro: exI [of _ "rest @ [s]"])
qed

lemma emits_chown [emit_rules]:
  "isAbs account \<Longrightarrow> skills_path p \<Longrightarrow> emits (skills_call account) (chown_to (Join [account, p]) ow)"
  by (cases ow) (auto simp: chown_to_def skills_call_def skills_path_confined intro!: emit_rules)

lemma skills_call_simps:
  assumes "isAbs account" "skills_path p"
  shows "skills_call account (MkdirAll (Join [account, p]))" "skills_call account (CreateExclusive (Join [account, p]))"
    "skills_call account (WriteTo (Join [account, p]) bs)" "skills_call account (FileChmod (Join [account, p]) m)"
    "skills_call account (Remove (Join [account, p]))"
    "skills_path q \<Longrightarrow> skills_call account (Rename (Join [account, q]) (Join [account, p]))"
  using skills_path_confined [OF assms(1)] assms(2) by (simp_all add: skills_call_def)

lemma skills_call_reads [simp]:
  "skills_call account (OpenDir p)" "skills_call account (Openat p)" "skills_call account (Stat p)"
  "skills_call account (Lstat p)" "skills_call account (ReadFile p)" "skills_call account (RandomBytes n)"
  "skills_call account (FileSync p)" "skills_call account (FileClose p)"
  by (simp_all add: skills_call_def)

lemma emits_ensureDirectory:
  "isAbs account \<Longrightarrow> skills_path p \<Longrightarrow> emits (skills_call account) (ensureDirectory account p ow)"
  by (auto simp: ensureDirectory_def Let_def skills_call_simps intro!: emit_rules split: answer.splits)

lemma emits_metadata:
  "isAbs account \<Longrightarrow> skills_path p \<Longrightarrow> emits (skills_call account) (applyFileMetadata account p ow)"
  by (auto simp: applyFileMetadata_def Let_def skills_call_simps intro!: emit_rules split: answer.splits)

lemma hex_no_slash: "slash \<notin> set (hex_encode s)"
proof -
  have "hex_digit n \<noteq> slash" if "n < 16" for n
    using that by (auto simp: hex_digit_def char_of_eq_iff take_bit_nat_eq_self)
  moreover have "of_char x div 16 < (16 :: nat)" "of_char x mod 16 < (16 :: nat)" for x :: char
    using less_mult_imp_div_less [of "of_char x :: nat" 16 16] by simp_all
  ultimately have "slash \<notin> set [hex_digit (of_char x div 16), hex_digit (of_char x mod 16)]" for x :: char
    by (metis empty_iff list.set(1) set_ConsD)
  then show ?thesis unfolding hex_encode_def by auto
qed

lemma temporary_path:
  assumes "skills_path directory"
  shows "skills_path (Join [directory, temporary_name s])"
proof -
  obtain rest where rest: "good_segs rest" "directory = join_with slash (skills_root @ rest)"
    using assms unfolding skills_path_def by blast
  have name: "good_segs [temporary_name s]" using hex_no_slash by (simp add: good_seg_def temporary_name_def)
  have "Join [directory, join_with slash [temporary_name s]] = join_with slash ((skills_root @ rest) @ [temporary_name s])"
    unfolding rest(2) using rest(1) good_skills by (intro Join_rel name) simp_all
  then show ?thesis using rest(1) name unfolding skills_path_def by (intro exI [of _ "rest @ [temporary_name s]"]) simp
qed

lemma createTemporaryFile_ok:
  assumes "isAbs account" "skills_path directory"
  shows "emits (skills_call account) (createTemporaryFile n account directory)"
    and "returns skills_path (createTemporaryFile n account directory)"
proof (induction n)
  case 0
  {
    case 1
    then show ?case by (auto intro: emit_rules)
  next
    case 2
    then show ?case by (auto simp: returns_def refuse_def fail_p_def)
  }
next
  case (Suc n)
  note path = temporary_path [OF assms(2)]
  {
    case 1
    show ?case using Suc(1)
      by (auto simp: Let_def path skills_call_simps [OF assms(1)] intro!: emit_rules split: answer.splits)
  next
    case 2
    show ?case using Suc(2) path
      by (auto simp: returns_def then_p_def ask_def return_p_def fail_p_def Let_def split: answer.splits if_splits)
  }
qed

lemma emits_write:
  assumes "isAbs account" "skills_path p" "skills_path (Dir p)"
  shows "emits (skills_call account) (writeFileAtomic account p content ow)"
  unfolding writeFileAtomic_def Let_def
  by (rule emits_then_returns [OF createTemporaryFile_ok [OF assms(1,3)]])
     (auto simp: skills_call_simps [OF assms(1)] assms intro!: emit_rules)

lemma emits_install:
  assumes "isAbs account" "skills_path (gf_path f)" "skills_path (Dir (gf_path f))"
  shows "emits (skills_call account) (installManagedFile account f ow)"
  using assms by (auto simp: installManagedFile_def Let_def emits_write emits_metadata intro!: emit_rules split: answer.splits)

definition skills_file :: "string \<Rightarrow> bool" where
  "skills_file p \<longleftrightarrow> (\<exists>rest s. good_segs (rest @ [s]) \<and> p = join_with slash (skills_root @ rest @ [s]))"

lemma skills_fileD: "skills_file p \<Longrightarrow> skills_path p" "skills_file p \<Longrightarrow> skills_path (Dir p)"
  unfolding skills_file_def using skills_path_Dir by blast+

lemma skills_file_intro:
  assumes "good_segs segs" "segs \<noteq> []"
  shows "skills_file (join_with slash (skills_root @ segs))"
  unfolding skills_file_def using assms by (intro exI [of _ "butlast segs"] exI [of _ "last segs"]) simp

lemma skill_constants:
  "skills_file deviceSkillDirectory" "skills_file deviceSkillReferencesDirectory" "skills_file egoBrowserSkillDirectory"
  "skills_file deviceSkillPath" "skills_file deviceBrowserReferencePath" "skills_path ''.claude/skills''"
proof -
  have eqs: "deviceSkillDirectory = join_with slash (skills_root @ [''agent-remote-device''])"
    "deviceSkillReferencesDirectory = join_with slash (skills_root @ [''agent-remote-device'', ''references''])"
    "egoBrowserSkillDirectory = join_with slash (skills_root @ [''ego-browser''])"
    "deviceSkillPath = join_with slash (skills_root @ [''agent-remote-device'', ''SKILL.md''])"
    "deviceBrowserReferencePath = join_with slash (skills_root @ [''agent-remote-device'', ''references'', ''browser.md''])"
    "''.claude/skills'' = join_with slash (skills_root @ [])"
    by (simp_all add: skills_root_def deviceSkillDirectory_def deviceSkillReferencesDirectory_def
        egoBrowserSkillDirectory_def deviceSkillPath_def deviceBrowserReferencePath_def)
  show "skills_file deviceSkillDirectory" unfolding eqs(1) by (rule skills_file_intro) (simp_all add: good_seg_def)
  show "skills_file deviceSkillReferencesDirectory" unfolding eqs(2) by (rule skills_file_intro) (simp_all add: good_seg_def)
  show "skills_file egoBrowserSkillDirectory" unfolding eqs(3) by (rule skills_file_intro) (simp_all add: good_seg_def)
  show "skills_file deviceSkillPath" unfolding eqs(4) by (rule skills_file_intro) (simp_all add: good_seg_def)
  show "skills_file deviceBrowserReferencePath" unfolding eqs(5) by (rule skills_file_intro) (simp_all add: good_seg_def)
  show "skills_path ''.claude/skills''" unfolding eqs(6) skills_path_def by (intro exI [of _ "[]"]) simp
qed

lemma collected_skills: "collect_files fs = Inr (files, d) \<Longrightarrow> f \<in> set files \<Longrightarrow> skills_file (gf_path f)"
proof (induction fs arbitrary: files d)
  case (Cons e fs)
  then obtain relative files' d' where rest: "collect_files fs = Inr (files', d')"
    and rel: "relative \<noteq> []" "fs_ValidPath relative"
    and files: "files = \<lparr>gf_path = Join [egoBrowserSkillDirectory, relative], gf_content = em_content e\<rparr> # files'"
    by (auto split: if_splits option.splits sum.splits)
  have "skills_file (Join [egoBrowserSkillDirectory, relative])"
  proof (cases "relative = ''.''")
    case True
    then have "Join [egoBrowserSkillDirectory, relative] = egoBrowserSkillDirectory"
      by (simp add: egoBrowserSkillDirectory_def Join_def Clean_def segments_def render_def)
    then show ?thesis using skill_constants(3) by simp
  next
    case False
    then have good: "good_segs (split_on slash relative)"
      using rel(2) by (auto simp: fs_ValidPath_def list_all_iff good_segs_def good_seg_def dest: split_on_no_sep)
    have ego: "egoBrowserSkillDirectory = join_with slash (skills_root @ [''ego-browser''])"
      by (simp add: egoBrowserSkillDirectory_def skills_root_def)
    have "Join [egoBrowserSkillDirectory, join_with slash (split_on slash relative)] =
        join_with slash ((skills_root @ [''ego-browser'']) @ split_on slash relative)"
      unfolding ego by (rule Join_rel) (use good in \<open>simp_all add: good_seg_def\<close>)
    then show ?thesis using skills_file_intro [of "''ego-browser'' # split_on slash relative"] good by (simp add: good_seg_def)
  qed
  then show ?case using Cons.IH [OF rest] Cons.prems(2) files by auto
qed simp

lemma emits_InstallClaude:
  assumes "isAbs account"
  shows "emits (skills_call account) (InstallClaude mc account ow)"
proof (cases "verifiedEgoBrowserSkillFiles (mc_sha mc) (mc_embedded mc)")
  case (Inl e)
  then show ?thesis by (simp add: InstallClaude_def emits_fail)
next
  case (Inr files)
  have "skills_file (gf_path f)" if "f \<in> set files" for f
    using Inr that by (auto simp: verifiedEgoBrowserSkillFiles_def intro: collected_skills split: sum.splits list.splits if_splits)
  note in_skills = skills_fileD [OF this]
  have "emits (skills_call account) (each_p (\<lambda>path. ensureDirectory account path ow)
      [''.claude/skills'', deviceSkillDirectory, deviceSkillReferencesDirectory, egoBrowserSkillDirectory])"
    by (rule emits_each) (use skill_constants skills_fileD(1) in \<open>auto intro!: emits_ensureDirectory assms\<close>)
  moreover have "emits (skills_call account) (each_p (\<lambda>file. installManagedFile account file ow)
      [\<lparr>gf_path = deviceSkillPath, gf_content = mc_deviceSkill mc\<rparr>,
       \<lparr>gf_path = deviceBrowserReferencePath, gf_content = mc_deviceBrowserReference mc\<rparr>])"
    by (rule emits_each) (use skill_constants skills_fileD in \<open>auto intro!: emits_install assms\<close>)
  moreover have "emits (skills_call account) (each_p (\<lambda>file. before_p (ensureDirectory account (Dir (gf_path file)) ow)
      (installManagedFile account file ow)) files)"
    by (rule emits_each) (intro emits_before emits_ensureDirectory emits_install assms in_skills)
  ultimately show ?thesis using Inr by (simp add: InstallClaude_def emits_before emits_must)
qed

end
