(* ===== verification/Tool_Sessions.thy ===== *)
theory Tool_Sessions
  imports Managed_Skills Worker_Tasks
begin

section \<open>Docker tool sessions\<close>

text \<open>
  \<open>toolsessions/toolsessions.go\<close>, with the attachment directory of
  \<open>claudeattachments/directory_unix.go\<close> and \<open>attachments.go\<close>: decoding the payload of a session,
  preparing its directories and files, the arguments of the sandbox and of the command inside it,
  and stopping it. Everything that touches the host is a program over the calls of
  \<open>Effects\<close>. The decoder's view of a payload, the process environment, the clock's rendering, the
  JSON encoder and the order in which Go iterates over a two-element map are arguments.
\<close>

subsection \<open>Payloads\<close>

record RuntimeTemplate =
  tm_SandboxAgent :: string
  tm_Command :: "string list"
  tm_Verifier :: string

record DeveloperCredentials =
  dc_ProfileID :: string
  dc_GitIdentity :: "(string \<times> json_value) list"
  dc_GHMode :: string
  dc_SSHMode :: string

record CreatePayload =
  cp_SessionID :: string
  cp_ToolAccountID :: string
  cp_ToolType :: string
  cp_UserID :: string
  cp_WorkspaceID :: string
  cp_ProjectKey :: string
  cp_WorkspaceRemotePath :: string
  cp_AccountRemotePath :: string
  cp_DeveloperCredentialProfilePath :: string
  cp_DeveloperCredentials :: "DeveloperCredentials option"
  cp_SyncGit :: bool
  cp_TmuxSessionName :: string
  cp_SandboxName :: string
  cp_Timezone :: string
  cp_Locale :: string
  cp_Argv :: "string list"
  cp_Template :: RuntimeTemplate
  cp_RuntimeBackend :: string
  cp_DeviceControl :: "int option"

record CreateResult =
  cr_Status :: string
  cr_SessionID :: string
  cr_ToolAccountID :: string
  cr_ToolType :: string
  cr_WorkspaceRemotePath :: string
  cr_AccountRemotePath :: string
  cr_TmuxSessionName :: string
  cr_SandboxName :: string
  cr_MarkerPath :: string
  cr_TmuxStarted :: bool

record SandboxRuntime =
  sr_StartTerminal :: bool
  sr_UID :: int
  sr_GID :: int
  sr_SetfaclPath :: string
  sr_Mounts :: "string list"
  sr_Environment :: "string list"
  sr_ManagedArguments :: "string list"

record StopPayload =
  sp_TerminalStopped :: bool
  sp_SessionID :: string
  sp_TmuxSessionName :: string
  sp_SandboxName :: string

record StopResult =
  st_Status :: string
  st_SessionID :: string
  st_TmuxSessionName :: string
  st_SandboxName :: string
  st_TmuxStopped :: bool
  st_SandboxRemoved :: bool

definition DecodeCreatePayload :: "(string \<times> json_value) list \<Rightarrow> string + CreatePayload \<Rightarrow> string + CreatePayload" where
  "DecodeCreatePayload payload unmarshalled =
     (if RequireLegacySkillStartup payload \<noteq> None then Inl ''managed skill session preparation is unavailable''
      else (case unmarshalled of
          Inl e \<Rightarrow> Inl e
        | Inr decoded0 \<Rightarrow>
            if cp_SessionID decoded0 = [] then Inl ''session_id is required''
            else if cp_ToolAccountID decoded0 = [] then Inl ''tool_account_id is required''
            else if cp_ToolType decoded0 = [] then Inl ''tool_type is required''
            else if cp_UserID decoded0 = [] then Inl ''user_id is required''
            else if cp_WorkspaceID decoded0 = [] then Inl ''workspace_id is required''
            else if cp_TmuxSessionName decoded0 = [] then Inl ''tmux_session_name is required''
            else if cp_SandboxName decoded0 = [] then Inl ''sandbox_name is required''
            else (let decoded = (if cp_RuntimeBackend decoded0 = [] then decoded0\<lparr>cp_RuntimeBackend := ''docker_sandbox''\<rparr> else decoded0) in
              if cp_DeviceControl decoded \<noteq> None \<and>
                 (cp_ToolType decoded \<noteq> ''claude''
                  \<or> cp_RuntimeBackend decoded \<noteq> ''native'' \<and> cp_RuntimeBackend decoded \<noteq> ''docker_sandbox'')
              then Inl ''device control requires a supported Claude session''
              else if cp_DeviceControl decoded \<noteq> None \<and> cp_DeviceControl decoded \<noteq> Some 1
              then Inl ''device-control protocol version is unsupported''
              else Inr (if map_of payload ''sync_git'' = None then decoded\<lparr>cp_SyncGit := True\<rparr> else decoded))))"

subsection \<open>Commands\<close>

definition sessionCommand :: "CreatePayload \<Rightarrow> string list \<Rightarrow> string list" where
  "sessionCommand payload managedArguments =
     (let command = (if tm_Command (cp_Template payload) \<noteq> [] then tm_Command (cp_Template payload)
                     else if cp_Argv payload \<noteq> [] then cp_ToolType payload # cp_Argv payload
                     else [cp_ToolType payload]) in
      if managedArguments = [] \<or> command = [] then command
      else hd command # managedArguments @ tl command)"

definition sandboxAgent :: "CreatePayload \<Rightarrow> string" where
  "sandboxAgent payload =
     (if tm_SandboxAgent (cp_Template payload) \<noteq> [] then tm_SandboxAgent (cp_Template payload) else cp_ToolType payload)"

fun add_mounts :: "string list \<Rightarrow> string list \<Rightarrow> string list" where
  "add_mounts args [] = args"
| "add_mounts args (mount # mounts) =
     add_mounts (if mount \<noteq> [] \<and> mount \<notin> set args then args @ [mount] else args) mounts"

definition sandboxCreateArgs :: "string \<Rightarrow> string \<Rightarrow> string \<Rightarrow> CreatePayload \<Rightarrow> SandboxRuntime \<Rightarrow> string list" where
  "sandboxCreateArgs workspacePath accountPath developerProfilePath payload runtime =
     add_mounts
       ([''sandbox'', ''create'', ''--name'', cp_SandboxName payload, sandboxAgent payload, workspacePath, accountPath]
        @ (if developerProfilePath \<noteq> [] then [developerProfilePath] else []))
       (sr_Mounts runtime)"

definition validEnvironmentKey :: "string \<Rightarrow> bool" where
  "validEnvironmentKey value =
     (value \<noteq> [] \<and> list_all (\<lambda>c. c = CHR ''_'' \<or> cont 65 90 c \<or> cont 48 57 c) value)"

text \<open>\<open>strings.Cut\<close> at the first equals sign.\<close>

definition env_key :: "string \<Rightarrow> string" where
  "env_key entry = takeWhile (\<lambda>c. c \<noteq> CHR ''='') entry"

definition clearManagedEnvironment :: "string list \<Rightarrow> string list" where
  "clearManagedEnvironment environ =
     filter (\<lambda>entry. \<not> has_prefix ''EGO_BROWSER_'' (env_key entry) \<and> \<not> has_prefix ''AGENT_REMOTE_DEVICE_'' (env_key entry)) environ"

definition attachment_directory :: "string \<Rightarrow> string \<Rightarrow> string" where
  "attachment_directory accountPath sessionID = Join [accountPath, ''.agent-remote-attachments'', sessionID]"

definition Arguments :: "string list \<Rightarrow> string \<Rightarrow> string list" where
  "Arguments argv directory =
     takeWhile (\<lambda>a. a \<noteq> ''--'') argv @ [''--add-dir='' @ directory] @ dropWhile (\<lambda>a. a \<noteq> ''--'') argv"

definition sandboxExecCommand :: "string \<Rightarrow> string \<Rightarrow> string \<Rightarrow> string \<Rightarrow> CreatePayload \<Rightarrow> SandboxRuntime \<Rightarrow> string list" where
  "sandboxExecCommand dockerBinary workspacePath accountPath developerProfilePath payload runtime =
     (let command = sessionCommand payload (sr_ManagedArguments runtime) in
      [dockerBinary, ''sandbox'', ''exec'', ''-it'', ''-e'', ''CLAUDE_CONFIG_DIR='' @ Join [accountPath, ''.claude''],
       ''-e'', ''TZ='' @ cp_Timezone payload, ''-e'', ''LANG='' @ cp_Locale payload, ''-e'', ''LC_ALL='' @ cp_Locale payload]
      @ (if sr_UID runtime > 0 \<and> sr_GID runtime > 0
         then [''-u'', format_int (sr_UID runtime) @ '':'' @ format_int (sr_GID runtime)] else [])
      @ concat (map (\<lambda>entry. if CHR ''='' \<in> set entry \<and> validEnvironmentKey (env_key entry) then [''-e'', env_key entry] else [])
                  (sr_Environment runtime))
      @ (if developerProfilePath \<noteq> []
         then [''-e'', ''GH_CONFIG_DIR='' @ Join [developerProfilePath, ''gh''],
               ''-e'', ''GIT_CONFIG_GLOBAL='' @ Join [developerProfilePath, ''home'', ''.gitconfig''],
               ''-e'', ''AGENT_REMOTE_DEVELOPER_CREDENTIAL_PROFILE_PATH='' @ developerProfilePath]
         else [])
      @ [''-w'', workspacePath, cp_SandboxName payload]
      @ (if cp_ToolType payload = ''claude'' \<and> command \<noteq> []
         then hd command # Arguments (tl command) (attachment_directory accountPath (cp_SessionID payload))
         else command))"

subsection \<open>Owned files and directories\<close>

definition applyOwnership :: "string \<Rightarrow> SandboxRuntime \<Rightarrow> unit prog" where
  "applyOwnership path rt = when_p (sr_UID rt > 0 \<and> sr_GID rt > 0) (must (Lchown path (sr_UID rt) (sr_GID rt)))"

definition ensureOwnedDirectory :: "string \<Rightarrow> SandboxRuntime \<Rightarrow> unit prog" where
  "ensureOwnedDirectory path rt =
     before_p (must (MkdirAll path))
    (then_p (ask (Lstat path)) (\<lambda>info. case info of
       Node kind \<Rightarrow> if kind \<noteq> Directory then refuse ''managed session directory is not a directory'' else applyOwnership path rt
     | _ \<Rightarrow> fail_p (HostError (Lstat path) info)))"

definition writeOwnedFile :: "string \<Rightarrow> bytes \<Rightarrow> u32 \<Rightarrow> SandboxRuntime \<Rightarrow> unit prog" where
  "writeOwnedFile path data mode rt =
     (let write = before_p (must (WriteFile path data mode)) (before_p (must (Chmod path mode)) (applyOwnership path rt)) in
      then_p (ask (Lstat path)) (\<lambda>info. case info of
        Node kind \<Rightarrow> if kind \<noteq> RegularFile then refuse ''managed session file is not a regular file'' else write
      | Absent \<Rightarrow> write
      | _ \<Rightarrow> fail_p (HostError (Lstat path) info)))"

definition ensureFile :: "string \<Rightarrow> bytes \<Rightarrow> SandboxRuntime \<Rightarrow> unit prog" where
  "ensureFile path defaultContent rt =
     then_p (ask (Lstat path)) (\<lambda>info. case info of
       Node kind \<Rightarrow> if kind \<noteq> RegularFile then refuse ''managed session file is not a regular file'' else applyOwnership path rt
     | Absent \<Rightarrow> writeOwnedFile path defaultContent 384 rt
     | _ \<Rightarrow> fail_p (HostError (Lstat path) info))"

definition prepareSandboxDirectory :: "string \<Rightarrow> string \<Rightarrow> SandboxRuntime \<Rightarrow> unit prog" where
  "prepareSandboxDirectory root path rt =
     (if \<not> isPathInside root path then refuse ''sandbox directory is outside its managed root''
      else before_p (ensureOwnedDirectory path rt)
        (if sr_SetfaclPath rt = [] \<or> sr_UID rt \<le> 0 then return_p ()
         else (let uid = format_int (sr_UID rt) in
           case managedParentDirectories root path of
             None \<Rightarrow> refuse ''unfinished walk''
           | Some parents \<Rightarrow>
               before_p (each_p (\<lambda>parent. must (SetFacl (sr_SetfaclPath rt) [''-m'', ''u:'' @ uid @ '':--x''] parent)) parents)
              (before_p (must (SetFacl (sr_SetfaclPath rt) [''-R'', ''-m'', ''u:'' @ uid @ '':rwX''] path))
                        (must (SetFacl (sr_SetfaclPath rt) [''-m'', ''d:u:'' @ uid @ '':rwX''] path))))))"

definition identity_text :: "(string \<times> json_value) list \<Rightarrow> string \<Rightarrow> string" where
  "identity_text identity key = (case map_of identity key of Some (JString s) \<Rightarrow> s | _ \<Rightarrow> [])"

definition gitConfig :: "(string \<times> json_value) list \<Rightarrow> string" where
  "gitConfig identity =
     (let name = identity_text identity ''user_name''; email = identity_text identity ''user_email'' in
      if name = [] \<and> email = [] then []
      else join_with (CHR 0x0A)
             ([''[user]''] @ (if name \<noteq> [] then [CHR 0x09 # ''name = '' @ name] else [])
              @ (if email \<noteq> [] then [CHR 0x09 # ''email = '' @ email] else [])) @ [CHR 0x0A])"

definition prepareDeveloperCredentialProfile :: "string \<Rightarrow> DeveloperCredentials option \<Rightarrow> SandboxRuntime \<Rightarrow> unit prog" where
  "prepareDeveloperCredentialProfile path credentials rt =
     (case credentials of
        None \<Rightarrow> return_p ()
      | Some c \<Rightarrow>
          before_p (each_p (\<lambda>dir. ensureOwnedDirectory dir rt)
                     [path, Join [path, ''home''], Join [path, ''gh''], Join [path, ''.ssh'']])
            (when_p (gitConfig (dc_GitIdentity c) \<noteq> [])
              (writeOwnedFile (Join [path, ''home'', ''.gitconfig'']) (gitConfig (dc_GitIdentity c)) 384 rt)))"

fun make_parts :: "string \<Rightarrow> string list \<Rightarrow> int \<Rightarrow> int \<Rightarrow> unit prog" where
  "make_parts current [] uid gid = return_p ()"
| "make_parts current (part # parts) uid gid =
     (let path = Join [current, part] in
      then_p (ask (Mkdirat path 504)) (\<lambda>made.
        if made \<noteq> Done \<and> made \<noteq> Present then fail_p (HostError (Mkdirat path 504) made)
        else before_p (must (Openat path))
            (before_p (when_p (made = Done \<and> uid > 0 \<and> gid > 0) (must (FileChown path uid gid)))
                      (make_parts path parts uid gid))))"

definition prepare_attachments :: "string \<Rightarrow> string \<Rightarrow> int \<Rightarrow> int \<Rightarrow> unit prog" where
  "prepare_attachments accountPath sessionID uid gid =
     (if \<not> managedID sessionID then refuse ''invalid attachment session identity''
      else before_p (must (OpenDir accountPath)) (make_parts accountPath [''.agent-remote-attachments'', sessionID] uid gid))"

definition sandboxOwnership :: "SandboxRuntime \<Rightarrow> Ownership option" where
  "sandboxOwnership rt = (if sr_UID rt \<le> 0 \<or> sr_GID rt \<le> 0 then None else Some \<lparr>ow_UID = sr_UID rt, ow_GID = sr_GID rt\<rparr>)"

subsection \<open>The Git metadata of a workspace\<close>

definition Ext :: "string \<Rightarrow> string" where
  "Ext path =
     (let tail = takeWhile (\<lambda>c. c \<noteq> CHR ''.'' \<and> c \<noteq> slash) (rev path) in
      case drop (length tail) (rev path) of [] \<Rightarrow> [] | c # _ \<Rightarrow> if c = CHR ''.'' then c # rev tail else [])"

text \<open>
  The visit of \<open>filepath.WalkDir\<close>: nothing below the directories \<open>hooks\<close> and \<open>worktrees\<close> is
  visited. An entry is a path and whether it is a directory.
\<close>

definition lock_files :: "string \<Rightarrow> (string \<times> bool) list \<Rightarrow> string list" where
  "lock_files gitPath listed =
     (let skipped = filter (\<lambda>dir. (dir, True) \<in> set listed) [Join [gitPath, ''hooks''], Join [gitPath, ''worktrees'']];
          visited = filter (\<lambda>(path, isDir). \<not> list_ex (\<lambda>dir. has_prefix (dir @ [slash]) path) skipped) listed in
      map fst (filter (\<lambda>(path, isDir). \<not> isDir \<and> Ext path = ''.lock'' \<and> path \<noteq> Join [gitPath, ''objects'', ''maintenance.lock'']) visited))"

definition git_credential :: "bool \<Rightarrow> SandboxRuntime \<Rightarrow> (int \<times> int) option" where
  "git_credential linuxRoot rt =
     (if linuxRoot \<and> sr_UID rt > 0 \<and> sr_GID rt > 0 then Some (sr_UID rt mod 2 ^ 32, sr_GID rt mod 2 ^ 32) else None)"

definition runGit :: "bool \<Rightarrow> SandboxRuntime \<Rightarrow> string \<Rightarrow> string list \<Rightarrow> call" where
  "runGit linuxRoot rt workspacePath args =
     GitCommand (git_credential linuxRoot rt) ([''-c'', ''core.fsmonitor=false'', ''-C'', workspacePath] @ args)"

definition ensureIndependentGitIndex :: "bool \<Rightarrow> string \<Rightarrow> SandboxRuntime \<Rightarrow> unit prog" where
  "ensureIndependentGitIndex linuxRoot workspacePath rt =
     (let indexPath = Join [workspacePath, ''.git'', ''index''] in
      then_p (ask (Stat indexPath)) (\<lambda>info. case info of
        Node _ \<Rightarrow> return_p ()
      | Absent \<Rightarrow>
          then_p (ask (runGit linuxRoot rt workspacePath [''rev-parse'', ''--verify'', ''--quiet'', ''HEAD^{tree}''])) (\<lambda>verified.
            if verified = Done then must (runGit linuxRoot rt workspacePath [''read-tree'', ''--reset'', ''HEAD''])
            else must (runGit linuxRoot rt workspacePath [''read-tree'', ''--empty'']))
      | _ \<Rightarrow> fail_p (HostError (Stat indexPath) info)))"

definition ensureGitReady :: "bool \<Rightarrow> string \<Rightarrow> SandboxRuntime \<Rightarrow> unit prog" where
  "ensureGitReady linuxRoot workspacePath rt =
     (let gitPath = Join [workspacePath, ''.git''] in
      then_p (ask (Stat gitPath)) (\<lambda>info.
        if info \<noteq> Node Directory then return_p ()
        else then_p (ask (WalkDir gitPath)) (\<lambda>walked. case walked of
          Visited listed \<Rightarrow>
            if lock_files gitPath listed \<noteq> [] then refuse ''workspace Git metadata has active lock files''
            else ensureIndependentGitIndex linuxRoot workspacePath rt
        | _ \<Rightarrow> fail_p (HostError (WalkDir gitPath) walked))))"

subsection \<open>Starting and stopping\<close>

record prepare_env =
  pe_linuxRoot :: bool
  pe_environ :: "string list"
  pe_preparedAt :: string
  pe_indent :: "(string \<times> json_value) list \<Rightarrow> bytes"
  pe_reversed :: bool
  pe_skills :: managed_content

definition ensureSandbox :: "string \<Rightarrow> string \<Rightarrow> string \<Rightarrow> string \<Rightarrow> CreatePayload \<Rightarrow> SandboxRuntime \<Rightarrow> unit prog" where
  "ensureSandbox dockerBinary workspacePath accountPath developerProfilePath payload rt =
     (let create = Command (dockerBinary # sandboxCreateArgs workspacePath accountPath developerProfilePath payload rt) in
      before_p (must (LookPath dockerBinary))
     (then_p (ask create) (\<lambda>answer. case answer of
        Done \<Rightarrow> return_p ()
      | ErrorWith output \<Rightarrow>
          if contains_str output ''already exists'' \<or> contains_str output ''already in use'' then return_p ()
          else fail_p (HostError create answer)
      | _ \<Rightarrow> fail_p (HostError create answer))))"

definition terminal_environment :: "string list \<Rightarrow> string \<Rightarrow> string \<Rightarrow> string \<Rightarrow> CreatePayload \<Rightarrow> SandboxRuntime \<Rightarrow> string list" where
  "terminal_environment environ workspacePath accountPath developerProfilePath payload rt =
     clearManagedEnvironment environ
     @ [''AGENT_REMOTE_WORKSPACE_PATH='' @ workspacePath, ''AGENT_REMOTE_ACCOUNT_PATH='' @ accountPath,
        ''AGENT_REMOTE_DEVELOPER_CREDENTIAL_PROFILE_PATH='' @ developerProfilePath,
        ''AGENT_REMOTE_TOOL_TYPE='' @ cp_ToolType payload, ''TZ='' @ cp_Timezone payload,
        ''LANG='' @ cp_Locale payload, ''LC_ALL='' @ cp_Locale payload]
     @ sr_Environment rt"

definition startTmuxSession ::
  "prepare_env \<Rightarrow> string \<Rightarrow> string \<Rightarrow> string \<Rightarrow> string \<Rightarrow> string \<Rightarrow> CreatePayload \<Rightarrow> SandboxRuntime \<Rightarrow> bool prog" where
  "startTmuxSession env dockerBinary tmuxBinary workspacePath accountPath developerProfilePath payload rt =
     (if tmuxBinary = [] \<or> cp_TmuxSessionName payload = [] then return_p False
      else then_p (ask (LookPath tmuxBinary)) (\<lambda>found.
        if found \<noteq> Done then return_p False
        else before_p (ensureSandbox dockerBinary workspacePath accountPath developerProfilePath payload rt)
          (if \<not> sr_StartTerminal rt then refuse ''managed nonprivileged terminal launcher is required''
           else before_p
             (must (StartTerminal (cp_SandboxName payload)
                (sandboxExecCommand dockerBinary workspacePath accountPath developerProfilePath payload rt)
                (terminal_environment (pe_environ env) workspacePath accountPath developerProfilePath payload rt)))
             (return_p True))))"

definition isTmuxMissingSession :: "answer \<Rightarrow> bool" where
  "isTmuxMissingSession err = (err \<noteq> Done)"

text \<open>
  \<open>strings.ToLower\<close> on the ASCII letters: no other letter is lowered to one of the letters the two
  patterns consist of.
\<close>

definition isSandboxMissing :: "string \<Rightarrow> bool" where
  "isSandboxMissing output =
     (let lower = map (\<lambda>c. if cont 65 90 c then char_of (of_char c + 32 :: nat) else c) output in
      contains_str lower ''not found'' \<or> contains_str lower ''no such'')"

definition kill_tmux :: "string \<Rightarrow> StopPayload \<Rightarrow> bool prog" where
  "kill_tmux tmuxBinary payload =
     (if sp_TerminalStopped payload \<or> sp_TmuxSessionName payload = [] then return_p (sp_TerminalStopped payload)
      else then_p (ask (LookPath tmuxBinary)) (\<lambda>found.
        if found \<noteq> Done then return_p False
        else (let kill = Command [tmuxBinary, ''kill-session'', ''-t'', sp_TmuxSessionName payload] in
              then_p (ask kill) (\<lambda>answer.
                if answer = Done \<or> isTmuxMissingSession answer then return_p True else fail_p (HostError kill answer)))))"

definition remove_sandbox :: "string \<Rightarrow> StopPayload \<Rightarrow> bool prog" where
  "remove_sandbox dockerBinary payload =
     (if sp_SandboxName payload = [] then return_p False
      else then_p (ask (LookPath dockerBinary)) (\<lambda>found.
        if found \<noteq> Done then return_p False
        else (let rm = Command [dockerBinary, ''sandbox'', ''rm'', sp_SandboxName payload] in
              then_p (ask rm) (\<lambda>answer.
                if answer = Done \<or> (case answer of ErrorWith output \<Rightarrow> isSandboxMissing output | _ \<Rightarrow> False)
                then return_p True else fail_p (HostError rm answer)))))"

definition Stop_session :: "string \<Rightarrow> string \<Rightarrow> StopPayload \<Rightarrow> StopResult prog" where
  "Stop_session dockerBinary tmuxBinary payload =
     then_p (kill_tmux tmuxBinary payload) (\<lambda>tmuxStopped.
     then_p (remove_sandbox dockerBinary payload) (\<lambda>sandboxRemoved.
       return_p \<lparr>st_Status = ''stopped'', st_SessionID = sp_SessionID payload, st_TmuxSessionName = sp_TmuxSessionName payload,
                 st_SandboxName = sp_SandboxName payload, st_TmuxStopped = tmuxStopped, st_SandboxRemoved = sandboxRemoved\<rparr>))"

subsection \<open>Preparing a session\<close>

definition lift_path :: "path_error + string \<Rightarrow> string prog" where
  "lift_path r = (case r of Inl _ \<Rightarrow> refuse ''path is outside root'' | Inr p \<Rightarrow> return_p p)"

definition developer_profile_path :: "string \<Rightarrow> CreatePayload \<Rightarrow> string prog" where
  "developer_profile_path accountRoot payload =
     (if cp_DeveloperCredentialProfilePath payload = [] then return_p []
      else (case cp_DeveloperCredentials payload of
          None \<Rightarrow> refuse ''developer_credentials.profile_id is required when developer_credential_profile_path is set''
        | Some c \<Rightarrow>
            if dc_ProfileID c = [] then refuse ''developer_credentials.profile_id is required when developer_credential_profile_path is set''
            else lift_path (resolvePath accountRoot (cp_UserID payload)
                   (Join [''developer-credential-profiles'', dc_ProfileID c]) (cp_DeveloperCredentialProfilePath payload))))"

text \<open>The map literal: with equal roots the second pair replaces the first.\<close>

definition prepared_roots :: "bool \<Rightarrow> string \<Rightarrow> string \<Rightarrow> string \<Rightarrow> string \<Rightarrow> (string \<times> string) list" where
  "prepared_roots reversed workspaceRoot workspacePath accountRoot accountPath =
     (let m = put accountRoot accountPath (put workspaceRoot workspacePath []) in if reversed then rev m else m)"

definition session_marker :: "prepare_env \<Rightarrow> string \<Rightarrow> string \<Rightarrow> string \<Rightarrow> CreatePayload \<Rightarrow> SandboxRuntime \<Rightarrow> (string \<times> json_value) list" where
  "session_marker env workspacePath accountPath developerProfilePath payload rt =
     [(''session_id'', JString (cp_SessionID payload)), (''tool_account_id'', JString (cp_ToolAccountID payload)),
      (''tool_type'', JString (cp_ToolType payload)), (''user_id'', JString (cp_UserID payload)),
      (''workspace_id'', JString (cp_WorkspaceID payload)), (''project_key'', JString (cp_ProjectKey payload)),
      (''workspace_remote_path'', JString workspacePath), (''account_remote_path'', JString accountPath),
      (''developer_credential_profile_path'', JString developerProfilePath),
      (''tmux_session_name'', JString (cp_TmuxSessionName payload)), (''sandbox_name'', JString (cp_SandboxName payload)),
      (''timezone'', JString (cp_Timezone payload)), (''locale'', JString (cp_Locale payload)),
      (''command'', JArray (map JString (sessionCommand payload (sr_ManagedArguments rt)))),
      (''prepared_at'', JString (pe_preparedAt env))]"

definition prepare_claude :: "prepare_env \<Rightarrow> string \<Rightarrow> CreatePayload \<Rightarrow> SandboxRuntime \<Rightarrow> unit prog" where
  "prepare_claude env accountPath payload rt =
     when_p (cp_ToolType payload = ''claude'')
       (before_p (prepare_attachments accountPath (cp_SessionID payload) (sr_UID rt) (sr_GID rt))
                 (InstallClaude (pe_skills env) accountPath (sandboxOwnership rt)))"

definition prepare_contents ::
  "prepare_env \<Rightarrow> string \<Rightarrow> string \<Rightarrow> string \<Rightarrow> string \<Rightarrow> CreatePayload \<Rightarrow> SandboxRuntime \<Rightarrow> unit prog" where
  "prepare_contents env accountRoot workspacePath accountPath developerProfilePath payload rt =
     before_p (prepareSandboxDirectory accountRoot (Join [accountPath, ''.claude'']) rt)
    (before_p (prepare_claude env accountPath payload rt)
    (before_p (when_p (developerProfilePath \<noteq> [])
                (before_p (prepareSandboxDirectory accountRoot developerProfilePath rt)
                          (prepareDeveloperCredentialProfile developerProfilePath (cp_DeveloperCredentials payload) rt)))
    (before_p (when_p (cp_SyncGit payload) (ensureGitReady (pe_linuxRoot env) workspacePath rt))
    (before_p (ensureFile (Join [accountPath, ''.claude.json'']) (''{}'' @ [CHR 0x0A]) rt)
              (writeOwnedFile (Join [workspacePath, ''.agent-remote-session.json''])
                 (pe_indent env (session_marker env workspacePath accountPath developerProfilePath payload rt) @ [CHR 0x0A]) 384 rt)))))"

definition prepare_files ::
  "prepare_env \<Rightarrow> string \<Rightarrow> string \<Rightarrow> string \<Rightarrow> string \<Rightarrow> string \<Rightarrow> CreatePayload \<Rightarrow> SandboxRuntime \<Rightarrow> unit prog" where
  "prepare_files env workspaceRoot accountRoot workspacePath accountPath developerProfilePath payload rt =
     before_p (each_p (\<lambda>(root, dir). prepareSandboxDirectory root dir rt)
                (prepared_roots (pe_reversed env) workspaceRoot workspacePath accountRoot accountPath))
       (prepare_contents env accountRoot workspacePath accountPath developerProfilePath payload rt)"

definition Prepare ::
  "prepare_env \<Rightarrow> string \<Rightarrow> string \<Rightarrow> string \<Rightarrow> string \<Rightarrow> CreatePayload \<Rightarrow> SandboxRuntime \<Rightarrow> CreateResult prog" where
  "Prepare env workspaceRoot accountRoot dockerBinary tmuxBinary payload rt =
     then_p (lift_path (resolvePath workspaceRoot (cp_UserID payload)
               (Join [''workspaces'', cp_WorkspaceID payload, ''files'']) (cp_WorkspaceRemotePath payload))) (\<lambda>workspacePath.
     then_p (lift_path (resolvePath accountRoot (cp_UserID payload)
               (Join [''tool-accounts'', cp_ToolType payload, cp_ToolAccountID payload]) (cp_AccountRemotePath payload))) (\<lambda>accountPath.
     then_p (developer_profile_path accountRoot payload) (\<lambda>developerProfilePath.
     before_p (prepare_files env workspaceRoot accountRoot workspacePath accountPath developerProfilePath payload rt)
    (then_p (startTmuxSession env dockerBinary tmuxBinary workspacePath accountPath developerProfilePath payload rt) (\<lambda>tmuxStarted.
       return_p \<lparr>cr_Status = ''running'', cr_SessionID = cp_SessionID payload, cr_ToolAccountID = cp_ToolAccountID payload,
                 cr_ToolType = cp_ToolType payload, cr_WorkspaceRemotePath = workspacePath, cr_AccountRemotePath = accountPath,
                 cr_TmuxSessionName = cp_TmuxSessionName payload, cr_SandboxName = cp_SandboxName payload,
                 cr_MarkerPath = Join [workspacePath, ''.agent-remote-session.json''], cr_TmuxStarted = tmuxStarted\<rparr>)))))"

subsection \<open>Where a preparation writes\<close>

lemma confined_Join:
  assumes "confined root p" "good_segs es" "es \<noteq> []"
  shows "confined root (Join (p # es))"
proof -
  have p: "isAbs p" using assms(1) by (simp add: confined_def)
  obtain rest where "segments p = segments root @ rest" "good_segs rest" using assms(1) by (auto simp: confined_def)
  then have "segments (Join (p # es)) = segments root @ (rest @ es)" "good_segs (rest @ es)"
    using Join_segments [OF p assms(2,3)] assms(2) by simp_all
  then show ?thesis unfolding confined_def using Join_abs(1,2) [OF p assms(3)] by blast
qed

lemma confined_render: "good_segs (segments root @ rest) \<Longrightarrow> confined root (render True (segments root @ rest))"
  by (auto simp: confined_def Clean_abs)

lemma confined_trans: "confined r p \<Longrightarrow> confined p q \<Longrightarrow> confined r q"
  by (auto simp: confined_def)

lemma lift_path_returns: "isAbs root \<Longrightarrow> returns (confined root) (lift_path (resolvePath root u suffix remote))"
  using resolve_confined [of root]
  by (auto simp: returns_def lift_path_def resolvePath_def Let_def refuse_def fail_p_def return_p_def split: if_splits)

lemma emits_lift_path [emit_rules]: "emits P (lift_path r)"
  by (cases r) (simp_all add: lift_path_def emit_rules)

lemma Dir_up:
  assumes "isAbs p" "Clean p = p"
  shows "isAbs (Dir p) \<and> Clean (Dir p) = Dir p \<and> length (segments (Dir p)) \<le> length (segments p) - 1"
proof -
  have p: "p = render True (segments p)" "good_segs (segments p)" using assms by (simp_all add: Clean_abs segments_good)
  show ?thesis
  proof (cases "segments p" rule: rev_cases)
    case Nil
    then have "Dir p = render True []" using p(1) by (simp add: Dir_def render_def Clean_def segments_def)
    then show ?thesis by (simp add: Clean_abs)
  next
    case (snoc ss s)
    then have "Dir p = render True ss" using p Dir_render [of ss s] by simp
    then show ?thesis using p(2) snoc by (simp add: Clean_abs)
  qed
qed

text \<open>The walk over the parents always ends, and stays inside the root.\<close>

lemma managed_parents_confined:
  assumes "isAbs root" "confined root path"
  shows "\<exists>parents. managedParentDirectories root path = Some parents \<and> (\<forall>p \<in> set parents. confined root p)"
proof -
  have path: "isAbs path" "Clean path = path" using assms(2) by (simp_all add: confined_def)
  obtain rest where rest: "segments path = segments root @ rest" "good_segs rest" using assms(2) by (auto simp: confined_def)
  have good: "good_segs (segments root)" using assms(1) by (rule segments_good)
  show ?thesis
  proof (cases "segments root \<noteq> [] \<and> rest \<noteq> []")
    case True
    have "confined root (render True (segments root @ take k rest))" for k
      using good rest(2) by (intro confined_render) (auto simp: good_segs_def dest: in_set_takeD)
    then show ?thesis using managed_parents_exact [OF assms(1) path(1) _ rest(1)] True by auto
  next
    case False
    have root: "confined root (Clean root)" using confined_render [of root "[]"] good by (simp add: Clean_abs [OF assms(1)])
    have "\<not> (Dir path \<noteq> Clean root \<and> isPathInside (Clean root) (Dir path))"
    proof
      assume inside: "Dir path \<noteq> Clean root \<and> isPathInside (Clean root) (Dir path)"
      have abs: "isAbs (Dir path)" "Clean (Dir path) = Dir path" "length (segments (Dir path)) \<le> length (segments path) - 1"
        using Dir_up [OF path] by simp_all
      then have "segments (Dir path) \<noteq> segments root"
        using inside Clean_abs [OF abs(1)] Clean_abs [OF assms(1)] by auto
      then have "segments root \<noteq> [] \<and> (\<exists>more. segments (Dir path) = segments root @ more)"
        using inside isPathInside_iff [OF Clean_props(1) [OF assms(1)] abs(1)] Clean_props(2) [OF assms(1)] by auto
      then show False using False rest(1) abs(3) by (cases "segments root") auto
    qed
    then show ?thesis using root
      by (auto simp: managedParentDirectories_def Let_def path(2))
  qed
qed

definition confined_call :: "string \<Rightarrow> string \<Rightarrow> call \<Rightarrow> bool" where
  "confined_call r1 r2 c \<longleftrightarrow> (\<forall>p \<in> set (touched c). confined r1 p \<or> confined r2 p)"

lemma confined_call_simps [simp]:
  "confined_call r1 r2 (MkdirAll p) \<longleftrightarrow> confined r1 p \<or> confined r2 p"
  "confined_call r1 r2 (WriteFile p d m) \<longleftrightarrow> confined r1 p \<or> confined r2 p"
  "confined_call r1 r2 (Chmod p m) \<longleftrightarrow> confined r1 p \<or> confined r2 p"
  "confined_call r1 r2 (Lchown p u g) \<longleftrightarrow> confined r1 p \<or> confined r2 p"
  "confined_call r1 r2 (Mkdirat p m) \<longleftrightarrow> confined r1 p \<or> confined r2 p"
  "confined_call r1 r2 (FileChown p u g) \<longleftrightarrow> confined r1 p \<or> confined r2 p"
  "confined_call r1 r2 (SetFacl b opts p) \<longleftrightarrow> confined r1 p \<or> confined r2 p"
  "confined_call r1 r2 (Lstat p)" "confined_call r1 r2 (Stat p)" "confined_call r1 r2 (OpenDir p)"
  "confined_call r1 r2 (Openat p)" "confined_call r1 r2 (WalkDir p)" "confined_call r1 r2 (LookPath p)"
  "confined_call r1 r2 (Command argv)" "confined_call r1 r2 (GitCommand cred argv)" "confined_call r1 r2 (StartTerminal n argv env)"
  by (simp_all add: confined_call_def)

lemma emits_owned:
  assumes "confined r1 p \<or> confined r2 p"
  shows "emits (confined_call r1 r2) (applyOwnership p rt)" "emits (confined_call r1 r2) (ensureOwnedDirectory p rt)"
    "emits (confined_call r1 r2) (writeOwnedFile p d m rt)" "emits (confined_call r1 r2) (ensureFile p d rt)"
proof -
  show own: "emits (confined_call r1 r2) (applyOwnership p rt)"
    using assms by (auto simp: applyOwnership_def intro!: emit_rules)
  show "emits (confined_call r1 r2) (ensureOwnedDirectory p rt)"
    using assms own by (auto simp: ensureOwnedDirectory_def intro!: emit_rules split: answer.splits)
  have wr: "emits (confined_call r1 r2) (writeOwnedFile p d m rt)" for d m
    using assms own by (auto simp: writeOwnedFile_def Let_def intro!: emit_rules split: answer.splits)
  show "emits (confined_call r1 r2) (writeOwnedFile p d m rt)" by (rule wr)
  show "emits (confined_call r1 r2) (ensureFile p d rt)"
    using own wr by (auto simp: ensureFile_def intro!: emit_rules split: answer.splits)
qed

lemma emits_sandbox_directory:
  assumes "isAbs root" "confined root p" "\<And>q. confined root q \<Longrightarrow> confined r1 q \<or> confined r2 q"
  shows "emits (confined_call r1 r2) (prepareSandboxDirectory root p rt)"
proof -
  obtain parents where "managedParentDirectories root p = Some parents" "\<forall>q \<in> set parents. confined root q"
    using managed_parents_confined [OF assms(1,2)] by blast
  then show ?thesis
    using assms(2,3) by (auto simp: prepareSandboxDirectory_def Let_def intro!: emit_rules emits_owned)
qed

lemma emits_profile:
  assumes "confined r1 p \<or> confined r2 p"
  shows "emits (confined_call r1 r2) (prepareDeveloperCredentialProfile p credentials rt)"
proof -
  have below: "confined r1 (Join (p # es)) \<or> confined r2 (Join (p # es))" if "good_segs es" "es \<noteq> []" for es
    using assms confined_Join that by blast
  have "confined r1 (Join [p, d]) \<or> confined r2 (Join [p, d])" if "d \<in> {''home'', ''gh'', ''.ssh''}" for d
    using below [of "[d]"] that by (auto simp: good_seg_def)
  moreover have "confined r1 (Join [p, ''home'', ''.gitconfig'']) \<or> confined r2 (Join [p, ''home'', ''.gitconfig''])"
    using below [of "[''home'', ''.gitconfig'']"] by (simp add: good_seg_def)
  ultimately show ?thesis using assms
    by (auto simp: prepareDeveloperCredentialProfile_def intro!: emit_rules emits_owned split: option.splits)
qed

lemma emits_attachments:
  assumes "confined r1 p \<or> confined r2 p"
  shows "emits (confined_call r1 r2) (prepare_attachments p session uid gid)"
proof -
  have "emits (confined_call r1 r2) (make_parts q parts uid gid)"
    if "confined r1 q \<or> confined r2 q" "good_segs parts" for q parts
    using that
  proof (induction parts arbitrary: q)
    case (Cons part parts)
    then have "confined r1 (Join [q, part]) \<or> confined r2 (Join [q, part])"
      using confined_Join [of _ q "[part]"] by auto
    moreover have "good_segs parts" using Cons.prems(2) by simp
    ultimately show ?case using Cons.IH by (auto simp: Let_def intro!: emit_rules)
  qed (simp add: emit_rules)
  moreover have "managedID session \<Longrightarrow> good_segs [''.agent-remote-attachments'', session]"
    using managedID_good by (simp add: good_seg_def)
  ultimately show ?thesis using assms by (auto simp: prepare_attachments_def intro!: emit_rules simp del: make_parts.simps)
qed

lemma emits_claude:
  assumes "confined r1 p \<or> confined r2 p"
  shows "emits (confined_call r1 r2) (prepare_claude env p payload rt)"
proof -
  have abs: "isAbs p" using assms by (auto simp: confined_def)
  have "confined p (Join [p, ''.claude/skills''])"
    using skills_path_confined [OF abs skill_constants(6)] relative_confined [OF abs, of "''.claude/skills''"]
    by (simp add: good_seg_def)
  then have "confined_call r1 r2 c" if "skills_call p c" for c
    using assms that confined_trans unfolding skills_call_def confined_call_def by blast
  then have "emits (confined_call r1 r2) (InstallClaude (pe_skills env) p ow)" for ow
    using emits_mono [OF emits_InstallClaude [OF abs]] by blast
  then show ?thesis unfolding prepare_claude_def by (intro emits_when emits_before emits_attachments assms)
qed

lemma emits_git [emit_rules]: "emits (confined_call r1 r2) (ensureGitReady linuxRoot p rt)"
  by (auto simp: ensureGitReady_def ensureIndependentGitIndex_def runGit_def Let_def intro!: emit_rules split: answer.splits)

lemma emits_tmux [emit_rules]:
  "emits (confined_call r1 r2) (startTmuxSession env docker tmux w a d payload rt)"
  by (auto simp: startTmuxSession_def ensureSandbox_def Let_def intro!: emit_rules split: answer.splits)

lemma emits_contents:
  assumes "isAbs r2" "confined r1 w" "confined r2 a" "d = [] \<or> confined r2 d"
  shows "emits (confined_call r1 r2) (prepare_contents env r2 w a d payload rt)"
proof -
  have account: "emits (confined_call r1 r2) (prepareSandboxDirectory r2 x rt)" if "confined r2 x" for x
    using assms(1) that by (intro emits_sandbox_directory) simp_all
  have sub: "confined r2 (Join [a, ''.claude''])" "confined r2 (Join [a, ''.claude.json''])"
    "confined r1 (Join [w, ''.agent-remote-session.json''])"
    using confined_Join [OF assms(3)] confined_Join [OF assms(2)] by (simp_all add: good_seg_def)
  show ?thesis unfolding prepare_contents_def
    by (intro emits_before account sub emits_claude emits_when emits_git emits_profile emits_owned) (use assms sub in auto)
qed

lemma emits_files:
  assumes "isAbs r1" "isAbs r2" "confined r1 w" "confined r2 a" "d = [] \<or> confined r2 d"
  shows "emits (confined_call r1 r2) (prepare_files env r1 r2 w a d payload rt)"
proof -
  have "emits (confined_call r1 r2) (prepareSandboxDirectory r1 w rt)" "emits (confined_call r1 r2) (prepareSandboxDirectory r2 a rt)"
    using assms by (auto intro!: emits_sandbox_directory)
  moreover have "set (prepared_roots rev r1 w r2 a) \<subseteq> {(r1, w), (r2, a)}" for rev
    by (auto simp: prepared_roots_def put_def Let_def)
  ultimately have "emits (confined_call r1 r2) (each_p (\<lambda>(root, dir). prepareSandboxDirectory root dir rt)
      (prepared_roots (pe_reversed env) r1 w r2 a))"
    by (intro emits_each) fastforce
  then show ?thesis unfolding prepare_files_def by (intro emits_before emits_contents assms)
qed

lemma profile_path_returns:
  "isAbs root \<Longrightarrow> returns (\<lambda>p. p = [] \<or> confined root p) (developer_profile_path root payload)"
  using lift_path_returns [of root]
  by (auto simp: developer_profile_path_def returns_def refuse_def fail_p_def return_p_def split: option.splits)

lemma emits_profile_path [emit_rules]: "emits P (developer_profile_path root payload)"
  by (auto simp: developer_profile_path_def intro!: emit_rules split: option.splits)

text \<open>
  C32: whatever a payload names and whatever the host answers, the preparation of a session
  creates, changes, re-owns or re-permissions only paths below the two managed roots.
\<close>

theorem prepare_stays_in_roots:
  assumes "isAbs workspaceRoot" "isAbs accountRoot"
    and "c \<in> set (fst (Prepare env workspaceRoot accountRoot docker tmux payload rt host []))"
    and "p \<in> set (touched c)"
  shows "confined workspaceRoot p \<or> confined accountRoot p"
proof -
  have "emits (confined_call workspaceRoot accountRoot) (Prepare env workspaceRoot accountRoot docker tmux payload rt)"
    unfolding Prepare_def
    by (intro emits_then_returns [OF emits_lift_path lift_path_returns] emits_then_returns [OF emits_profile_path profile_path_returns]
        emits_before emits_files emits_then emits_tmux emits_return assms)
  then show ?thesis using emitsD assms(3,4) unfolding confined_call_def by blast
qed

definition makes_below :: "string \<Rightarrow> call \<Rightarrow> bool" where
  "makes_below a c \<longleftrightarrow> (\<forall>d. c = MkdirAll d \<longrightarrow> confined a d)"

lemma makes_below_simps [simp]:
  "makes_below a (MkdirAll d) \<longleftrightarrow> confined a d" "makes_below a (Lstat p)" "makes_below a (Stat p)" "makes_below a (Lchown p u g)"
  "makes_below a (WriteFile p b m)" "makes_below a (Chmod p m)" "makes_below a (SetFacl b opts p)" "makes_below a (OpenDir p)"
  "makes_below a (Mkdirat p m)" "makes_below a (Openat p)" "makes_below a (FileChown p u g)" "makes_below a (WalkDir p)"
  "makes_below a (GitCommand cred argv)" "makes_below a (LookPath p)" "makes_below a (Command argv)" "makes_below a (StartTerminal n argv e)"
  by (simp_all add: makes_below_def)

lemma makes_owned:
  "emits (makes_below a) (applyOwnership p rt)" "confined a p \<Longrightarrow> emits (makes_below a) (ensureOwnedDirectory p rt)"
  "emits (makes_below a) (writeOwnedFile p d m rt)" "emits (makes_below a) (ensureFile p d rt)"
  by (auto simp: applyOwnership_def ensureOwnedDirectory_def writeOwnedFile_def ensureFile_def Let_def
      intro!: emit_rules split: answer.splits)

lemma makes_sandbox: "confined a p \<Longrightarrow> emits (makes_below a) (prepareSandboxDirectory root p rt)"
  by (auto simp: prepareSandboxDirectory_def Let_def intro!: emit_rules makes_owned split: option.splits)

lemma makes_claude:
  assumes "isAbs a"
  shows "emits (makes_below a) (prepare_claude env a payload rt)"
proof -
  have "emits (makes_below a) (make_parts q parts uid gid)" for q parts uid gid
    by (induction parts arbitrary: q) (auto simp: Let_def intro!: emit_rules)
  then have attachments: "emits (makes_below a) (prepare_attachments a s u g)" for s u g
    by (auto simp: prepare_attachments_def intro!: emit_rules simp del: make_parts.simps)
  have "confined a (Join [a, ''.claude/skills''])"
    using relative_confined [OF assms, of "''.claude/skills''"] by (simp add: good_seg_def)
  then have "makes_below a c" if "skills_call a c" for c
    using that confined_trans unfolding skills_call_def makes_below_def by fastforce
  then have "emits (makes_below a) (InstallClaude (pe_skills env) a ow)" for ow
    using emits_mono [OF emits_InstallClaude [OF assms]] by blast
  then show ?thesis unfolding prepare_claude_def by (intro emits_when emits_before attachments)
qed

lemma makes_rest [emit_rules]:
  "emits (makes_below a) (ensureGitReady linuxRoot p rt)"
  "emits (makes_below a) (startTmuxSession env docker tmux w a' d payload rt)"
  by (auto simp: ensureGitReady_def ensureIndependentGitIndex_def runGit_def startTmuxSession_def ensureSandbox_def Let_def
      intro!: emit_rules split: answer.splits)

lemma makes_files:
  assumes "confined root a"
  shows "emits (makes_below a) (prepare_files env root root w a [] payload rt)"
proof -
  have abs: "isAbs a" and self: "confined a a" using assms by (auto simp: confined_def)
  have "confined a (Join [a, ''.claude''])" using confined_Join [OF self, of "[''.claude'']"] by (simp add: good_seg_def)
  moreover have "prepared_roots rev root w root a = [(root, a)]" for rev
    by (simp add: prepared_roots_def put_def Let_def)
  ultimately show ?thesis unfolding prepare_files_def prepare_contents_def
    by (auto intro!: emit_rules makes_sandbox makes_claude makes_owned abs self)
qed

lemma sandbox_creates: "achieves (MkdirAll p) (prepareSandboxDirectory root p rt)"
proof -
  have "extends (applyOwnership p rt)" by (auto simp: extends_def applyOwnership_def intro!: emit_rules)
  then have "achieves (MkdirAll p) (ensureOwnedDirectory p rt)"
    unfolding ensureOwnedDirectory_def
    by (intro achieves_before(1) achieves_must) (auto simp: extends_def intro!: emit_rules split: answer.splits)
  moreover have "achieves c (refuse s)" for c s by (simp add: achieves_def refuse_def fail_p_def)
  ultimately show ?thesis unfolding prepareSandboxDirectory_def
    by (auto intro!: achieves_before(1) simp: extends_def Let_def intro!: emit_rules split: option.splits)
qed

lemma sandbox_extends: "extends (prepareSandboxDirectory root p rt)"
  by (auto simp: extends_def prepareSandboxDirectory_def ensureOwnedDirectory_def applyOwnership_def Let_def
      intro!: emit_rules split: option.splits answer.splits)

lemma files_create_workspace:
  assumes "r1 \<noteq> r2" "isAbs r2" "confined r1 w" "confined r2 a"
  shows "achieves (MkdirAll w) (prepare_files env r1 r2 w a [] payload rt)"
proof -
  have "(r1, w) \<in> set (prepared_roots rev r1 w r2 a)" for rev
    using assms(1) by (auto simp: prepared_roots_def put_def Let_def)
  then have "achieves (MkdirAll w) (each_p (\<lambda>(root, dir). prepareSandboxDirectory root dir rt) (prepared_roots (pe_reversed env) r1 w r2 a))"
    by (rule achieves_each) (auto simp: sandbox_creates sandbox_extends)
  moreover have "extends (prepare_contents env r2 w a [] payload rt)"
    by (rule emits_extends [OF emits_contents [OF assms(2-4)]]) simp
  ultimately show ?thesis unfolding prepare_files_def by (rule achieves_before(1))
qed

lemma resolved_confined: "isAbs root \<Longrightarrow> resolvePath root u suffix remote = Inr p \<Longrightarrow> confined root p"
  using resolve_confined [of root] by (auto simp: resolvePath_def Let_def split: if_splits)


definition sample_payload :: CreatePayload where
  "sample_payload = \<lparr>cp_SessionID = ''s1'', cp_ToolAccountID = ''a1'', cp_ToolType = ''codex'', cp_UserID = ''u1'',
     cp_WorkspaceID = ''w1'', cp_ProjectKey = [], cp_WorkspaceRemotePath = [], cp_AccountRemotePath = [],
     cp_DeveloperCredentialProfilePath = [], cp_DeveloperCredentials = None, cp_SyncGit = True, cp_TmuxSessionName = ''t1'',
     cp_SandboxName = ''b1'', cp_Timezone = ''UTC'', cp_Locale = ''C'', cp_Argv = [],
     cp_Template = \<lparr>tm_SandboxAgent = [], tm_Command = [], tm_Verifier = []\<rparr>, cp_RuntimeBackend = ''docker_sandbox'',
     cp_DeviceControl = None\<rparr>"

definition sample_runtime :: SandboxRuntime where
  "sample_runtime = \<lparr>sr_StartTerminal = True, sr_UID = 1000, sr_GID = 1000, sr_SetfaclPath = ''/usr/bin/setfacl'',
     sr_Mounts = [], sr_Environment = [], sr_ManagedArguments = []\<rparr>"

definition sample_prepare :: prepare_env where
  "sample_prepare = \<lparr>pe_linuxRoot = True, pe_environ = [], pe_preparedAt = [], pe_indent = (\<lambda>_. []), pe_reversed = False,
     pe_skills = \<lparr>mc_sha = (\<lambda>s. s), mc_embedded = [], mc_deviceSkill = [], mc_deviceBrowserReference = []\<rparr>\<rparr>"

definition sample_host :: host where
  "sample_host log c = (case c of
     Lstat p \<Rightarrow> if Ext p = ''.json'' then Absent else Node Directory
   | Stat _ \<Rightarrow> Absent
   | LookPath _ \<Rightarrow> Absent
   | _ \<Rightarrow> Done)"

lemma sample_paths:
  "resolvePath ''/srv/users'' ''u1'' (Join [''workspaces'', ''w1'', ''files'']) [] = Inr ''/srv/users/u1/workspaces/w1/files''"
  "resolvePath ''/srv/users'' ''u1'' (Join [''tool-accounts'', ''codex'', ''a1'']) [] = Inr ''/srv/users/u1/tool-accounts/codex/a1''"
  by code_simp+

lemma sample_success:
  "is_ok (snd (Prepare sample_prepare ''/srv/users'' ''/srv/users'' ''docker'' ''tmux'' sample_payload sample_runtime sample_host []))"
  by code_simp

lemma sample_outside: "\<not> confined ''/srv/users/u1/tool-accounts/codex/a1'' ''/srv/users/u1/workspaces/w1/files''"
proof -
  have "segments ''/srv/users/u1/tool-accounts/codex/a1'' = [''srv'', ''users'', ''u1'', ''tool-accounts'', ''codex'', ''a1'']"
    "segments ''/srv/users/u1/workspaces/w1/files'' = [''srv'', ''users'', ''u1'', ''workspaces'', ''w1'', ''files'']" by code_simp+
  then show ?thesis unfolding confined_def by simp
qed


theorem prepare_stays_in_roots_witness:
  "SetFacl ''/usr/bin/setfacl'' [''-R'', ''-m'', ''u:1000:rwX''] ''/srv/users/u1/tool-accounts/codex/a1'' \<in>
     set (fst (Prepare sample_prepare ''/srv/users'' ''/srv/users'' ''docker'' ''tmux'' sample_payload sample_runtime sample_host []))
   \<and> confined ''/srv/users'' ''/srv/users/u1/tool-accounts/codex/a1''"
proof -
  have *: "SetFacl ''/usr/bin/setfacl'' [''-R'', ''-m'', ''u:1000:rwX''] ''/srv/users/u1/tool-accounts/codex/a1'' \<in>
     set (fst (Prepare sample_prepare ''/srv/users'' ''/srv/users'' ''docker'' ''tmux'' sample_payload sample_runtime sample_host []))"
    by code_simp
  then show ?thesis using prepare_stays_in_roots [OF _ _ *] by auto
qed

text \<open>Values of the runtime's environment never become arguments of a command; only their names do.\<close>

definition hide_value :: "string \<Rightarrow> string" where
  "hide_value e = env_key e @ (if CHR ''='' \<in> set e then ''='' else [])"

lemma exec_command_hides_values:
  "sandboxExecCommand docker w a d payload (rt\<lparr>sr_Environment := map hide_value (sr_Environment rt)\<rparr>) =
   sandboxExecCommand docker w a d payload rt"
proof -
  have "env_key (hide_value e) = env_key e" for e
    by (induction e) (auto simp: env_key_def hide_value_def)
  moreover have "CHR ''='' \<in> set (hide_value e) \<longleftrightarrow> CHR ''='' \<in> set e" for e
    by (auto simp: hide_value_def env_key_def dest: set_takeWhileD)
  ultimately show ?thesis by (simp add: sandboxExecCommand_def comp_def Let_def cong: if_cong)
qed

text \<open>\<open>Stop\<close> takes every failure of \<open>tmux kill-session\<close> for a missing session.\<close>

lemma tmux_failure_ignored:
  "kill_tmux tmux payload h log = (log', r) \<Longrightarrow> is_ok r"
  by (auto simp: kill_tmux_def then_p_def ask_def return_p_def fail_p_def isTmuxMissingSession_def Let_def split: if_splits)

end
