(* ===== verification/Attachments.thy ===== *)
theory Attachments
  imports Effects Skill_Manifest
begin

section \<open>The attachment gateway\<close>

text \<open>
  \<open>claudeattachments/transfer.go\<close>: the receiver of one exact-session transfer stream. The input is
  the byte stream of the connection, and \<open>broken\<close> tells whether it ends with an error or with
  an end of file. What \<open>encoding/json\<close> makes of a line is an argument; so is the encoder. The
  loop is given a number of turns; one more than the length of the input is always enough, because
  every turn that goes on has consumed a line.
\<close>

definition AttachmentProtocolVersion :: int where "AttachmentProtocolVersion = 1"
definition MaxAttachmentHeaderBytes :: int where "MaxAttachmentHeaderBytes = 64 * 1024"
definition MaxAttachmentBatchBytes :: int where "MaxAttachmentBatchBytes = 256 * 1024 * 1024"
definition MaxAttachmentEntries :: int where "MaxAttachmentEntries = 32"
definition MaxAttachmentNameBytes :: int where "MaxAttachmentNameBytes = 255"

subsection \<open>Identities\<close>

definition uuid_char :: "nat \<times> char \<Rightarrow> bool" where
  "uuid_char p = (case p of (i, c) \<Rightarrow> if i = 8 \<or> i = 13 \<or> i = 18 \<or> i = 23 then c = CHR ''-'' else lower_hex c)"

definition canonicalUUID :: "string \<Rightarrow> bool" where
  "canonicalUUID value =
     (if length value \<noteq> 36 \<or> value = ''00000000-0000-0000-0000-000000000000'' then False
      else list_all uuid_char (zip [0..<36] value))"

definition uuid_text :: "bytes \<Rightarrow> string" where
  "uuid_text bs =
     (let set_bits = (\<lambda>b m v. char_of (of_char b mod m + v :: nat));
          bs = bs[6 := set_bits (bs ! 6) 16 64, 8 := set_bits (bs ! 8) 64 128] in
      hex_encode (take 4 bs) @ ''-'' @ hex_encode (take 2 (drop 4 bs)) @ ''-'' @ hex_encode (take 2 (drop 6 bs)) @ ''-''
      @ hex_encode (take 2 (drop 8 bs)) @ ''-'' @ hex_encode (take 6 (drop 10 bs)))"

text \<open>\<open>rand.Read\<close> fills all sixteen bytes or fails.\<close>

definition newUUID :: "string prog" where
  "newUUID = then_p (ask (RandomBytes 16)) (\<lambda>answer. case answer of
     Content bs \<Rightarrow> return_p (if length bs = 16 then uuid_text bs else ''00000000-0000-4000-8000-000000000001'')
   | _ \<Rightarrow> return_p ''00000000-0000-4000-8000-000000000001'')"

record TransferIdentity =
  ti_NodeID :: string
  ti_SessionID :: string
  ti_ExpectedDeviceID :: string
  ti_SSHKeyID :: string
  ti_LeaseID :: string

definition identity_valid :: "TransferIdentity \<Rightarrow> bool" where
  "identity_valid i =
     (canonicalUUID (ti_NodeID i) \<and> canonicalUUID (ti_SessionID i) \<and> canonicalUUID (ti_ExpectedDeviceID i)
      \<and> canonicalUUID (ti_SSHKeyID i) \<and> canonicalUUID (ti_LeaseID i))"

subsection \<open>Frames\<close>

record OpenFrame =
  of_Version :: int
  of_Operation :: string
  of_SessionID :: string
  of_ExpectedDeviceID :: string
  of_LeaseID :: string

record UploadFrame =
  uf_Version :: int
  uf_Operation :: string
  uf_SessionID :: string
  uf_ExpectedDeviceID :: string
  uf_LeaseID :: string
  uf_BatchID :: string
  uf_Kind :: string
  uf_Name :: string
  uf_Size :: int
  uf_SHA256 :: string

type_synonym CleanupFrame = OpenFrame

record CleanupReceipt =
  rc_Identity :: TransferIdentity
  rc_Status :: string
  rc_RemovedBatches :: int
  rc_ReceiptID :: string

definition frame_identity :: "string \<Rightarrow> OpenFrame \<Rightarrow> TransferIdentity \<Rightarrow> bool" where
  "frame_identity operation f identity =
     (of_Version f = AttachmentProtocolVersion \<and> of_Operation f = operation \<and> identity_valid identity
      \<and> of_SessionID f = ti_SessionID identity \<and> of_ExpectedDeviceID f = ti_ExpectedDeviceID identity
      \<and> of_LeaseID f = ti_LeaseID identity)"

definition OpenFrame_Validate :: "OpenFrame \<Rightarrow> TransferIdentity \<Rightarrow> string option" where
  "OpenFrame_Validate f identity =
     (if \<not> frame_identity ''open'' f identity then Some ''invalid exact attachment open frame'' else None)"

definition CleanupFrame_Validate :: "CleanupFrame \<Rightarrow> TransferIdentity \<Rightarrow> string option" where
  "CleanupFrame_Validate f identity =
     (if \<not> frame_identity ''cleanup'' f identity then Some ''invalid exact attachment cleanup frame'' else None)"

definition validLeafName :: "string \<Rightarrow> bool" where
  "validLeafName name =
     (name \<noteq> [] \<and> int (length name) \<le> MaxAttachmentNameBytes \<and> name \<noteq> ''.'' \<and> name \<noteq> ''..''
      \<and> \<not> contains_any name [slash, CHR 0x5C] \<and> NUL \<notin> set name \<and> \<not> has_control name)"

text \<open>The checksum: 64 characters, lower case, accepted by \<open>hex.DecodeString\<close>.\<close>

definition UploadFrame_Validate :: "UploadFrame \<Rightarrow> TransferIdentity \<Rightarrow> int \<Rightarrow> int \<Rightarrow> string option" where
  "UploadFrame_Validate f identity maxBytes maxEntries =
     (if uf_Version f \<noteq> AttachmentProtocolVersion \<or> uf_Operation f \<noteq> ''upload'' \<or> \<not> identity_valid identity
         \<or> uf_SessionID f \<noteq> ti_SessionID identity \<or> uf_ExpectedDeviceID f \<noteq> ti_ExpectedDeviceID identity
         \<or> uf_LeaseID f \<noteq> ti_LeaseID identity \<or> \<not> canonicalUUID (uf_BatchID f)
      then Some ''invalid exact attachment upload identity''
      else if uf_Kind f \<noteq> ''file'' \<and> uf_Kind f \<noteq> ''image'' then Some ''invalid exact attachment upload kind''
      else if \<not> validLeafName (uf_Name f) \<or> uf_Size f \<le> 0 \<or> uf_Size f > MaxAttachmentBatchBytes
              \<or> (maxBytes > 0 \<and> uf_Size f > maxBytes) \<or> maxEntries \<le> 0 \<or> maxEntries > MaxAttachmentEntries
      then Some ''invalid exact attachment upload bounds''
      else if length (uf_SHA256 f) \<noteq> 64 \<or> \<not> list_all lower_hex (uf_SHA256 f) then Some ''invalid exact attachment checksum''
      else None)"

definition CleanupReceipt_Validate :: "int \<Rightarrow> string \<Rightarrow> CleanupReceipt \<Rightarrow> TransferIdentity \<Rightarrow> string option" where
  "CleanupReceipt_Validate version operation r identity =
     (if version \<noteq> AttachmentProtocolVersion \<or> operation \<noteq> ''cleanup_receipt'' \<or> rc_Identity r \<noteq> identity
         \<or> \<not> canonicalUUID (rc_ReceiptID r) \<or> rc_RemovedBatches r < 0 \<or> rc_RemovedBatches r > MaxAttachmentEntries
      then Some ''invalid exact attachment cleanup receipt''
      else if rc_Status r \<in> set [''cleaned'', ''pending'', ''unknown'', ''rejected''] then None
      else Some ''invalid exact attachment cleanup status'')"

subsection \<open>The gateway and its environment\<close>

record Gateway =
  gw_Identity :: TransferIdentity
  gw_AccountPath :: string
  gw_LeaseExpiresAt :: "gotime option"
  gw_MaxBytes :: int
  gw_MaxEntries :: int
  gw_ReceiptRoot :: string
  gw_CleanupHook :: bool

text \<open>
  \<open>fd_operation\<close> is \<open>None\<close> for a line with duplicate keys or that is no object, \<open>Some None\<close> without a
  text \<open>operation\<close>; the others are the results of \<open>decodeStrict\<close>.
\<close>

record frame_codec =
  fd_operation :: "bytes \<Rightarrow> string option option"
  fd_open :: "bytes \<Rightarrow> string + OpenFrame"
  fd_upload :: "bytes \<Rightarrow> string + UploadFrame"
  fd_cleanup :: "bytes \<Rightarrow> string + CleanupFrame"
  fd_length :: "(string \<times> string) list \<Rightarrow> nat"
  fd_receipt :: "CleanupReceipt \<Rightarrow> bytes"
  fd_sha :: "bytes \<Rightarrow> bytes"
  fd_time :: "gotime \<Rightarrow> string"
  fd_cwd :: string

definition receipt_fields :: "CleanupReceipt \<Rightarrow> (string \<times> string) list" where
  "receipt_fields r =
     [(''version'', format_int AttachmentProtocolVersion), (''operation'', ''cleanup_receipt''),
      (''node_id'', ti_NodeID (rc_Identity r)), (''session_id'', ti_SessionID (rc_Identity r)),
      (''expected_device_id'', ti_ExpectedDeviceID (rc_Identity r)), (''ssh_key_id'', ti_SSHKeyID (rc_Identity r)),
      (''lease_id'', ti_LeaseID (rc_Identity r)), (''status'', rc_Status r),
      (''removed_batches'', format_int (rc_RemovedBatches r)), (''receipt_id'', rc_ReceiptID r)]"

definition lease_offer :: "frame_codec \<Rightarrow> Gateway \<Rightarrow> (string \<times> string) list" where
  "lease_offer fd g =
     [(''version'', format_int AttachmentProtocolVersion), (''operation'', ''lease_offer''),
      (''node_id'', ti_NodeID (gw_Identity g)), (''session_id'', ti_SessionID (gw_Identity g)),
      (''expected_device_id'', ti_ExpectedDeviceID (gw_Identity g)), (''ssh_key_id'', ti_SSHKeyID (gw_Identity g)),
      (''lease_id'', ti_LeaseID (gw_Identity g)),
      (''expires_at'', case gw_LeaseExpiresAt g of None \<Rightarrow> [] | Some t \<Rightarrow> fd_time fd t),
      (''max_bytes'', format_int (gw_MaxBytes g)), (''max_entries'', format_int (gw_MaxEntries g))]"

definition writeJSONLine :: "frame_codec \<Rightarrow> (string \<times> string) list \<Rightarrow> unit prog" where
  "writeJSONLine fd message =
     (if int (fd_length fd message) > MaxAttachmentHeaderBytes then refuse ''attachment response is invalid'' else must (Send message))"

definition lease_root :: "Gateway \<Rightarrow> string" where
  "lease_root g = Join [gw_AccountPath g, ''.agent-remote-attachments'', ti_SessionID (gw_Identity g), ti_LeaseID (gw_Identity g)]"

subsection \<open>Receiving a file\<close>

text \<open>\<open>strings.Index\<close> and \<open>filepath.Base\<close>.\<close>

fun index_of :: "string \<Rightarrow> string \<Rightarrow> nat option" where
  "index_of p [] = (if p = [] then Some 0 else None)"
| "index_of p (c # s) = (if has_prefix p (c # s) then Some 0 else map_option Suc (index_of p s))"

definition Base :: "string \<Rightarrow> string" where
  "Base path =
     (if path = [] then ''.''
      else (let base = rev (takeWhile (\<lambda>c. c \<noteq> slash) (dropWhile (\<lambda>c. c = slash) (rev path))) in
            if base = [] then ''/'' else base))"

fun private_parts :: "string \<Rightarrow> string list \<Rightarrow> unit prog" where
  "private_parts current [] = return_p ()"
| "private_parts current (part # parts) =
     (if part = [] then private_parts current parts
      else (let path = Join [current, part] in
        then_p (ask (Lstat path)) (\<lambda>info. case info of
          Absent \<Rightarrow> before_p (must (Mkdir path 448)) (private_parts path parts)
        | Node Directory \<Rightarrow> before_p (must (Chmod path 448)) (private_parts path parts)
        | _ \<Rightarrow> refuse ''attachment path contains an unsafe directory'')))"

definition ensurePrivateTree :: "string \<Rightarrow> string \<Rightarrow> unit prog" where
  "ensurePrivateTree cwd path =
     (let absolute = Abs_path cwd path; marker = ''/.agent-remote-attachments'' in
      case index_of marker absolute of
        None \<Rightarrow> refuse ''attachment path is outside the managed session root''
      | Some index \<Rightarrow>
          (let current = take index absolute @ marker in
           then_p (ask (Lstat current)) (\<lambda>info.
             if info \<noteq> Node Directory then refuse ''attachment root is unsafe''
             else before_p (must (Chmod current 448))
                    (private_parts current (split_on slash (trim_prefix [slash] (drop (index + length marker) absolute)))))))"

text \<open>The remaining input is returned with the path.\<close>

definition receiveUpload :: "frame_codec \<Rightarrow> Gateway \<Rightarrow> bytes \<Rightarrow> UploadFrame \<Rightarrow> (string \<times> bytes) prog" where
  "receiveUpload fd g rest frame =
     (let root = Join [gw_AccountPath g, ''.agent-remote-attachments'', ti_SessionID (gw_Identity g), ti_LeaseID (gw_Identity g), uf_BatchID frame];
          path = Join [root, uf_Name frame]; size = nat (uf_Size frame); data = take size rest in
      before_p (ensurePrivateTree (fd_cwd fd) root)
        (if Base path \<noteq> uf_Name frame then refuse ''attachment path escaped lease directory''
         else before_p (must (CreateExclusive path))
          (then_p (ask (WriteTo path data)) (\<lambda>written.
           then_p (ask (FileClose path)) (\<lambda>closed.
             if written \<noteq> Done \<or> length rest < size
             then then_p (ask (Remove path)) (\<lambda>_. refuse ''attachment payload ended before declared size'')
             else if closed \<noteq> Done then then_p (ask (Remove path)) (\<lambda>_. fail_p (HostError (FileClose path) closed))
             else if hex_encode (fd_sha fd data) \<noteq> uf_SHA256 frame
             then then_p (ask (Remove path)) (\<lambda>_. refuse ''attachment checksum mismatch'')
             else return_p (path, drop size rest))))))"

subsection \<open>Cleaning up\<close>

definition removeLeaseTree :: "string \<Rightarrow> unit prog" where
  "removeLeaseTree path =
     (if path = [] then refuse ''empty lease path''
      else then_p (ask (Lstat path)) (\<lambda>info. case info of
        Absent \<Rightarrow> return_p ()
      | Node Directory \<Rightarrow> must (RemoveAll path)
      | _ \<Rightarrow> refuse ''lease path is not a directory''))"

text \<open>\<open>os.CreateTemp\<close> replaces the star by a random number, which is its good answer here.\<close>

definition persistReceipt :: "frame_codec \<Rightarrow> string \<Rightarrow> CleanupReceipt \<Rightarrow> unit prog" where
  "persistReceipt fd root receipt =
     before_p (must (MkdirAll root))
    (then_p (ask (Chmod root 448)) (\<lambda>_.
     then_p (ask (CreateTemp root ''.cleanup-*'')) (\<lambda>created. case created of
       Instant n \<Rightarrow>
         (let tmp = Join [root, ''.cleanup-'' @ format_nat (nat n)] in
          finally_p
            (before_p (on_error_p
                (before_p (must (FileChmod tmp 384))
                (before_p (must (WriteTo tmp (fd_receipt fd receipt @ [CHR 0x0A]))) (must (FileSync tmp))))
                [FileClose tmp])
            (before_p (must (FileClose tmp))
              (must (Rename tmp (Join [root, ti_LeaseID (rc_Identity receipt) @ ''.json''])))))
            [Remove tmp])
     | _ \<Rightarrow> fail_p (HostError (CreateTemp root ''.cleanup-*'') created))))"

definition cleanup :: "frame_codec \<Rightarrow> Gateway \<Rightarrow> string list \<Rightarrow> CleanupReceipt prog" where
  "cleanup fd g batches =
     try_p (removeLeaseTree (lease_root g)) (\<lambda>removal.
       let status = (if is_ok removal then ''cleaned'' else ''pending'');
           removed = (if is_ok removal then int (length batches) else 0) in
       then_p newUUID (\<lambda>receiptID.
         let receipt = \<lparr>rc_Identity = gw_Identity g, rc_Status = status, rc_RemovedBatches = removed, rc_ReceiptID = receiptID\<rparr> in
         try_p (persistReceipt fd (gw_ReceiptRoot g) receipt) (\<lambda>persisted.
           let receipt = (if \<not> is_ok persisted \<and> status = ''cleaned'' then receipt\<lparr>rc_Status := ''pending''\<rparr> else receipt) in
           if \<not> gw_CleanupHook g then return_p receipt
           else then_p (ask (Report (receipt_fields receipt))) (\<lambda>answer.
             if answer = Done then return_p receipt
             else (let receipt = (if rc_Status receipt \<noteq> ''rejected'' then receipt\<lparr>rc_Status := ''unknown''\<rparr> else receipt) in
                   try_p (persistReceipt fd (gw_ReceiptRoot g) receipt) (\<lambda>_. return_p receipt))))))"

subsection \<open>Serving the stream\<close>

record serve_state =
  sv_first :: bool
  sv_opened :: bool
  sv_seen :: "string list"
  sv_total :: int

text \<open>
  A turn ends the stream, with an error or none, the batches received and the receipt if the
  client asked for the clean-up, or goes on with the rest of the input.
\<close>

datatype serve_turn = Leave "prog_error option" "string list" "CleanupReceipt option" | Go_on bytes serve_state

definition leave_with :: "serve_state \<Rightarrow> string \<Rightarrow> serve_turn" where
  "leave_with st message = Leave (Some (Refused message)) (sv_seen st) None"

definition serve_open :: "frame_codec \<Rightarrow> Gateway \<Rightarrow> bytes \<Rightarrow> bytes \<Rightarrow> serve_state \<Rightarrow> serve_turn prog" where
  "serve_open fd g line rest st =
     (if \<not> sv_first st \<or> sv_opened st then return_p (leave_with st ''exact attachment open must be first and unique'')
      else (case fd_open fd line of
          Inl e \<Rightarrow> return_p (leave_with st e)
        | Inr frame \<Rightarrow>
            (case OpenFrame_Validate frame (gw_Identity g) of
               Some e \<Rightarrow> return_p (leave_with st e)
             | None \<Rightarrow>
                 try_p (writeJSONLine fd [(''version'', format_int AttachmentProtocolVersion), (''operation'', ''open_ack'')])
                   (\<lambda>r. case r of Inl e \<Rightarrow> return_p (Leave (Some e) (sv_seen st) None)
                        | Inr _ \<Rightarrow> return_p (Go_on rest (st\<lparr>sv_opened := True, sv_first := False\<rparr>))))))"

definition serve_upload :: "frame_codec \<Rightarrow> Gateway \<Rightarrow> bytes \<Rightarrow> bytes \<Rightarrow> serve_state \<Rightarrow> serve_turn prog" where
  "serve_upload fd g line rest st =
     (if \<not> sv_opened st \<or> sv_first st then return_p (leave_with st ''exact attachment upload requires open'')
      else (case fd_upload fd line of
          Inl e \<Rightarrow> return_p (leave_with st e)
        | Inr frame \<Rightarrow>
            (case UploadFrame_Validate frame (gw_Identity g) (gw_MaxBytes g - sv_total st) (gw_MaxEntries g - int (length (sv_seen st))) of
               Some e \<Rightarrow> return_p (leave_with st e)
             | None \<Rightarrow>
                 if uf_BatchID frame \<in> set (sv_seen st) then return_p (leave_with st ''exact attachment batch replay'')
                 else if int (length (sv_seen st)) \<ge> gw_MaxEntries g then return_p (leave_with st ''exact attachment entry limit exceeded'')
                 else try_p (receiveUpload fd g rest frame) (\<lambda>received. case received of
                     Inl e \<Rightarrow> return_p (Leave (Some e) (sv_seen st) None)
                   | Inr (path, rest) \<Rightarrow>
                       (let seen = uf_BatchID frame # sv_seen st in
                        try_p (writeJSONLine fd [(''version'', format_int AttachmentProtocolVersion), (''operation'', ''upload_ack''),
                                                 (''batch_id'', uf_BatchID frame), (''path'', path)])
                          (\<lambda>r. case r of Inl e \<Rightarrow> return_p (Leave (Some e) seen None)
                               | Inr _ \<Rightarrow> return_p (Go_on rest (st\<lparr>sv_seen := seen, sv_total := sv_total st + uf_Size frame, sv_first := False\<rparr>))))))))"

definition serve_cleanup :: "frame_codec \<Rightarrow> Gateway \<Rightarrow> bytes \<Rightarrow> serve_state \<Rightarrow> serve_turn prog" where
  "serve_cleanup fd g line st =
     (if \<not> sv_opened st \<or> sv_first st then return_p (leave_with st ''exact attachment cleanup requires open'')
      else (case fd_cleanup fd line of
          Inl e \<Rightarrow> return_p (leave_with st e)
        | Inr frame \<Rightarrow>
            (case CleanupFrame_Validate frame (gw_Identity g) of
               Some e \<Rightarrow> return_p (leave_with st e)
             | None \<Rightarrow>
                 then_p (cleanup fd g (sv_seen st)) (\<lambda>receipt.
                   try_p (writeJSONLine fd (receipt_fields receipt))
                     (\<lambda>r. return_p (Leave (case r of Inl e \<Rightarrow> Some e | Inr _ \<Rightarrow> None) (sv_seen st) (Some receipt)))))))"

definition read_line :: "bytes \<Rightarrow> bytes \<times> bytes \<times> bool" where
  "read_line input =
     (let line = takeWhile (\<lambda>c. c \<noteq> CHR 0x0A) input in
      case drop (length line) input of [] \<Rightarrow> (line, [], False) | c # rest \<Rightarrow> (line @ [c], rest, True))"

definition lease_over :: "Gateway \<Rightarrow> answer \<Rightarrow> bool" where
  "lease_over g answer =
     (case (answer, gw_LeaseExpiresAt g) of (Instant now, Some expires) \<Rightarrow> now > expires | _ \<Rightarrow> True)"

definition serve_one :: "frame_codec \<Rightarrow> Gateway \<Rightarrow> bool \<Rightarrow> bytes \<Rightarrow> serve_state \<Rightarrow> serve_turn prog" where
  "serve_one fd g broken input st =
     then_p (ask Clock) (\<lambda>now.
       if lease_over g now then return_p (leave_with st ''exact attachment lease expired'')
       else (case read_line input of (line, rest, complete) \<Rightarrow>
         if \<not> complete \<and> \<not> broken \<and> line = [] then return_p (Leave None (sv_seen st) None)
         else if \<not> complete \<and> broken then return_p (leave_with st ''exact attachment frame read failed'')
         else if \<not> complete \<or> int (length line) > MaxAttachmentHeaderBytes
         then return_p (leave_with st ''exact attachment frame is too large or incomplete'')
         else (case fd_operation fd (butlast line) of
             None \<Rightarrow> return_p (leave_with st ''invalid exact attachment frame'')
           | Some None \<Rightarrow> return_p (leave_with st ''invalid exact attachment operation'')
           | Some (Some operation) \<Rightarrow>
               if operation = ''open'' then serve_open fd g (butlast line) rest st
               else if operation = ''upload'' then serve_upload fd g (butlast line) rest st
               else if operation = ''cleanup'' then serve_cleanup fd g (butlast line) st
               else return_p (leave_with st ''unsupported exact attachment operation''))))"

fun serve_loop ::
  "nat \<Rightarrow> frame_codec \<Rightarrow> Gateway \<Rightarrow> bool \<Rightarrow> bytes \<Rightarrow> serve_state
   \<Rightarrow> (prog_error option \<times> string list \<times> CleanupReceipt option) option prog" where
  "serve_loop 0 fd g broken input st = return_p None"
| "serve_loop (Suc n) fd g broken input st =
     then_p (serve_one fd g broken input st) (\<lambda>t. case t of
       Leave e seen receipt \<Rightarrow> return_p (Some (e, seen, receipt))
     | Go_on rest st \<Rightarrow>
         then_p (ask PollContext) (\<lambda>cancelled.
           if cancelled \<noteq> Done then return_p (Some (Some (HostError PollContext cancelled), sv_seen st, None))
           else serve_loop n fd g broken rest st))"

definition gateway_authorized :: "Gateway \<Rightarrow> bool" where
  "gateway_authorized g =
     (identity_valid (gw_Identity g) \<and> gw_AccountPath g \<noteq> [] \<and> gw_ReceiptRoot g \<noteq> [] \<and> gw_LeaseExpiresAt g \<noteq> None
      \<and> gw_MaxBytes g > 0 \<and> gw_MaxBytes g \<le> MaxAttachmentBatchBytes \<and> gw_MaxEntries g > 0 \<and> gw_MaxEntries g \<le> MaxAttachmentEntries)"

text \<open>\<open>Serve\<close> returns its error, if any, and the receipts of the clean-ups it made.\<close>

definition serve_stream :: "frame_codec \<Rightarrow> Gateway \<Rightarrow> bool \<Rightarrow> bytes \<Rightarrow> (prog_error option \<times> CleanupReceipt list) prog" where
  "serve_stream fd g broken input =
     then_p (serve_loop (Suc (length input)) fd g broken input \<lparr>sv_first = True, sv_opened = False, sv_seen = [], sv_total = 0\<rparr>) (\<lambda>left.
       case left of
         None \<Rightarrow> refuse ''unfinished loop''
       | Some (e, seen, Some receipt) \<Rightarrow> return_p (e, [receipt])
       | Some (e, seen, None) \<Rightarrow> then_p (cleanup fd g seen) (\<lambda>receipt. return_p (e, [receipt])))"

definition Serve :: "frame_codec \<Rightarrow> Gateway \<Rightarrow> bool \<Rightarrow> bytes \<Rightarrow> (prog_error option \<times> CleanupReceipt list) prog" where
  "Serve fd g broken input =
     (if \<not> gateway_authorized g then refuse ''exact attachment gateway is not fully authorized''
      else before_p (writeJSONLine fd (lease_offer fd g)) (serve_stream fd g broken input))"

subsection \<open>Identifiers\<close>

lemma hex_digit_lower: "n < 16 \<Longrightarrow> lower_hex (hex_digit n)"
  by (auto simp: lower_hex_def hex_digit_def Let_def)

lemma byte_digits [simp]:
  "lower_hex (hex_digit (of_char c div 16))" "lower_hex (hex_digit (of_char c mod 16))" for c :: char
  using less_mult_imp_div_less [of "of_char c :: nat" 16 16] by (simp_all add: hex_digit_lower)

lemma hex_encode_lower: "list_all lower_hex (hex_encode bs)"
  by (induction bs) (simp_all add: hex_encode_def)

lemma length_hex_encode [simp]: "length (hex_encode bs) = 2 * length bs"
  by (induction bs) (simp_all add: hex_encode_def)

lemma uuid_group:
  assumes "list_all lower_hex s" "\<forall>k. i \<le> k \<and> k < j \<longrightarrow> k \<noteq> 8 \<and> k \<noteq> 13 \<and> k \<noteq> 18 \<and> k \<noteq> 23"
  shows "list_all uuid_char (zip [i..<j] s)"
proof -
  have "uuid_char (k, c)" if "(k, c) \<in> set (zip [i..<j] s)" for k c
  proof -
    have "i \<le> k" "k < j" "lower_hex c" using that assms(1) by (auto simp: list_all_iff dest: set_zip_leftD set_zip_rightD)
    then show ?thesis using assms(2) by (simp add: uuid_char_def)
  qed
  then show ?thesis by (auto simp: list_all_iff)
qed

lemma zip_groups:
  assumes "length A = length a" "length B = length b" "length C = length c" "length D = length d" "length E = length e"
  shows "zip (A @ [p] @ B @ [q] @ C @ [r] @ D @ [s] @ E) (a @ ''-'' @ b @ ''-'' @ c @ ''-'' @ d @ ''-'' @ e) =
    zip A a @ [(p, CHR ''-'')] @ zip B b @ [(q, CHR ''-'')] @ zip C c @ [(r, CHR ''-'')] @ zip D d @ [(s, CHR ''-'')] @ zip E e"
  using assms by simp

lemma uuid_groups:
  assumes "length a = 8" "length b = 4" "length c = 4" "length d = 4" "length e = 12"
    and "list_all lower_hex a" "list_all lower_hex b" "list_all lower_hex c" "list_all lower_hex d" "list_all lower_hex e"
  shows "list_all uuid_char (zip [0..<36] (a @ ''-'' @ b @ ''-'' @ c @ ''-'' @ d @ ''-'' @ e))"
proof -
  have split: "[0..<36] = [0..<8] @ [8] @ [9..<13] @ [13] @ [14..<18] @ [18] @ [19..<23] @ [23] @ [24..<36]" by code_simp
  have dash: "uuid_char (8, CHR ''-'')" "uuid_char (13, CHR ''-'')" "uuid_char (18, CHR ''-'')" "uuid_char (23, CHR ''-'')"
    by (simp_all add: uuid_char_def)
  have groups: "list_all uuid_char (zip [0..<8] a)" "list_all uuid_char (zip [9..<13] b)" "list_all uuid_char (zip [14..<18] c)"
    "list_all uuid_char (zip [19..<23] d)" "list_all uuid_char (zip [24..<36] e)"
    by (rule uuid_group, rule assms, presburger)+
  have "zip [0..<36] (a @ ''-'' @ b @ ''-'' @ c @ ''-'' @ d @ ''-'' @ e) =
      zip [0..<8] a @ [(8, CHR ''-'')] @ zip [9..<13] b @ [(13, CHR ''-'')] @ zip [14..<18] c @ [(18, CHR ''-'')]
      @ zip [19..<23] d @ [(23, CHR ''-'')] @ zip [24..<36] e"
    unfolding split by (rule zip_groups) (simp_all add: assms(1-5))
  then show ?thesis using groups dash by (simp only: list_all_append list.pred_inject simp_thms)
qed

lemma uuid_version: "hex_digit ((n mod 16 + 64) div 16) = CHR ''4''"
proof -
  have "(n mod 16 + 64) div 16 = 4" by presburger
  moreover have "hex_digit 4 = CHR ''4''" by code_simp
  ultimately show ?thesis by simp
qed

lemma uuid_text_canonical:
  assumes "length bs = 16"
  shows "canonicalUUID (uuid_text bs)"
proof -
  define bs' where "bs' = bs[6 := char_of (of_char (bs ! 6) mod 16 + 64 :: nat), 8 := char_of (of_char (bs ! 8) mod 64 + 128 :: nat)]"
  have len: "length bs' = 16" using assms by (simp add: bs'_def)
  have groups: "uuid_text bs = hex_encode (take 4 bs') @ ''-'' @ hex_encode (take 2 (drop 4 bs')) @ ''-'' @ hex_encode (take 2 (drop 6 bs'))
      @ ''-'' @ hex_encode (take 2 (drop 8 bs')) @ ''-'' @ hex_encode (take 6 (drop 10 bs'))"
    by (simp add: uuid_text_def bs'_def Let_def)
  have "drop 6 bs' = bs' ! 6 # drop 7 bs'" using len Cons_nth_drop_Suc [of 6 bs'] by simp
  moreover have "bs' ! 6 = char_of (of_char (bs ! 6) mod 16 + 64 :: nat)" using assms by (simp add: bs'_def)
  ultimately obtain rest where "hex_encode (take 2 (drop 6 bs')) = CHR ''4'' # rest" by (simp add: hex_encode_def uuid_version)
  moreover have "uuid_text bs ! 14 = hex_encode (take 2 (drop 6 bs')) ! 0" unfolding groups using len by (simp add: nth_append)
  ultimately have "uuid_text bs ! 14 = CHR ''4''" by simp
  then have "uuid_text bs \<noteq> ''00000000-0000-0000-0000-000000000000''" by auto
  moreover have "length (uuid_text bs) = 36" unfolding groups using len by simp
  moreover have "list_all uuid_char (zip [0..<36] (uuid_text bs))"
    unfolding groups by (rule uuid_groups) (simp_all add: len hex_encode_lower)
  ultimately show ?thesis by (simp add: canonicalUUID_def)
qed

lemma newUUID_ok: "succeeds newUUID" "returns canonicalUUID newUUID"
proof -
  have "canonicalUUID ''00000000-0000-4000-8000-000000000001''" by code_simp
  then show "succeeds newUUID" "returns canonicalUUID newUUID"
    unfolding newUUID_def by (auto intro!: result_rules simp: uuid_text_canonical split: answer.splits)
qed

subsection \<open>Every stream is cleaned up\<close>

definition receipt_ok :: "Gateway \<Rightarrow> CleanupReceipt \<Rightarrow> bool" where
  "receipt_ok g r \<longleftrightarrow> CleanupReceipt_Validate AttachmentProtocolVersion ''cleanup_receipt'' r (gw_Identity g) = None"

lemma receipt_ok_iff:
  "receipt_ok g r \<longleftrightarrow> rc_Identity r = gw_Identity g \<and> canonicalUUID (rc_ReceiptID r) \<and> 0 \<le> rc_RemovedBatches r
     \<and> rc_RemovedBatches r \<le> MaxAttachmentEntries \<and> rc_Status r \<in> {''cleaned'', ''pending'', ''unknown'', ''rejected''}"
  by (auto simp: receipt_ok_def CleanupReceipt_Validate_def)

lemma cleanup_succeeds: "succeeds (cleanup fd g batches)"
  unfolding cleanup_def Let_def by (intro result_rules newUUID_ok) (auto intro!: result_rules)

lemma cleanup_receipt:
  assumes "int (length batches) \<le> MaxAttachmentEntries"
  shows "returns (receipt_ok g) (cleanup fd g batches)"
  unfolding cleanup_def Let_def
proof (rule returns_try, rule returns_then_of [OF newUUID_ok(2)], goal_cases)
  case (1 removal receiptID)
  then show ?case using assms
    by (auto intro!: result_rules simp: receipt_ok_iff MaxAttachmentEntries_def)
qed

definition turn_ok :: "Gateway \<Rightarrow> bytes \<Rightarrow> serve_turn \<Rightarrow> bool" where
  "turn_ok g input t = (case t of
     Leave e seen receipt \<Rightarrow> int (length seen) \<le> gw_MaxEntries g \<and> pred_option (receipt_ok g) receipt
   | Go_on rest st \<Rightarrow> length rest < length input \<and> int (length (sv_seen st)) \<le> gw_MaxEntries g)"

lemma turn_ok_simps [simp]:
  "turn_ok g input (Leave e seen receipt) \<longleftrightarrow> int (length seen) \<le> gw_MaxEntries g \<and> pred_option (receipt_ok g) receipt"
  "turn_ok g input (leave_with st m) \<longleftrightarrow> int (length (sv_seen st)) \<le> gw_MaxEntries g"
  "turn_ok g input (Go_on rest st) \<longleftrightarrow> length rest < length input \<and> int (length (sv_seen st)) \<le> gw_MaxEntries g"
  by (simp_all add: turn_ok_def leave_with_def)

lemma read_line_rest: "read_line input = (line, rest, True) \<Longrightarrow> length rest < length input"
proof -
  assume "read_line input = (line, rest, True)"
  then obtain c where "drop (length (takeWhile (\<lambda>c. c \<noteq> CHR 0x0A) input)) input = c # rest"
    by (auto simp: read_line_def Let_def split: list.splits)
  then have "Suc (length rest) = length input - length (takeWhile (\<lambda>c. c \<noteq> CHR 0x0A) input)"
    by (metis length_Cons length_drop)
  then show ?thesis by linarith
qed

lemma receiveUpload_rest: "returns (\<lambda>r. length (snd r) \<le> length rest) (receiveUpload fd g rest frame)"
  unfolding receiveUpload_def Let_def by (auto intro!: result_rules)

lemma turn_succeeds:
  "succeeds (serve_open fd g line rest st)" "succeeds (serve_upload fd g line rest st)" "succeeds (serve_cleanup fd g line st)"
  by (auto simp: serve_open_def serve_upload_def serve_cleanup_def Let_def intro!: result_rules cleanup_succeeds
      split: sum.splits option.splits)

lemma serve_one_succeeds: "succeeds (serve_one fd g broken input st)"
proof -
  obtain line rest complete where rl: "read_line input = (line, rest, complete)" by (cases "read_line input") auto
  have "succeeds (case fd_operation fd (butlast line) of
      None \<Rightarrow> return_p (leave_with st m)
    | Some None \<Rightarrow> return_p (leave_with st n)
    | Some (Some operation) \<Rightarrow>
        if operation = ''open'' then serve_open fd g (butlast line) rest st
        else if operation = ''upload'' then serve_upload fd g (butlast line) rest st
        else if operation = ''cleanup'' then serve_cleanup fd g (butlast line) st
        else return_p (leave_with st k))" for m n k
    by (simp add: turn_succeeds succeeds_return split: option.split)
  then show ?thesis unfolding serve_one_def rl prod.case
    by (intro succeeds_then succeeds_ask) (simp add: succeeds_return)
qed

lemma open_turn:
  "int (length (sv_seen st)) \<le> gw_MaxEntries g \<Longrightarrow> length rest < length input \<Longrightarrow> returns (turn_ok g input) (serve_open fd g line rest st)"
  by (auto simp: serve_open_def intro!: result_rules split: sum.splits option.splits)

lemma upload_turn:
  assumes "int (length (sv_seen st)) \<le> gw_MaxEntries g" "length rest < length input"
  shows "returns (turn_ok g input) (serve_upload fd g line rest st)"
proof -
  have "returns (turn_ok g input) (try_p (receiveUpload fd g rest frame) (\<lambda>received. case received of
        Inl e \<Rightarrow> return_p (Leave (Some e) (sv_seen st) None)
      | Inr (path, rest) \<Rightarrow> try_p (writeJSONLine fd (ack path)) (\<lambda>r. case r of
            Inl e \<Rightarrow> return_p (Leave (Some e) (uf_BatchID frame # sv_seen st) None)
          | Inr _ \<Rightarrow> return_p (Go_on rest (st\<lparr>sv_seen := uf_BatchID frame # sv_seen st, sv_total := sv_total st + uf_Size frame, sv_first := False\<rparr>)))))"
    if "\<not> int (length (sv_seen st)) \<ge> gw_MaxEntries g" for frame ack
    by (rule returns_try_of [OF receiveUpload_rest])
       (use assms that in \<open>auto intro!: result_rules split: sum.splits prod.splits\<close>)
  then show ?thesis using assms
    unfolding serve_upload_def Let_def by (auto intro!: result_rules split: sum.splits option.splits)
qed

lemma cleanup_turn:
  assumes "int (length (sv_seen st)) \<le> gw_MaxEntries g" "gw_MaxEntries g \<le> MaxAttachmentEntries"
  shows "returns (turn_ok g input) (serve_cleanup fd g line st)"
proof -
  have "returns (turn_ok g input) (then_p (cleanup fd g (sv_seen st)) (\<lambda>receipt.
      try_p (writeJSONLine fd (receipt_fields receipt))
        (\<lambda>r. return_p (Leave (case r of Inl e \<Rightarrow> Some e | Inr _ \<Rightarrow> None) (sv_seen st) (Some receipt)))))"
    by (rule returns_then_of [OF cleanup_receipt]) (use assms in \<open>auto intro!: result_rules\<close>)
  then show ?thesis using assms unfolding serve_cleanup_def by (auto intro!: result_rules split: sum.splits option.splits)
qed

lemma serve_one_turn:
  assumes "int (length (sv_seen st)) \<le> gw_MaxEntries g" "gw_MaxEntries g \<le> MaxAttachmentEntries"
  shows "returns (turn_ok g input) (serve_one fd g broken input st)"
proof -
  obtain line rest complete where rl: "read_line input = (line, rest, complete)" by (cases "read_line input") auto
  have leave: "returns (turn_ok g input) (return_p (leave_with st m))" for m
    using assms(1) by (simp add: returns_return)
  have "returns (turn_ok g input) (case fd_operation fd (butlast line) of
      None \<Rightarrow> return_p (leave_with st m)
    | Some None \<Rightarrow> return_p (leave_with st n)
    | Some (Some operation) \<Rightarrow>
        if operation = ''open'' then serve_open fd g (butlast line) rest st
        else if operation = ''upload'' then serve_upload fd g (butlast line) rest st
        else if operation = ''cleanup'' then serve_cleanup fd g (butlast line) st
        else return_p (leave_with st k))" if complete for m n k
    using read_line_rest rl that assms
    by (simp add: open_turn upload_turn cleanup_turn leave split: option.split)
  moreover have "returns (turn_ok g input) (return_p (Leave None (sv_seen st) None))"
    using assms(1) by (simp add: returns_return)
  ultimately show ?thesis unfolding serve_one_def rl prod.case
    by (intro returns_then) (simp add: leave)
qed

definition left_ok :: "Gateway \<Rightarrow> (prog_error option \<times> string list \<times> CleanupReceipt option) option \<Rightarrow> bool" where
  "left_ok g r \<longleftrightarrow> (\<exists>e seen receipt. r = Some (e, seen, receipt) \<and> int (length seen) \<le> gw_MaxEntries g \<and> pred_option (receipt_ok g) receipt)"

lemma serve_loop_ok:
  assumes "gw_MaxEntries g \<le> MaxAttachmentEntries"
  shows "length input < n \<Longrightarrow> int (length (sv_seen st)) \<le> gw_MaxEntries g \<Longrightarrow>
    succeeds (serve_loop n fd g broken input st) \<and> returns (left_ok g) (serve_loop n fd g broken input st)"
proof (induction n arbitrary: input st)
  case (Suc n)
  note turn = serve_one_turn [OF Suc.prems(2) assms, of input fd broken]
  define after where "after = (\<lambda>t. case t of
       Leave e seen receipt \<Rightarrow> return_p (Some (e, seen, receipt))
     | Go_on rest st \<Rightarrow>
         then_p (ask PollContext) (\<lambda>cancelled.
           if cancelled \<noteq> Done then return_p (Some (Some (HostError PollContext cancelled), sv_seen st, None))
           else serve_loop n fd g broken rest st))"
  have loop: "serve_loop (Suc n) fd g broken input st = then_p (serve_one fd g broken input st) after"
    by (simp add: after_def)
  have after: "succeeds (after t) \<and> returns (left_ok g) (after t)" if "turn_ok g input t" for t
  proof (cases t)
    case (Leave e seen receipt)
    then show ?thesis using that by (auto simp: after_def left_ok_def intro!: result_rules)
  next
    case (Go_on rest st')
    then have "length rest < n" "int (length (sv_seen st')) \<le> gw_MaxEntries g" using that Suc.prems(1) by simp_all
    moreover from Suc.IH [OF this] have "succeeds (serve_loop n fd g broken rest st')" "returns (left_ok g) (serve_loop n fd g broken rest st')"
      by simp_all
    ultimately show ?thesis using Go_on by (auto simp: after_def left_ok_def intro!: result_rules)
  qed
  have "succeeds (then_p (serve_one fd g broken input st) after)"
    by (rule succeeds_then_of [OF serve_one_succeeds turn]) (simp add: after)
  moreover have "returns (left_ok g) (then_p (serve_one fd g broken input st) after)"
    by (rule returns_then_of [OF turn]) (simp add: after)
  ultimately show ?case unfolding loop by simp
qed simp

lemma serve_stream_ok:
  assumes "gateway_authorized g"
  shows "succeeds (serve_stream fd g broken input)"
    "returns (\<lambda>r. \<exists>receipt. snd r = [receipt] \<and> receipt_ok g receipt) (serve_stream fd g broken input)"
proof -
  have max: "gw_MaxEntries g \<le> MaxAttachmentEntries" "gw_MaxEntries g > 0" using assms(1) by (simp_all add: gateway_authorized_def)
  let ?loop = "serve_loop (Suc (length input)) fd g broken input \<lparr>sv_first = True, sv_opened = False, sv_seen = [], sv_total = 0\<rparr>"
  have "succeeds ?loop \<and> returns (left_ok g) ?loop" by (rule serve_loop_ok [OF max(1)]) (use max(2) in simp_all)
  then have loop: "succeeds ?loop" "returns (left_ok g) ?loop" by (rule conjunct1, rule conjunct2)
  have run: "succeeds (then_p (cleanup fd g seen) (\<lambda>receipt. return_p (e, [receipt])))" for seen and e :: "prog_error option"
    by (intro succeeds_then cleanup_succeeds succeeds_return)
  have result: "returns (\<lambda>r. \<exists>receipt. snd r = [receipt] \<and> receipt_ok g receipt) (then_p (cleanup fd g seen) (\<lambda>receipt. return_p (e, [receipt])))"
    if "int (length seen) \<le> gw_MaxEntries g" for seen and e :: "prog_error option"
    by (rule returns_then_of [OF cleanup_receipt]) (use that max in \<open>auto intro!: result_rules\<close>)
  show "succeeds (serve_stream fd g broken input)" unfolding serve_stream_def
    by (rule succeeds_then_of [OF loop]) (auto simp: left_ok_def succeeds_return run split: option.split)
  show "returns (\<lambda>r. \<exists>receipt. snd r = [receipt] \<and> receipt_ok g receipt) (serve_stream fd g broken input)" unfolding serve_stream_def
    by (rule returns_then_of [OF loop(2)]) (auto simp: left_ok_def result intro!: returns_return split: option.split)
qed

subsection \<open>Properties of the gateway\<close>


text \<open>
  C35: what the byte limit of a gateway bounds. As long as the limit is not used up, an accepted
  upload keeps the total within it. Once it is used up, the remainder passed to the validation is
  no longer positive, the comparison with it is skipped, and every upload up to the protocol's
  own maximum is accepted again.
\<close>

theorem byte_limit_until_exhausted:
  "returns (\<lambda>t. case t of Leave _ _ _ \<Rightarrow> True | Go_on _ st' \<Rightarrow>
       sv_total st < sv_total st' \<and> sv_total st' \<le> (if sv_total st < gw_MaxBytes g then gw_MaxBytes g else sv_total st + MaxAttachmentBatchBytes))
     (serve_upload fd g line rest st)
   \<and> (gw_MaxBytes g \<le> sv_total st \<longrightarrow>
       UploadFrame_Validate f (gw_Identity g) (gw_MaxBytes g - sv_total st) n = UploadFrame_Validate f (gw_Identity g) MaxAttachmentBatchBytes n)"
proof (intro conjI impI)
  show "gw_MaxBytes g \<le> sv_total st \<Longrightarrow>
      UploadFrame_Validate f (gw_Identity g) (gw_MaxBytes g - sv_total st) n = UploadFrame_Validate f (gw_Identity g) MaxAttachmentBatchBytes n"
    by (auto simp: UploadFrame_Validate_def)
  have "0 < uf_Size f" "uf_Size f \<le> MaxAttachmentBatchBytes" "0 < gw_MaxBytes g - sv_total st \<Longrightarrow> uf_Size f \<le> gw_MaxBytes g - sv_total st"
    if "UploadFrame_Validate f (gw_Identity g) (gw_MaxBytes g - sv_total st) k = None" for f k
    using that by (auto simp: UploadFrame_Validate_def split: if_splits)
  then show "returns (\<lambda>t. case t of Leave _ _ _ \<Rightarrow> True | Go_on _ st' \<Rightarrow>
       sv_total st < sv_total st' \<and> sv_total st' \<le> (if sv_total st < gw_MaxBytes g then gw_MaxBytes g else sv_total st + MaxAttachmentBatchBytes))
     (serve_upload fd g line rest st)"
    unfolding serve_upload_def Let_def
    by (auto simp: leave_with_def intro!: result_rules split: sum.splits option.splits prod.splits) (fastforce simp: algebra_simps)+
qed

subsection \<open>A stream\<close>

definition sample_id :: string where
  "sample_id = ''11111111-1111-4111-8111-111111111111''"

definition sample_gateway :: Gateway where
  "sample_gateway = \<lparr>gw_Identity = \<lparr>ti_NodeID = sample_id, ti_SessionID = sample_id, ti_ExpectedDeviceID = sample_id,
       ti_SSHKeyID = sample_id, ti_LeaseID = sample_id\<rparr>, gw_AccountPath = ''/srv/a'', gw_LeaseExpiresAt = Some 100,
     gw_MaxBytes = 1, gw_MaxEntries = 4, gw_ReceiptRoot = ''/srv/r'', gw_CleanupHook = True\<rparr>"

definition sample_upload :: "string \<Rightarrow> UploadFrame" where
  "sample_upload batch = \<lparr>uf_Version = 1, uf_Operation = ''upload'', uf_SessionID = sample_id, uf_ExpectedDeviceID = sample_id,
     uf_LeaseID = sample_id, uf_BatchID = batch, uf_Kind = ''file'', uf_Name = ''n'', uf_Size = 1, uf_SHA256 = replicate 64 CHR ''0''\<rparr>"

definition sample_codec :: frame_codec where
  "sample_codec = \<lparr>fd_operation = (\<lambda>line. Some (Some (if line = ''o'' then ''open'' else ''upload''))),
     fd_open = (\<lambda>_. Inr \<lparr>of_Version = 1, of_Operation = ''open'', of_SessionID = sample_id, of_ExpectedDeviceID = sample_id, of_LeaseID = sample_id\<rparr>),
     fd_upload = (\<lambda>line. Inr (sample_upload (if line = ''u'' then ''22222222-2222-4222-8222-222222222222'' else ''33333333-3333-4333-8333-333333333333''))),
     fd_cleanup = (\<lambda>_. Inl []), fd_length = length, fd_receipt = (\<lambda>_. []), fd_sha = (\<lambda>_. replicate 32 NUL), fd_time = (\<lambda>_. []), fd_cwd = ''/''\<rparr>"

definition quiet_host :: host where
  "quiet_host log c = (case c of Clock \<Rightarrow> Instant 0 | Lstat _ \<Rightarrow> Node Directory | CreateTemp _ _ \<Rightarrow> Instant 7 | _ \<Rightarrow> Done)"

definition sample_input :: bytes where
  "sample_input = [CHR ''o'', CHR 0x0A, CHR ''u'', CHR 0x0A, CHR ''x'', CHR ''v'', CHR 0x0A, CHR ''y'']"

lemma sample_offer:
  "gateway_authorized sample_gateway" "writeJSONLine sample_codec (lease_offer sample_codec sample_gateway) quiet_host [] =
     ([Send (lease_offer sample_codec sample_gateway)], Inr ())"
  by code_simp+


definition acknowledged :: "string \<Rightarrow> call list \<Rightarrow> bool" where
  "acknowledged batch calls =
     list_ex (\<lambda>c. case c of Send m \<Rightarrow> take 3 m = [(''version'', ''1''), (''operation'', ''upload_ack''), (''batch_id'', batch)] | _ \<Rightarrow> False) calls"

lemma sample_acks:
  "let sent = fst (Serve sample_codec sample_gateway False sample_input quiet_host []) in
   acknowledged ''22222222-2222-4222-8222-222222222222'' sent \<and> acknowledged ''33333333-3333-4333-8333-333333333333'' sent"
  by code_simp

theorem byte_limit_until_exhausted_witness:
  "gw_MaxBytes sample_gateway = 1 \<and> uf_Size (sample_upload sample_id) = 1
   \<and> acknowledged ''22222222-2222-4222-8222-222222222222'' (fst (Serve sample_codec sample_gateway False sample_input quiet_host []))
   \<and> acknowledged ''33333333-3333-4333-8333-333333333333'' (fst (Serve sample_codec sample_gateway False sample_input quiet_host []))
   \<and> UploadFrame_Validate (sample_upload sample_id) (gw_Identity sample_gateway) 0 3 =
     UploadFrame_Validate (sample_upload sample_id) (gw_Identity sample_gateway) MaxAttachmentBatchBytes 3"
proof -
  have limit: "gw_MaxBytes sample_gateway = 1" "uf_Size (sample_upload sample_id) = 1"
    by (simp_all add: sample_gateway_def sample_upload_def)
  moreover have "UploadFrame_Validate (sample_upload sample_id) (gw_Identity sample_gateway) 0 3 =
     UploadFrame_Validate (sample_upload sample_id) (gw_Identity sample_gateway) MaxAttachmentBatchBytes 3"
    using conjunct2 [OF byte_limit_until_exhausted [of "\<lparr>sv_first = False, sv_opened = True, sv_seen = [], sv_total = 1\<rparr>" sample_gateway
        sample_codec "[]" "[]" "sample_upload sample_id" 3]] limit by simp
  ultimately show ?thesis using sample_acks unfolding Let_def by blast
qed

end
