(* ===== verification/Wireguard.thy ===== *)
theory Wireguard
  imports Wire "HOL-Library.Multiset" "HOL-Library.List_Lexorder" "HOL-Library.Char_ord"
begin

section \<open>WireGuard peers\<close>

text \<open>
  \<open>wireguard/wireguard.go\<close>: validating the peers of a task and rendering the configuration for
  \<open>wg syncconf\<close>. The peers as \<open>encoding/json\<close> reads them are an argument. Keys are in the standard
  base64 alphabet with padding; addresses are read as \<open>net/netip\<close> documents it.
\<close>

subsection \<open>Keys\<close>

definition std_char :: "char \<Rightarrow> char" where
  "std_char c = (if c = CHR ''-'' then CHR ''+'' else if c = CHR ''_'' then CHR ''/'' else c)"

definition url_char :: "char \<Rightarrow> char" where
  "url_char c = (if c = CHR ''+'' then CHR ''-'' else if c = CHR ''/'' then CHR ''_'' else c)"

definition std_encode :: "bytes \<Rightarrow> string" where
  "std_encode bs = map std_char (b64_encode bs) @ replicate ((3 - length bs mod 3) mod 3) (CHR ''='')"

text \<open>\<open>StdEncoding.DecodeString\<close>: line ends are ignored, the padding must be complete.\<close>

definition std_decode :: "string \<Rightarrow> bytes option" where
  "std_decode s =
     (let s = filter (\<lambda>c. c \<noteq> CHR 0x0A \<and> c \<noteq> CHR 0x0D) s;
          body = rev (dropWhile (\<lambda>c. c = CHR ''='') (rev s)) in
      if length s mod 4 \<noteq> 0 \<or> length s - length body > 2 \<or> CHR ''-'' \<in> set body \<or> CHR ''_'' \<in> set body then None
      else b64_decode (map url_char body))"

definition ValidateKey :: "string \<Rightarrow> bool" where
  "ValidateKey v = (case std_decode v of None \<Rightarrow> False | Some decoded \<Rightarrow> length decoded = 32 \<and> std_encode decoded = v)"

subsection \<open>Addresses\<close>

definition is_digit :: "char \<Rightarrow> bool" where
  "is_digit c = (let n = (of_char c :: nat) in 48 \<le> n \<and> n \<le> 57)"

definition parse_octet :: "string \<Rightarrow> nat option" where
  "parse_octet s =
     (if s = [] \<or> \<not> list_all is_digit s \<or> (length s > 1 \<and> hd s = CHR ''0'') \<or> read_nat s > 255 then None else Some (read_nat s))"

definition parse_bits :: "string \<Rightarrow> nat option" where
  "parse_bits s =
     (if s = [] \<or> \<not> list_all is_digit s \<or> (length s > 1 \<and> hd s = CHR ''0'') \<or> read_nat s > 32 then None else Some (read_nat s))"

text \<open>
  \<open>netip.ParsePrefix\<close> on the prefixes with an IPv4 address; every other string is no prefix or has
  an IPv6 address, and the caller refuses both.
\<close>

definition parse_ipv4_prefix :: "string \<Rightarrow> (nat list \<times> nat) option" where
  "parse_ipv4_prefix s =
     (let tail = takeWhile (\<lambda>c. c \<noteq> CHR ''/'') (rev s) in
      if length tail = length s then None
      else (let octets = map parse_octet (split_on (CHR ''.'') (take (length s - length tail - 1) s)) in
            case parse_bits (rev tail) of
              None \<Rightarrow> None
            | Some bits \<Rightarrow> if length octets \<noteq> 4 \<or> None \<in> set octets then None else Some (map the octets, bits)))"

definition address_value :: "nat list \<Rightarrow> nat" where
  "address_value octets = foldl (\<lambda>n b. 256 * n + b) 0 octets"

definition masked_value :: "nat list \<Rightarrow> nat \<Rightarrow> nat" where
  "masked_value octets bits = address_value octets div 2 ^ (32 - bits) * 2 ^ (32 - bits)"

definition prefix_string :: "nat list \<times> nat \<Rightarrow> string" where
  "prefix_string p = (case p of (octets, bits) \<Rightarrow> join_with (CHR ''.'') (map format_nat octets) @ ''/'' @ format_nat bits)"

subsection \<open>The payload\<close>

definition maxPeers :: nat where "maxPeers = 4096"

record Peer =
  wp_PublicKey :: string
  wp_AllowedIPs :: "string list"

datatype wg_error = WgInvalid | WgTooMany | WgKey | WgDuplicateKey | WgNoIP | WgPrefix | WgDuplicateIP | WgPrivateKey | WgPort

fun check_ips :: "string list \<Rightarrow> string list \<Rightarrow> wg_error + string list \<times> string list" where
  "check_ips seenIPs [] = Inr ([], seenIPs)"
| "check_ips seenIPs (v # rest) =
     (case parse_ipv4_prefix v of
        None \<Rightarrow> Inl WgPrefix
      | Some (octets, bits) \<Rightarrow>
          if bits \<noteq> 32 \<or> address_value octets \<noteq> masked_value octets bits then Inl WgPrefix
          else (let normalized = prefix_string (octets, bits) in
                if normalized \<in> set seenIPs then Inl WgDuplicateIP
                else (case check_ips (normalized # seenIPs) rest of
                        Inl e \<Rightarrow> Inl e | Inr (ips, seen) \<Rightarrow> Inr (normalized # ips, seen))))"

fun check_peers :: "string list \<Rightarrow> string list \<Rightarrow> Peer list \<Rightarrow> wg_error + Peer list" where
  "check_peers seenKeys seenIPs [] = Inr []"
| "check_peers seenKeys seenIPs (peer # rest) =
     (if \<not> ValidateKey (wp_PublicKey peer) then Inl WgKey
      else if wp_PublicKey peer \<in> set seenKeys then Inl WgDuplicateKey
      else if wp_AllowedIPs peer = [] then Inl WgNoIP
      else (case check_ips seenIPs (wp_AllowedIPs peer) of
              Inl e \<Rightarrow> Inl e
            | Inr (ips, seenIPs) \<Rightarrow>
                (case check_peers (wp_PublicKey peer # seenKeys) seenIPs rest of
                   Inl e \<Rightarrow> Inl e
                 | Inr peers \<Rightarrow> Inr (peer\<lparr>wp_AllowedIPs := sort ips\<rparr> # peers))))"

definition DecodeSyncPayload :: "Peer list option \<Rightarrow> wg_error + Peer list" where
  "DecodeSyncPayload unmarshalled =
     (case unmarshalled of
        None \<Rightarrow> Inl WgInvalid
      | Some peers \<Rightarrow>
          if length peers > maxPeers then Inl WgTooMany
          else map_sum id (sort_key wp_PublicKey) (check_peers [] [] peers))"

fun join_ips :: "string list \<Rightarrow> string" where
  "join_ips [] = []"
| "join_ips [ip] = ip"
| "join_ips (ip # ips) = ip @ '', '' @ join_ips ips"

definition render_peer :: "Peer \<Rightarrow> string" where
  "render_peer peer =
     LF # ''[Peer]'' @ LF # ''PublicKey = '' @ wp_PublicKey peer @ LF # ''AllowedIPs = '' @ join_ips (wp_AllowedIPs peer) @ [LF]"

definition RenderSyncConfig :: "string \<Rightarrow> int \<Rightarrow> Peer list \<Rightarrow> wg_error + string" where
  "RenderSyncConfig privateKey listenPort peers =
     (if \<not> ValidateKey (trimSpace privateKey) then Inl WgPrivateKey
      else if listenPort < 1 \<or> listenPort > 65535 then Inl WgPort
      else Inr (''[Interface]'' @ LF # ''PrivateKey = '' @ trimSpace privateKey @ LF # ''ListenPort = '' @ format_int listenPort @ [LF]
                @ concat (map render_peer peers)))"

definition interface_char :: "char \<Rightarrow> bool" where
  "interface_char c =
     (let n = (of_char c :: nat) in (65 \<le> n \<and> n \<le> 90) \<or> (97 \<le> n \<and> n \<le> 122) \<or> (48 \<le> n \<and> n \<le> 57) \<or> c \<in> set ''_=+.-'')"

definition ValidateInterface :: "string \<Rightarrow> bool" where
  "ValidateInterface v = (1 \<le> length v \<and> length v \<le> 15 \<and> list_all interface_char v)"

subsection \<open>Well-formed peers\<close>

definition wf_ip :: "string \<Rightarrow> bool" where
  "wf_ip ip \<longleftrightarrow> (\<exists>a b c d. a < 256 \<and> b < 256 \<and> c < 256 \<and> d < 256 \<and> ip = prefix_string ([a, b, c, d], 32))"

definition wf_key :: "string \<Rightarrow> bool" where
  "wf_key key \<longleftrightarrow> (\<exists>bs. length bs = 32 \<and> key = std_encode bs)"

lemma length_sextets: "length (sextets xs) = (4 * length xs + 2) div 3"
  by (induction xs rule: sextets.induct) auto

lemma std_char_facts:
  assumes "n < 64"
  shows "url_char (std_char (b64_char n)) = b64_char n"
    "std_char (b64_char n) \<notin> set [CHR 0x0A, CHR 0x0D, CHR ''='', CHR ''-'', CHR ''_'']"
proof -
  have no: "b64_char n \<noteq> c" if "(of_char c :: nat) < 45 \<or> (45 < (of_char c :: nat) \<and> (of_char c :: nat) < 48) \<or> (57 < (of_char c :: nat) \<and> (of_char c :: nat) < 65)" for c
    using that of_char_b64_char [OF assms] by (auto split: if_splits)
  show "url_char (std_char (b64_char n)) = b64_char n"
    using no [of "CHR ''+''"] no [of "CHR ''/''"] by (simp add: url_char_def std_char_def)
  show "std_char (b64_char n) \<notin> set [CHR 0x0A, CHR 0x0D, CHR ''='', CHR ''-'', CHR ''_'']"
    using no [of "CHR 0x0A"] no [of "CHR 0x0D"] no [of "CHR ''=''"] by (simp add: std_char_def)
qed

text \<open>The encoding of 32 bytes is read back, so the check accepts exactly the canonical keys.\<close>

lemma std_decode_encode:
  assumes "length bs = 32"
  shows "std_decode (std_encode bs) = Some bs"
proof -
  let ?b = "map std_char (b64_encode bs)"
  have chars: "c \<notin> set [CHR 0x0A, CHR 0x0D, CHR ''='', CHR ''-'', CHR ''_'']" if "c \<in> set ?b" for c
    using that std_char_facts(2) sextets_lt [of "map of_char bs"] by (fastforce simp: b64_encode_def)
  have enc: "std_encode bs = ?b @ [CHR ''='']" using assms by (simp add: std_encode_def)
  have filt: "filter (\<lambda>c. c \<noteq> CHR 0x0A \<and> c \<noteq> CHR 0x0D) (?b @ [CHR ''='']) = ?b @ [CHR ''='']"
    using chars by (intro filter_True) auto
  have len: "length ?b = 43" using assms by (simp add: b64_encode_def length_sextets)
  have "dropWhile (\<lambda>c. c = CHR ''='') (rev ?b) = rev ?b"
    using chars [of "hd (rev ?b)"] len by (intro dropWhile_eq_self_iff [THEN iffD2]) (metis hd_in_set list.set_intros(1) list.set_intros(2) set_rev)
  moreover have "map url_char ?b = b64_encode bs"
    using std_char_facts(1) sextets_lt [of "map of_char bs"] by (auto simp: b64_encode_def)
  moreover have "CHR ''-'' \<notin> set ?b" "CHR ''_'' \<notin> set ?b" using chars [of "CHR ''-''"] chars [of "CHR ''_''"] by auto
  ultimately show ?thesis
    using len unfolding std_decode_def enc Let_def filt by (simp add: b64_decode_encode del: map_map)
qed

lemma ValidateKey_iff: "ValidateKey v \<longleftrightarrow> wf_key v"
  using std_decode_encode by (auto simp: ValidateKey_def wf_key_def split: option.splits)

lemma parse_octet_lt: "parse_octet s = Some n \<Longrightarrow> n < 256"
  by (auto simp: parse_octet_def split: if_splits)

lemma parsed_wf:
  assumes "parse_ipv4_prefix v = Some (octets, 32)"
  shows "wf_ip (prefix_string (octets, 32))"
proof -
  obtain os where os: "length os = 4" "None \<notin> set (map parse_octet os)" "octets = map the (map parse_octet os)"
    using assms by (auto simp: parse_ipv4_prefix_def Let_def split: if_splits option.splits)
  then obtain a b c d where "os = [a, b, c, d]" by (auto simp: numeral_eq_Suc length_Suc_conv)
  moreover then obtain a' b' c' d' where "parse_octet a = Some a'" "parse_octet b = Some b'" "parse_octet c = Some c'" "parse_octet d = Some d'"
    using os(2) by (auto simp: not_None_eq eq_commute [of None])
  ultimately show ?thesis using os(3) parse_octet_lt unfolding wf_ip_def
    by (intro exI [of _ a'] exI [of _ b'] exI [of _ c'] exI [of _ d']) simp
qed

lemma check_ips_ok:
  "check_ips seen vs = Inr (ips, seen') \<Longrightarrow>
   distinct ips \<and> length ips = length vs \<and> list_all wf_ip ips \<and> set ips \<inter> set seen = {} \<and> set seen' = set ips \<union> set seen"
proof (induction vs arbitrary: seen ips)
  case (Cons v vs)
  then obtain octets ips' where p: "parse_ipv4_prefix v = Some (octets, 32)" "prefix_string (octets, 32) \<notin> set seen"
      "check_ips (prefix_string (octets, 32) # seen) vs = Inr (ips', seen')" "ips = prefix_string (octets, 32) # ips'"
    by (auto simp: Let_def split: option.splits if_splits sum.splits)
  then show ?case using Cons.IH [OF p(3)] parsed_wf [OF p(1)] by auto
qed simp

definition wf_peer :: "Peer \<Rightarrow> bool" where
  "wf_peer p \<longleftrightarrow> wf_key (wp_PublicKey p) \<and> wp_AllowedIPs p \<noteq> [] \<and> sorted (wp_AllowedIPs p) \<and> list_all wf_ip (wp_AllowedIPs p)"

lemma check_peers_keys: "check_peers ks seen ps = Inr qs \<Longrightarrow> map wp_PublicKey qs = map wp_PublicKey ps"
  by (induction ps arbitrary: ks seen qs) (auto split: if_splits sum.splits)

lemma mset_concat_map: "mset (concat (map f xs)) = (\<Sum>x \<in># mset xs. mset (f x))"
  by (induction xs) simp_all

lemma check_peers_ok:
  "check_peers ks seen ps = Inr qs \<Longrightarrow>
   distinct (map wp_PublicKey qs) \<and> wp_PublicKey ` set qs \<inter> set ks = {}
   \<and> distinct (concat (map wp_AllowedIPs qs)) \<and> set (concat (map wp_AllowedIPs qs)) \<inter> set seen = {}
   \<and> list_all wf_peer qs"
proof (induction ps arbitrary: ks seen qs)
  case (Cons p ps)
  then obtain ips seen' rest where
    p: "ValidateKey (wp_PublicKey p)" "wp_PublicKey p \<notin> set ks" "wp_AllowedIPs p \<noteq> []"
      and ips: "check_ips seen (wp_AllowedIPs p) = Inr (ips, seen')"
      and rest: "check_peers (wp_PublicKey p # ks) seen' ps = Inr rest"
      and qs: "qs = p\<lparr>wp_AllowedIPs := sort ips\<rparr> # rest"
    by (auto split: if_splits sum.splits)
  note i = check_ips_ok [OF ips]
  have "sort ips \<noteq> []" using i p(3) by (metis length_0_conv length_sort)
  moreover have "list_all wf_ip (sort ips)" using i by (simp add: list_all_iff)
  ultimately have "wf_peer (p\<lparr>wp_AllowedIPs := sort ips\<rparr>)"
    using p(1) by (simp add: wf_peer_def ValidateKey_iff)
  then show ?case using Cons.IH [OF rest] i p(2) unfolding qs by (auto simp: disjoint_iff)
qed simp

definition wf_payload :: "Peer list \<Rightarrow> bool" where
  "wf_payload peers \<longleftrightarrow> length peers \<le> 4096 \<and> sorted_wrt (<) (map wp_PublicKey peers) \<and> distinct (concat (map wp_AllowedIPs peers))
     \<and> list_all wf_peer peers"

lemma DecodeSyncPayload_wf:
  assumes "DecodeSyncPayload (Some ps) = Inr peers"
  shows "wf_payload peers \<and> mset (map wp_PublicKey peers) = mset (map wp_PublicKey ps)"
proof -
  obtain qs where qs: "check_peers [] [] ps = Inr qs" "peers = sort_key wp_PublicKey qs" "length ps \<le> 4096"
    using assms by (cases "check_peers [] [] ps") (auto simp: DecodeSyncPayload_def maxPeers_def split: if_splits)
  note ok = check_peers_ok [OF qs(1)]
  have perm: "mset peers = mset qs" using qs(2) by simp
  have "length peers = length ps" using check_peers_keys [OF qs(1)] qs(2) by (metis length_map length_sort)
  moreover have "sorted_wrt (<) (map wp_PublicKey peers)"
  proof -
    have "mset (map wp_PublicKey peers) = mset (map wp_PublicKey qs)" by (simp add: perm)
    then have "distinct (map wp_PublicKey peers)" using ok mset_eq_imp_distinct_iff by blast
    moreover have "sorted (map wp_PublicKey peers)" using qs(2) by simp
    ultimately show ?thesis by (simp add: strict_sorted_iff)
  qed
  moreover have "distinct (concat (map wp_AllowedIPs peers))"
    using ok mset_eq_imp_distinct_iff [of "concat (map wp_AllowedIPs peers)" "concat (map wp_AllowedIPs qs)"]
    by (simp add: mset_concat_map perm)
  moreover have "list_all wf_peer peers" using ok qs(2) by (simp add: list_all_iff)
  moreover have "mset (map wp_PublicKey peers) = mset (map wp_PublicKey ps)" 
    unfolding check_peers_keys [OF qs(1), symmetric] by (simp add: perm)
  ultimately show ?thesis using qs(3) by (simp add: wf_payload_def)
qed

subsection \<open>Addresses are kept as written\<close>

lemma read_nat_snoc: "read_nat (t @ [c]) = 10 * read_nat t + (of_char c - 48)"
  by (simp add: read_nat_def)

lemma format_read: "s \<noteq> [] \<Longrightarrow> list_all is_digit s \<Longrightarrow> length s > 1 \<longrightarrow> hd s \<noteq> CHR ''0'' \<Longrightarrow> format_nat (read_nat s) = s"
proof (induction s rule: rev_induct)
  case (snoc c t)
  define d where "d = (of_char c :: nat) - 48"
  have c: "d < 10" "char_of (48 + d) = c" using snoc.prems(2) by (auto simp: d_def is_digit_def Let_def)
  show ?case
  proof (cases "t = []")
    case True
    then show ?thesis using c by (simp add: read_nat_def format_nat.simps [of "of_char c - 48"] d_def)
  next
    case False
    then have hd: "hd t \<noteq> CHR ''0''" using snoc.prems(3) by (cases t) auto
    have IH: "format_nat (read_nat t) = t" using snoc.IH False snoc.prems(2) hd by (simp add: list_all_iff)
    have "format_nat 0 = ''0''" by code_simp
    then have "read_nat t \<noteq> 0" using IH hd by (metis list.sel(1))
    then have "format_nat (10 * read_nat t + d) = format_nat (read_nat t) @ [c]"
      using c by (simp add: format_nat.simps [of "10 * read_nat t + d"])
    then show ?thesis using IH by (simp add: read_nat_snoc d_def)
  qed
qed simp

lemma parse_octet_text: "parse_octet s = Some n \<Longrightarrow> format_nat n = s" "parse_bits s = Some n \<Longrightarrow> format_nat n = s"
  by (auto simp: parse_octet_def parse_bits_def format_read split: if_splits)

lemma parse_prefix_text:
  assumes "parse_ipv4_prefix v = Some p"
  shows "prefix_string p = v"
proof -
  define tail where "tail = takeWhile (\<lambda>c. c \<noteq> CHR ''/'') (rev v)"
  define addr where "addr = take (length v - length tail - 1) v"
  obtain bits where bits: "parse_bits (rev tail) = Some bits" and len: "length tail \<noteq> length v"
      and ok: "None \<notin> set (map parse_octet (split_on (CHR ''.'') addr))"
      and p: "p = (map the (map parse_octet (split_on (CHR ''.'') addr)), bits)"
    using assms by (auto simp: parse_ipv4_prefix_def tail_def addr_def Let_def split: if_splits option.splits)
  have "map (format_nat \<circ> the \<circ> parse_octet) (split_on (CHR ''.'') addr) = split_on (CHR ''.'') addr"
    using ok parse_octet_text(1) by (intro map_idI) (auto simp: image_iff)
  then have "join_with (CHR ''.'') (map format_nat (fst p)) = addr" using p by (simp add: comp_assoc)
  moreover obtain before where "rev v = tail @ CHR ''/'' # before"
  proof -
    have "dropWhile (\<lambda>c. c \<noteq> CHR ''/'') (rev v) \<noteq> []"
      using len takeWhile_dropWhile_id [of "\<lambda>c. c \<noteq> CHR ''/''" "rev v"] unfolding tail_def by (metis append_Nil2 length_rev)
    then have "rev v = tail @ CHR ''/'' # tl (dropWhile (\<lambda>c. c \<noteq> CHR ''/'') (rev v))"
      unfolding tail_def using hd_dropWhile [of "\<lambda>c. c \<noteq> CHR ''/''" "rev v"]
      by (metis (mono_tags, lifting) list.collapse takeWhile_dropWhile_id)
    then show ?thesis using that by blast
  qed
  then have v: "v = rev before @ ''/'' @ rev tail" by (metis append.assoc append_Cons append_Nil rev.simps(2) rev_append rev_rev_ident)
  then have "addr = rev before" by (simp add: addr_def)
  ultimately show ?thesis using v p parse_octet_text(2) [OF bits] by (simp add: prefix_string_def)
qed

lemma check_ips_text: "check_ips seen vs = Inr (ips, seen') \<Longrightarrow> ips = vs"
proof (induction vs arbitrary: seen ips)
  case (Cons v vs)
  then show ?case using parse_prefix_text [of v] by (auto simp: Let_def split: option.splits if_splits sum.splits)
qed simp

lemma check_peers_ips: "check_peers ks seen ps = Inr qs \<Longrightarrow> mset (concat (map wp_AllowedIPs qs)) = mset (concat (map wp_AllowedIPs ps))"
proof (induction ps arbitrary: ks seen qs)
  case (Cons p ps)
  then obtain ips seen' rest where "check_ips seen (wp_AllowedIPs p) = Inr (ips, seen')"
      "check_peers (wp_PublicKey p # ks) seen' ps = Inr rest" "qs = p\<lparr>wp_AllowedIPs := sort ips\<rparr> # rest"
    by (auto split: if_splits sum.splits)
  then show ?case using Cons.IH check_ips_text by (metis (no_types, lifting) Peer.select_convs(2) Peer.surjective Peer.update_convs(2) concat.simps(2) list.simps(9) mset_append mset_sort)
qed simp

text \<open>
  C36: what \<open>DecodeSyncPayload\<close> returns has the type the renderer relies on: at most 4096 peers, in
  strictly increasing order of their keys, every key the canonical encoding of 32 bytes, every
  peer with at least one address, every address a canonical IPv4 /32 prefix, sorted, and no address
  shared by two peers. Nothing is added or lost: keys and addresses are those of the payload.
\<close>

theorem sync_payload_typed:
  assumes "DecodeSyncPayload (Some ps) = Inr peers"
  shows "wf_payload peers \<and> mset (map wp_PublicKey peers) = mset (map wp_PublicKey ps)
    \<and> mset (concat (map wp_AllowedIPs peers)) = mset (concat (map wp_AllowedIPs ps))"
proof -
  obtain qs where qs: "check_peers [] [] ps = Inr qs" "peers = sort_key wp_PublicKey qs"
    using assms by (cases "check_peers [] [] ps") (auto simp: DecodeSyncPayload_def split: if_splits)
  have "mset (concat (map wp_AllowedIPs peers)) = mset (concat (map wp_AllowedIPs qs))"
    using qs(2) by (simp add: mset_concat_map)
  then show ?thesis using DecodeSyncPayload_wf [OF assms] check_peers_ips [OF qs(1)] by simp
qed

subsection \<open>Reading a configuration back\<close>

text \<open>A reader of the configuration format, written independently of the renderer.\<close>

definition read_ips :: "string \<Rightarrow> string list" where
  "read_ips s = (case split_on (CHR '','') s of [] \<Rightarrow> [] | ip # ips \<Rightarrow> ip # map (drop 1) ips)"

fun read_peers :: "string list \<Rightarrow> Peer list option" where
  "read_peers (l # []) = (if l = [] then Some [] else None)"
| "read_peers (l # header # key # ips # rest) =
     (if l = [] \<and> header = ''[Peer]'' \<and> has_prefix ''PublicKey = '' key \<and> has_prefix ''AllowedIPs = '' ips
      then map_option ((#) \<lparr>wp_PublicKey = trim_prefix ''PublicKey = '' key, wp_AllowedIPs = read_ips (trim_prefix ''AllowedIPs = '' ips)\<rparr>)
             (read_peers rest)
      else None)"
| "read_peers _ = None"

definition read_config :: "string \<Rightarrow> (string \<times> int \<times> Peer list) option" where
  "read_config text = (case split_on LF text of
     header # key # port # rest \<Rightarrow>
       if header = ''[Interface]'' \<and> has_prefix ''PrivateKey = '' key \<and> has_prefix ''ListenPort = '' port
       then map_option (\<lambda>peers. (trim_prefix ''PrivateKey = '' key, int (read_nat (trim_prefix ''ListenPort = '' port)), peers)) (read_peers rest)
       else None
   | _ \<Rightarrow> None)"

lemma read_join_ips:
  assumes "ips \<noteq> []" "\<forall>ip \<in> set ips. CHR '','' \<notin> set ip"
  shows "read_ips (join_ips ips) = ips"
proof -
  have "split_on (CHR '','') (join_ips (ip # ips)) = ip # map ((#) (CHR '' '')) ips" if "\<forall>ip \<in> set (ip # ips). CHR '','' \<notin> set ip" for ip ips
    using that
  proof (induction ips arbitrary: ip)
    case Nil
    then show ?case by (simp add: split_on_single)
  next
    case (Cons a ips)
    have "split_on (CHR '','') (CHR '' '' # join_ips (a # ips)) = (CHR '' '' # a) # map ((#) (CHR '' '')) ips"
      using Cons.IH [of a] Cons.prems by simp
    then show ?case using Cons.prems split_on_append_sep [of "CHR '',''" ip "CHR '' '' # join_ips (a # ips)"] by simp
  qed
  from this [of "hd ips" "tl ips"] show ?thesis using assms by (cases ips) (simp_all add: read_ips_def comp_def)
qed

lemma std_char_range: "n < 64 \<Longrightarrow> (of_char (std_char (b64_char n)) :: nat) \<ge> 43"
  by (auto simp: std_char_def of_char_b64_char split: if_splits)

lemma wf_key_chars: "wf_key k \<Longrightarrow> LF \<notin> set k"
proof
  assume "wf_key k" "LF \<in> set k"
  then obtain bs where "LF \<in> set (map std_char (b64_encode bs))" by (auto simp: wf_key_def std_encode_def split: if_splits)
  then obtain n where "n \<in> set (sextets (map of_char bs))" "LF = std_char (b64_char n)" by (auto simp: b64_encode_def)
  moreover then have "n < 64" by (intro sextets_lt [of "map of_char bs"]) auto
  ultimately have "(of_char LF :: nat) \<ge> 43" using std_char_range [of n] by simp
  then show False by simp
qed

lemma wf_ip_chars: "wf_ip ip \<Longrightarrow> LF \<notin> set ip \<and> CHR '','' \<notin> set ip"
  using format_nat_digits by (fastforce simp: wf_ip_def prefix_string_def)

lemma join_ips_chars: "c \<in> set (join_ips ips) \<Longrightarrow> c \<in> set '', '' \<or> (\<exists>ip \<in> set ips. c \<in> set ip)"
  by (induction ips rule: join_ips.induct) auto

lemma split_peer:
  assumes "wf_peer p"
  shows "split_on LF (render_peer p @ rest)
           = [] # ''[Peer]'' # (''PublicKey = '' @ wp_PublicKey p) # (''AllowedIPs = '' @ join_ips (wp_AllowedIPs p)) # split_on LF rest"
proof -
  have "LF \<notin> set (''PublicKey = '' @ wp_PublicKey p)" using assms wf_key_chars by (simp add: wf_peer_def)
  moreover have "LF \<notin> set (''AllowedIPs = '' @ join_ips (wp_AllowedIPs p))"
    using assms join_ips_chars [of LF "wp_AllowedIPs p"] wf_ip_chars by (auto simp: wf_peer_def list_all_iff)
  ultimately show ?thesis
    using split_on_append_sep [of LF "''PublicKey = '' @ wp_PublicKey p"]
      split_on_append_sep [of LF "''AllowedIPs = '' @ join_ips (wp_AllowedIPs p)"]
    by (simp add: render_peer_def)
qed

lemma read_rendered_peers: "list_all wf_peer ps \<Longrightarrow> read_peers (split_on LF (concat (map render_peer ps))) = Some ps"
proof (induction ps)
  case (Cons p ps)
  have "read_ips (join_ips (wp_AllowedIPs p)) = wp_AllowedIPs p"
    using Cons.prems wf_ip_chars by (intro read_join_ips) (auto simp: wf_peer_def list_all_iff)
  then show ?case using Cons by (simp add: split_peer del: append_Cons append.simps)
qed simp

text \<open>
  C37: the configuration carries exactly the payload. For accepted peers, whatever text
  \<open>RenderSyncConfig\<close> returns is read back as the trimmed private key, the port and the peers with
  their addresses: no key or address can end a line or start another entry.
\<close>

theorem sync_config_roundtrip:
  assumes "DecodeSyncPayload (Some ps) = Inr peers" "RenderSyncConfig privateKey listenPort peers = Inr rendered"
  shows "read_config rendered = Some (trimSpace privateKey, listenPort, peers) \<and> wf_key (trimSpace privateKey)"
proof -
  have key: "wf_key (trimSpace privateKey)" and port: "0 \<le> listenPort"
      and config: "rendered = ''[Interface]'' @ LF # ''PrivateKey = '' @ trimSpace privateKey @ LF # ''ListenPort = '' @ format_int listenPort @ LF # concat (map render_peer peers)"
    using assms(2) by (auto simp: RenderSyncConfig_def ValidateKey_iff split: if_splits)
  have peers: "list_all wf_peer peers" using DecodeSyncPayload_wf [OF assms(1)] by (simp add: wf_payload_def)
  have "LF \<notin> set (''PrivateKey = '' @ trimSpace privateKey)" using wf_key_chars [OF key] by simp
  moreover have "LF \<notin> set (''ListenPort = '' @ format_int listenPort)"
    using port format_nat_digits [of LF] by (auto simp: format_int_def)
  ultimately have "split_on LF rendered = ''[Interface]'' # (''PrivateKey = '' @ trimSpace privateKey)
      # (''ListenPort = '' @ format_int listenPort) # split_on LF (concat (map render_peer peers))"
    using split_on_append_sep [of LF "''PrivateKey = '' @ trimSpace privateKey"]
      split_on_append_sep [of LF "''ListenPort = '' @ format_int listenPort"] by (simp add: config)
  then show ?thesis
    using read_rendered_peers [OF peers] port key by (simp add: read_config_def format_int_def del: append_Cons append.simps)
qed

definition sample_key :: "char \<Rightarrow> string" where
  "sample_key c = std_encode (replicate 32 c)"

lemma sample_key_ok [simp]: "ValidateKey (sample_key c)"
  unfolding ValidateKey_iff wf_key_def sample_key_def by (intro exI [of _ "replicate 32 c"]) simp

definition sample_peers :: "Peer list" where
  "sample_peers =
     [\<lparr>wp_PublicKey = sample_key (CHR 0x20), wp_AllowedIPs = [''10.0.0.7/32'', ''10.0.0.2/32'']\<rparr>,
      \<lparr>wp_PublicKey = sample_key (CHR 0x01), wp_AllowedIPs = [''10.0.0.3/32'']\<rparr>]"

definition sample_sorted :: "Peer list" where
  "sample_sorted =
     [\<lparr>wp_PublicKey = sample_key (CHR 0x01), wp_AllowedIPs = [''10.0.0.3/32'']\<rparr>,
      \<lparr>wp_PublicKey = sample_key (CHR 0x20), wp_AllowedIPs = [''10.0.0.2/32'', ''10.0.0.7/32'']\<rparr>]"

lemma sample_key_head: "\<exists>r. sample_key c = std_char (b64_char (of_char c div 4)) # r"
proof -
  have "replicate 32 c = c # c # c # replicate 29 c" by (simp add: numeral_eq_Suc)
  then show ?thesis by (simp add: sample_key_def std_encode_def b64_encode_def)
qed

lemma sample_order: "sample_key (CHR 0x01) < sample_key (CHR 0x20)"
proof -
  have "char_of (65 :: nat) = CHR ''A''" "char_of (73 :: nat) = CHR ''I''" by code_simp+
  then obtain r t where "sample_key (CHR 0x01) = CHR ''A'' # r" "sample_key (CHR 0x20) = CHR ''I'' # t"
    using sample_key_head [of "CHR 0x01"] sample_key_head [of "CHR 0x20"] by (auto simp: b64_char_def std_char_def)
  then show ?thesis by (simp add: less_char_def)
qed

lemma sample_ips:
  "parse_ipv4_prefix ''10.0.0.7/32'' = Some ([10, 0, 0, 7], 32)"
  "parse_ipv4_prefix ''10.0.0.2/32'' = Some ([10, 0, 0, 2], 32)"
  "parse_ipv4_prefix ''10.0.0.3/32'' = Some ([10, 0, 0, 3], 32)"
  by (simp_all add: parse_ipv4_prefix_def parse_octet_def parse_bits_def is_digit_def read_nat_def)

lemma sample_prefixes:
  "prefix_string ([10, 0, 0, 7], 32) = ''10.0.0.7/32''"
  "prefix_string ([10, 0, 0, 2], 32) = ''10.0.0.2/32''"
  "prefix_string ([10, 0, 0, 3], 32) = ''10.0.0.3/32''"
  using sample_ips [THEN parse_prefix_text] by auto

lemma sample_peers_decode: "DecodeSyncPayload (Some sample_peers) = Inr sample_sorted"
proof -
  have "sort [''10.0.0.7/32'', ''10.0.0.2/32''] = [''10.0.0.2/32'', ''10.0.0.7/32'']" by code_simp
  moreover have "sample_key (CHR 0x01) \<le> sample_key (CHR 0x20)" "\<not> sample_key (CHR 0x20) \<le> sample_key (CHR 0x01)"
    using sample_order by (simp_all only: less_imp_le not_le)
  ultimately show ?thesis
    by (simp add: DecodeSyncPayload_def sample_peers_def sample_sorted_def maxPeers_def sample_ips sample_prefixes masked_value_def Let_def)
qed

theorem sync_payload_typed_witness:
  "DecodeSyncPayload (Some sample_peers) = Inr sample_sorted \<and> wf_payload sample_sorted"
  using sync_payload_typed [OF sample_peers_decode] sample_peers_decode by simp

lemma sample_trimmed: "trimSpace (sample_key (CHR 0x02) @ [LF]) = sample_key (CHR 0x02)"
proof -
  have "char_of (65 :: nat) = CHR ''A''" by code_simp
  then obtain r where r: "sample_key (CHR 0x02) = CHR ''A'' # r"
    using sample_key_head [of "CHR 0x02"] by (auto simp: b64_char_def std_char_def)
  obtain t where t: "sample_key (CHR 0x02) = t @ [CHR ''='']" by (simp add: sample_key_def std_encode_def)
  have "trim_start white_space (CHR ''A'' # r @ [LF]) = CHR ''A'' # r @ [LF]"
    by (rule trim_start_kept) (simp add: white_space_def)
  moreover have "trim_start (map rev white_space) (CHR ''='' # rev t) = CHR ''='' # rev t"
    by (rule trim_start_kept) (simp add: white_space_def char_of_def)
  moreover have "trim_start (map rev white_space) (LF # s) = trim_start (map rev white_space) s" for s
    by (subst trim_start.simps) (simp add: white_space_def has_prefix_def)
  ultimately show ?thesis using r t unfolding trimSpace_def by (metis append_Cons rev.simps rev_append append_Nil rev_rev_ident)
qed

lemma sample_config_renders:
  "RenderSyncConfig (sample_key (CHR 0x02) @ [LF]) 51820 sample_sorted
     = Inr (projr (RenderSyncConfig (sample_key (CHR 0x02) @ [LF]) 51820 sample_sorted))"
  by (simp add: RenderSyncConfig_def sample_trimmed)

theorem sync_config_roundtrip_witness:
  "read_config (projr (RenderSyncConfig (sample_key (CHR 0x02) @ [LF]) 51820 sample_sorted))
     = Some (sample_key (CHR 0x02), 51820, sample_sorted)"
  using sync_config_roundtrip [OF sample_peers_decode sample_config_renders] by (simp add: sample_trimmed)

end
