(* ===== verification/Ssh_Keys.thy ===== *)
theory Ssh_Keys
  imports Effects Paths "HOL-Library.List_Lexorder" "HOL-Library.Char_ord"
begin

section \<open>Managed SSH keys\<close>

text \<open>
  \<open>sshkeys/sshkeys.go\<close>: the block of managed entries in an \<open>authorized_keys\<close> file. The text of the new
  file is a function of the old text; \<open>Sync\<close> reads and replaces the file as a host program. The
  payload as \<open>encoding/json\<close> reads it is an argument.
\<close>

definition beginMarker :: string where "beginMarker = ''# BEGIN agent-remote managed keys''"
definition endMarker :: string where "endMarker = ''# END agent-remote managed keys''"
definition deviceBeginPrefix :: string where "deviceBeginPrefix = ''# BEGIN agent-remote device ''"
definition deviceEndPrefix :: string where "deviceEndPrefix = ''# END agent-remote device ''"

record KeyEntry =
  ke_ID :: string
  ke_PublicKey :: string
  ke_ForcedCommand :: string

record KeySyncPayload =
  kp_DeviceID :: string
  kp_SessionID :: string
  kp_SSHUser :: string
  kp_AuthorizedKeysPath :: "string option"
  kp_SSHKeys :: "KeyEntry list"

subsection \<open>Entries\<close>

definition word_char :: "string \<Rightarrow> char \<Rightarrow> bool" where
  "word_char extra c =
     (let n = (of_char c :: nat) in (97 \<le> n \<and> n \<le> 122) \<or> (65 \<le> n \<and> n \<le> 90) \<or> (48 \<le> n \<and> n \<le> 57) \<or> c \<in> set extra)"

definition validDeviceID :: "string \<Rightarrow> bool" where
  "validDeviceID v = (v \<noteq> [] \<and> list_all (word_char ''._:-'') v)"

definition replace_char :: "char \<Rightarrow> string \<Rightarrow> string \<Rightarrow> string" where
  "replace_char c r s = concat (map (\<lambda>x. if x = c then r else [x]) s)"

definition shellWord :: "string \<Rightarrow> string" where
  "shellWord v =
     (if v \<noteq> [] \<and> list_all (word_char ''/._-:'') v then v
      else CHR 0x27 # replace_char (CHR 0x27) [CHR 0x27, CHR 0x5C, CHR 0x27, CHR 0x27] v @ [CHR 0x27])"

definition commandWithBinary :: "string \<Rightarrow> string \<Rightarrow> string \<Rightarrow> string" where
  "commandWithBinary attachBinary attachConfig forcedCommand =
     (if has_prefix ''agent-remote-attach '' forcedCommand \<and> (attachBinary \<noteq> ''agent-remote-attach'' \<or> attachConfig \<noteq> [])
      then shellWord attachBinary @ (if attachConfig \<noteq> [] then '' --config '' @ shellWord attachConfig else [])
             @ trim_prefix ''agent-remote-attach'' forcedCommand
      else forcedCommand)"

definition RenderEntry :: "string \<Rightarrow> string \<Rightarrow> KeyEntry \<Rightarrow> string" where
  "RenderEntry attachBinary attachConfig key =
     (let publicKey = trimSpace (ke_PublicKey key) in
      if publicKey = [] then []
      else (let command = replace_char (CHR 0x22) [CHR 0x5C, CHR 0x22]
                            (replace_char (CHR 0x5C) [CHR 0x5C, CHR 0x5C] (ke_ForcedCommand key)) in
            ''command='' @ CHR 0x22 # commandWithBinary attachBinary attachConfig command
              @ CHR 0x22 # '',no-X11-forwarding,no-port-forwarding,no-user-rc '' @ publicKey))"

subsection \<open>The managed block\<close>

text \<open>\<open>strings.Index\<close> and \<open>strings.TrimRight\<close> with line feeds.\<close>

fun index_str :: "string \<Rightarrow> string \<Rightarrow> nat option" where
  "index_str p [] = (if p = [] then Some 0 else None)"
| "index_str p (c # s) = (if has_prefix p (c # s) then Some 0 else map_option Suc (index_str p s))"

definition trim_lines :: "string \<Rightarrow> string" where
  "trim_lines s = rev (dropWhile (\<lambda>c. c = LF) (rev s))"

definition splitManagedBlock :: "string \<Rightarrow> string \<times> string" where
  "splitManagedBlock input =
     (case index_str beginMarker input of
        None \<Rightarrow> (input, [])
      | Some start \<Rightarrow>
          (let managedStart = start + length beginMarker in
           case index_str endMarker (drop managedStart input) of
             None \<Rightarrow> (trim_lines (take start input) @ [LF], drop managedStart input)
           | Some end \<Rightarrow>
               (let managedEnd = managedStart + end; blockEnd = managedEnd + length endMarker in
                (trim_lines (take start input @ drop blockEnd input) @ [LF], take end (drop managedStart input)))))"

definition deviceIDFromEntry :: "string \<Rightarrow> string" where
  "deviceIDFromEntry line =
     (case index_str '' --device '' line of
        None \<Rightarrow> []
      | Some start \<Rightarrow> takeWhile (\<lambda>c. c \<notin> set [CHR 0x20, CHR 0x09, CHR 0x22]) (drop (start + 10) line))"

type_synonym managed_devices = "(string \<times> string list) list"

definition lines_of :: "managed_devices \<Rightarrow> string \<Rightarrow> string list" where
  "lines_of devices d = (case map_of devices d of None \<Rightarrow> [] | Some ls \<Rightarrow> ls)"

definition parse_managed_line :: "string \<Rightarrow> string \<times> managed_devices \<Rightarrow> string \<times> managed_devices" where
  "parse_managed_line rawLine s =
     (case s of (activeDevice, devices) \<Rightarrow>
       let line = trimSpace rawLine in
       if has_prefix deviceBeginPrefix line then
         (let candidate = trimSpace (trim_prefix deviceBeginPrefix line) in
          (if validDeviceID candidate then candidate else activeDevice, devices))
       else if has_prefix deviceEndPrefix line then ([], devices)
       else if line = [] \<or> has_prefix ''#'' line then (activeDevice, devices)
       else (let deviceID = (if activeDevice = [] then deviceIDFromEntry line else activeDevice) in
             (activeDevice, if validDeviceID deviceID then put deviceID (lines_of devices deviceID @ [line]) devices else devices)))"

definition parseManagedDevices :: "string \<Rightarrow> managed_devices" where
  "parseManagedDevices managed = snd (fold parse_managed_line (split_on LF managed) ([], []))"

definition device_lines :: "managed_devices \<Rightarrow> string \<Rightarrow> string list" where
  "device_lines devices d = (deviceBeginPrefix @ d) # lines_of devices d @ [deviceEndPrefix @ d]"

definition render_block :: "managed_devices \<Rightarrow> string" where
  "render_block devices =
     concat (map (\<lambda>l. l @ [LF]) (beginMarker # concat (map (device_lines devices) (sort (map fst devices))) @ [endMarker]))"

definition rendered_entries :: "string \<Rightarrow> string \<Rightarrow> KeySyncPayload \<Rightarrow> string list" where
  "rendered_entries attachBinary attachConfig payload =
     filter (\<lambda>line. line \<noteq> []) (map (RenderEntry attachBinary attachConfig) (kp_SSHKeys payload))"

definition sync_devices :: "string \<Rightarrow> string list \<Rightarrow> managed_devices \<Rightarrow> managed_devices" where
  "sync_devices d entries devices = (if entries = [] then del d devices else put d entries devices)"

definition assemble :: "string \<Rightarrow> managed_devices \<Rightarrow> string" where
  "assemble base devices =
     (if trimSpace base = [] then render_block devices else trim_lines base @ LF # render_block devices)"

definition sync_text :: "string \<Rightarrow> string \<Rightarrow> KeySyncPayload \<Rightarrow> string \<Rightarrow> string" where
  "sync_text attachBinary attachConfig payload existing =
     (case splitManagedBlock existing of (base, managed) \<Rightarrow>
        assemble base (sync_devices (kp_DeviceID payload) (rendered_entries attachBinary attachConfig payload) (parseManagedDevices managed)))"

subsection \<open>Replacing the file\<close>

text \<open>The name \<open>os.CreateTemp\<close> makes from a directory and a pattern.\<close>

definition temp_path :: "string \<Rightarrow> string \<Rightarrow> string" where
  "temp_path dir name = (if dir \<noteq> [] \<and> last dir = slash then dir @ name else dir @ slash # name)"

definition writeFileAtomic_keys :: "string \<Rightarrow> bytes \<Rightarrow> unit prog" where
  "writeFileAtomic_keys path data =
     then_p (ask (CreateTemp (Dir path) ''.authorized_keys-*'')) (\<lambda>created. case created of
       Instant n \<Rightarrow>
         (let temporaryPath = temp_path (Dir path) (''.authorized_keys-'' @ format_nat (nat n)) in
          finally_p
            (before_p (on_error_p
                (before_p (must (FileChmod temporaryPath 384))
                (before_p (must (WriteTo temporaryPath data)) (must (FileSync temporaryPath))))
                [FileClose temporaryPath])
            (before_p (must (FileClose temporaryPath)) (must (Rename temporaryPath path))))
            [Remove temporaryPath])
     | _ \<Rightarrow> fail_p (HostError (CreateTemp (Dir path) ''.authorized_keys-*'') created))"

definition Sync :: "string \<Rightarrow> string \<Rightarrow> string \<Rightarrow> KeySyncPayload \<Rightarrow> unit prog" where
  "Sync path attachBinary0 attachConfig payload =
     (if path = [] then refuse ''authorized_keys path is required''
      else if \<not> validDeviceID (kp_DeviceID payload) then refuse ''device ID is required and must contain only safe identifier characters''
      else (let attachBinary = (if attachBinary0 = [] then ''agent-remote-attach'' else attachBinary0) in
        then_p (ask (MkdirAll (Dir path))) (\<lambda>made.
          if made \<noteq> Done \<and> Dir path \<noteq> ''.'' then fail_p (HostError (MkdirAll (Dir path)) made)
          else then_p (ask (ReadFile path)) (\<lambda>read. case read of
            Content existing \<Rightarrow> writeFileAtomic_keys path (sync_text attachBinary attachConfig payload existing)
          | Absent \<Rightarrow> writeFileAtomic_keys path (sync_text attachBinary attachConfig payload [])
          | _ \<Rightarrow> fail_p (HostError (ReadFile path) read)))))"

subsection \<open>Trimmed text\<close>

definition no_word_at_start :: "string list \<Rightarrow> string \<Rightarrow> bool" where
  "no_word_at_start ws s \<longleftrightarrow> (\<forall>w \<in> set ws. w \<noteq> [] \<longrightarrow> \<not> has_prefix w s)"

definition trimmed :: "string \<Rightarrow> bool" where
  "trimmed s \<longleftrightarrow> no_word_at_start white_space s \<and> no_word_at_start (map rev white_space) (rev s)"

lemma trim_start_id: "no_word_at_start ws s \<Longrightarrow> trim_start ws s = s"
  by (subst trim_start.simps) (auto simp: no_word_at_start_def find_None_iff split: option.splits dest: find_Some_iff [THEN iffD1])

lemma trim_start_stripped: "no_word_at_start ws (trim_start ws s) \<and> (\<exists>p. s = p @ trim_start ws s)"
proof (induction ws s rule: trim_start.induct)
  case (1 ws s)
  show ?case
  proof (cases "find (\<lambda>w. w \<noteq> [] \<and> has_prefix w s) ws")
    case None
    then have "no_word_at_start ws s" by (auto simp: no_word_at_start_def find_None_iff)
    then show ?thesis by (simp add: trim_start_id)
  next
    case (Some w)
    then have step: "trim_start ws s = trim_start ws (drop (length w) s)" by (subst trim_start.simps) simp
    from 1 [OF Some] obtain p where "no_word_at_start ws (trim_start ws (drop (length w) s))"
        "drop (length w) s = p @ trim_start ws (drop (length w) s)" by blast
    then show ?thesis unfolding step by (metis append.assoc append_take_drop_id)
  qed
qed

lemma trimSpace_id: "trimmed s \<Longrightarrow> trimSpace s = s"
  by (simp add: trimmed_def trimSpace_def trim_start_id)

lemma trimSpace_infix: "trimmed (trimSpace s) \<and> (\<exists>p q. s = p @ trimSpace s @ q)"
proof -
  define t where "t = trim_start white_space s"
  define r where "r = trim_start (map rev white_space) (rev t)"
  obtain p q where t: "no_word_at_start white_space t" "s = p @ t" and r: "no_word_at_start (map rev white_space) r" "rev t = q @ r"
    using trim_start_stripped [of white_space s] trim_start_stripped [of "map rev white_space" "rev t"] unfolding t_def r_def by blast
  have tr: "t = rev r @ rev q" using r(2) by (metis rev_append rev_rev_ident)
  then have "no_word_at_start white_space (rev r)" using t(1) by (fastforce simp: no_word_at_start_def has_prefix_iff)
  moreover have "trimSpace s = rev r" by (simp add: trimSpace_def t_def r_def)
  ultimately show ?thesis using r(1) t(2) tr by (auto simp: trimmed_def)
qed

lemma white_space_words:
  "\<forall>w \<in> set white_space. w \<noteq> [] \<and> ((of_char (hd w) :: nat) < 33 \<or> 128 \<le> (of_char (hd w) :: nat))"
  "\<forall>w \<in> set (map rev white_space). w \<noteq> [] \<and> ((of_char (hd w) :: nat) < 33 \<or> 128 \<le> (of_char (hd w) :: nat)) \<and> (CHR 0x20 \<in> set w \<longrightarrow> length w = 1)"
  by (simp_all add: white_space_def char_of_def bit_0)

definition visible :: "char \<Rightarrow> bool" where
  "visible c \<longleftrightarrow> 33 \<le> (of_char c :: nat) \<and> (of_char c :: nat) < 128"

lemma visible_start:
  assumes "visible c"
  shows "no_word_at_start white_space (c # s)" "no_word_at_start (map rev white_space) (c # s)"
proof -
  have "\<not> has_prefix w (c # s)" if "w \<in> set white_space \<or> w \<in> set (map rev white_space)" for w
  proof
    assume "has_prefix w (c # s)"
    moreover have "w \<noteq> []" "(of_char (hd w) :: nat) < 33 \<or> 128 \<le> (of_char (hd w) :: nat)"
      using that white_space_words by blast+
    ultimately show False using assms by (cases w) (auto simp: has_prefix_def visible_def)
  qed
  then show "no_word_at_start white_space (c # s)" "no_word_at_start (map rev white_space) (c # s)"
    unfolding no_word_at_start_def by blast+
qed

lemma trimmed_ends: "visible c \<Longrightarrow> visible d \<Longrightarrow> trimmed (c # s @ [d])"
  using visible_start by (simp add: trimmed_def)

text \<open>A trimmed word stays the end of the line after a space.\<close>

lemma trimmed_after_space:
  assumes "visible c" "trimmed key" "key \<noteq> []"
  shows "trimmed (c # s @ CHR 0x20 # key)"
proof -
  have "\<not> has_prefix w (rev key @ CHR 0x20 # rev s @ [c])" if w: "w \<in> set (map rev white_space)" for w
  proof
    assume pre: "has_prefix w (rev key @ CHR 0x20 # rev s @ [c])"
    then have key: "length w \<le> length key \<Longrightarrow> has_prefix w (rev key)" by (simp add: has_prefix_def)
    moreover have "CHR 0x20 \<in> set w \<and> length w > 1" if "length w > length key"
    proof -
      have "w ! length key = CHR 0x20" using pre that by (metis has_prefix_def length_rev nth_append_length nth_take)
      then show ?thesis using that assms(3) by (metis One_nat_def Suc_leI length_greater_0_conv nth_mem order_le_less_trans)
    qed
    ultimately show False using assms(2) white_space_words(2) w unfolding trimmed_def no_word_at_start_def by fastforce
  qed
  then show ?thesis using visible_start(1) [OF assms(1)] by (simp add: trimmed_def no_word_at_start_def)
qed

subsection \<open>Finding the block\<close>

lemma contains_str_infix: "contains_str l p \<Longrightarrow> contains_str (a @ l @ b) p"
  unfolding contains_str_iff by (metis append.assoc)

lemma prefix_before_sep:
  "LF \<notin> set p \<Longrightarrow> has_prefix p (a @ LF # b) \<longleftrightarrow> has_prefix p a"
  by (induction a arbitrary: p) (auto simp: has_prefix_def take_Cons split: nat.splits; case_tac p; auto)+

lemma contains_str_sep:
  assumes "LF \<notin> set p" "p \<noteq> []"
  shows "contains_str (a @ LF # b) p \<longleftrightarrow> contains_str a p \<or> contains_str b p"
proof (induction a)
  case Nil
  then show ?case using assms by (cases p) (auto simp: has_prefix_def)
next
  case (Cons c a)
  then show ?case using prefix_before_sep [OF assms(1), of "c # a" b] by auto
qed

lemma index_here: "p \<noteq> [] \<Longrightarrow> index_str p (p @ b) = Some 0"
  by (metis append_is_Nil_conv has_prefix_append index_str.elims)

lemma index_first:
  assumes "LF \<notin> set p" "p \<noteq> []" "\<not> contains_str a p"
  shows "index_str p (a @ LF # p @ b) = Some (length a + 1)"
  using assms(3)
proof (induction a)
  case Nil
  show ?case using assms index_here [of p b] by (cases p) (auto simp: has_prefix_def)
next
  case (Cons c a)
  then show ?case using prefix_before_sep [OF assms(1), of "c # a" "p @ b"] by simp
qed

lemma index_none: "p \<noteq> [] \<Longrightarrow> index_str p s = None \<longleftrightarrow> \<not> contains_str s p"
  by (induction s) (auto simp: has_prefix_def)

lemma index_minimal: "p \<noteq> [] \<Longrightarrow> index_str p s = Some i \<Longrightarrow> \<not> contains_str (take i s) p"
proof (induction s arbitrary: i)
  case (Cons c s)
  have "has_prefix p (c # take j s) \<Longrightarrow> has_prefix p (c # s)" for j
    by (metis append_Cons append_take_drop_id has_prefix_append has_prefix_iff append.assoc)
  then show ?case using Cons by (auto simp: has_prefix_def split: if_splits)
qed (simp add: has_prefix_def split: if_splits)

lemma markers [simp]: "[] \<noteq> endMarker" "LF \<notin> set beginMarker" "LF \<notin> set endMarker" "beginMarker \<noteq> []" "endMarker \<noteq> []"
  by (simp_all add: beginMarker_def endMarker_def)

lemma managed_part_open: "\<not> contains_str (snd (splitManagedBlock s)) endMarker"
  by (auto simp: splitManagedBlock_def Let_def index_none index_minimal has_prefix_def split: option.splits)

lemma trim_lines_append [simp]: "trim_lines (s @ [LF]) = trim_lines s"
  by (simp add: trim_lines_def)

lemma trim_lines_idem [simp]: "trim_lines (trim_lines s) = trim_lines s"
  by (simp add: trim_lines_def)

lemma trim_lines_prefix: "\<exists>r. s = trim_lines s @ r"
  unfolding trim_lines_def by (metis rev_append rev_rev_ident takeWhile_dropWhile_id)

lemma unlines_shift: "LF # concat (map (\<lambda>l. l @ [LF]) ls) = concat (map (\<lambda>l. LF # l) ls) @ [LF]"
  by (induction ls) simp_all

lemma no_marker_in_lines: "\<forall>l \<in> set ls. \<not> contains_str l endMarker \<Longrightarrow> \<not> contains_str (concat (map (\<lambda>l. LF # l) ls)) endMarker"
proof (induction ls rule: rev_induct)
  case (snoc l ls)
  then show ?case using contains_str_sep [of endMarker "concat (map (\<lambda>l. LF # l) ls)" l] by simp
qed (simp add: has_prefix_def)

definition managed_lines :: "managed_devices \<Rightarrow> string list" where
  "managed_lines devices = concat (map (device_lines devices) (sort (map fst devices)))"

text \<open>A file that \<open>Sync\<close> has assembled is taken apart at the right places.\<close>

lemma split_assembled:
  assumes "\<not> contains_str base beginMarker" "\<forall>l \<in> set (managed_lines devices). \<not> contains_str l endMarker"
  shows "splitManagedBlock (assemble base devices)
    = ((if trimSpace base = [] then [] else trim_lines base) @ [LF], LF # concat (map (\<lambda>l. l @ [LF]) (managed_lines devices)))"
proof -
  define body where "body = concat (map (\<lambda>l. LF # l) (managed_lines devices))"
  have block: "render_block devices = beginMarker @ body @ LF # endMarker @ [LF]"
    unfolding render_block_def body_def managed_lines_def [symmetric] using unlines_shift [of "managed_lines devices"] by simp
  have end_at: "index_str endMarker (body @ LF # endMarker @ [LF]) = Some (length body + 1)"
    using no_marker_in_lines [OF assms(2)] by (intro index_first) (simp_all add: body_def)
  have managed: "take (length body + 1) (body @ LF # endMarker @ [LF]) = LF # concat (map (\<lambda>l. l @ [LF]) (managed_lines devices))"
    by (simp add: unlines_shift body_def)
  show ?thesis
  proof (cases "trimSpace base = []")
    case True
    then show ?thesis using end_at managed
      by (simp add: assemble_def block splitManagedBlock_def index_here Let_def trim_lines_def)
  next
    case False
    have "\<not> contains_str (trim_lines base) beginMarker"
      using assms(1) trim_lines_prefix [of base] unfolding contains_str_iff by (metis append.assoc)
    then have "index_str beginMarker (trim_lines base @ LF # beginMarker @ body @ LF # endMarker @ [LF]) = Some (length (trim_lines base) + 1)"
      by (intro index_first) simp_all
    moreover have "trim_lines (trim_lines base @ LF # [LF]) = trim_lines base"
      using trim_lines_append [of "trim_lines base @ [LF]"] by simp
    ultimately show ?thesis using False end_at managed
      by (simp add: assemble_def block splitManagedBlock_def Let_def)
  qed
qed

subsection \<open>Reading the devices\<close>

definition line_ok :: "string \<Rightarrow> bool" where
  "line_ok l \<longleftrightarrow> trimmed l \<and> l \<noteq> [] \<and> hd l \<noteq> CHR ''#'' \<and> LF \<notin> set l \<and> \<not> contains_str l endMarker"

definition wf_devices :: "managed_devices \<Rightarrow> bool" where
  "wf_devices devices \<longleftrightarrow> wf_map devices \<and> (\<forall>(d, ls) \<in> set devices. validDeviceID d \<and> ls \<noteq> [] \<and> list_all line_ok ls)"

lemma wf_devices_put:
  assumes "wf_devices devices" "validDeviceID d" "ls \<noteq> []" "list_all line_ok ls"
  shows "wf_devices (put d ls devices)"
  using assms by (fastforce simp: wf_devices_def wf_map_set split: if_splits dest: map_of_SomeD)

lemma wf_devices_del: "wf_devices devices \<Longrightarrow> wf_devices (del d devices)"
  by (auto simp: wf_devices_def del_def)

lemma wf_devices_lines: "wf_devices devices \<Longrightarrow> list_all line_ok (lines_of devices d)"
  by (auto simp: wf_devices_def lines_of_def split: option.splits dest: map_of_SomeD)

lemma parse_line_wf:
  assumes "wf_devices (snd s)" "LF \<notin> set rawLine" "\<not> contains_str rawLine endMarker"
  shows "wf_devices (snd (parse_managed_line rawLine s))"
proof -
  obtain a ds where s: "s = (a, ds)" by (cases s)
  obtain p q where raw: "rawLine = p @ trimSpace rawLine @ q" and tr: "trimmed (trimSpace rawLine)" using trimSpace_infix by blast
  have "LF \<notin> set (trimSpace rawLine)" using assms(2) raw by (metis UnI1 UnI2 set_append)
  moreover have "\<not> contains_str (trimSpace rawLine) endMarker" using assms(3) raw contains_str_infix by metis
  ultimately have "line_ok (trimSpace rawLine)" if "trimSpace rawLine \<noteq> []" "\<not> has_prefix ''#'' (trimSpace rawLine)"
    using that tr by (cases "trimSpace rawLine") (auto simp: line_ok_def has_prefix_def)
  then show ?thesis using assms(1) wf_devices_lines [of ds]
    by (auto simp: s parse_managed_line_def Let_def intro!: wf_devices_put)
qed

lemma split_on_infix: "l \<in> set (split_on c s) \<Longrightarrow> \<exists>p q. s = p @ l @ q"
proof (induction s arbitrary: l)
  case (Cons x s)
  obtain y ys where y: "split_on c s = y # ys" by (cases "split_on c s") simp_all
  show ?case
  proof (cases "l = x # y \<and> x \<noteq> c")
    case True
    have "\<exists>q. s = y @ q" using join_split [of c s] y by (cases ys) (auto simp del: join_split)
    then show ?thesis using True by (metis append_Cons append_Nil)
  next
    case False
    then have "l = [] \<or> l \<in> set (split_on c s)" using Cons.prems y by (auto split: if_splits)
    then show ?thesis using Cons.IH [of l] by (metis append_Cons append_Nil)
  qed
qed simp

lemma parse_wf:
  assumes "\<not> contains_str managed endMarker"
  shows "wf_devices (parseManagedDevices managed)"
proof -
  have "wf_devices (snd (fold parse_managed_line ls s))"
    if "wf_devices (snd s)" "\<forall>l \<in> set ls. LF \<notin> set l \<and> \<not> contains_str l endMarker" for ls s
    using that by (induction ls arbitrary: s) (simp_all del: split_paired_All add: parse_line_wf)
  moreover have "\<not> contains_str l endMarker" if "l \<in> set (split_on LF managed)" for l
    using assms split_on_infix [OF that] contains_str_infix by metis
  moreover have "wf_devices (snd ([], []))" by (simp add: wf_devices_def)
  ultimately show ?thesis unfolding parseManagedDevices_def using split_on_no_sep by blast
qed

lemma valid_visible: "validDeviceID d \<Longrightarrow> c \<in> set d \<Longrightarrow> visible c \<and> c \<noteq> CHR ''#''"
  by (auto simp: validDeviceID_def list_all_iff word_char_def visible_def Let_def)

lemma device_marks:
  assumes "validDeviceID d"
  shows "trimmed (deviceBeginPrefix @ d)" "trimmed (deviceEndPrefix @ d)" "trimmed d"
    "\<not> has_prefix deviceBeginPrefix (deviceEndPrefix @ d)"
    "\<not> contains_str (deviceBeginPrefix @ d) endMarker" "\<not> contains_str (deviceEndPrefix @ d) endMarker"
    "LF \<notin> set (deviceBeginPrefix @ d)" "LF \<notin> set (deviceEndPrefix @ d)"
proof -
  obtain x c where d: "d = x @ [c]" using assms by (cases d rule: rev_cases) (auto simp: validDeviceID_def)
  have c: "visible c" using valid_visible [OF assms, of c] d by simp
  have hash: "visible (CHR ''#'')" by (simp add: visible_def)
  show "trimmed (deviceBeginPrefix @ d)" "trimmed (deviceEndPrefix @ d)"
    using trimmed_ends [OF hash c, of "tl deviceBeginPrefix @ x"] trimmed_ends [OF hash c, of "tl deviceEndPrefix @ x"]
    by (simp_all add: d deviceBeginPrefix_def deviceEndPrefix_def)
  show "trimmed d"
  proof (cases x)
    case Nil
    then show ?thesis using c visible_start by (simp add: d trimmed_def)
  next
    case (Cons y ys)
    then show ?thesis using trimmed_ends [of y c ys] c valid_visible [OF assms, of y] by (simp add: d)
  qed
  show "\<not> has_prefix deviceBeginPrefix (deviceEndPrefix @ d)" by (simp add: has_prefix_def deviceBeginPrefix_def deviceEndPrefix_def)
  have no: "\<not> contains_str s endMarker" if "CHR ''#'' \<notin> set s" for s
    using that by (induction s) (auto simp: has_prefix_def endMarker_def)
  have "CHR ''#'' \<notin> set d" using valid_visible [OF assms] by auto
  then show "\<not> contains_str (deviceBeginPrefix @ d) endMarker" "\<not> contains_str (deviceEndPrefix @ d) endMarker"
    using no [of "tl deviceBeginPrefix @ d"] no [of "tl deviceEndPrefix @ d"]
    by (auto simp: deviceBeginPrefix_def deviceEndPrefix_def has_prefix_def endMarker_def)
  show "LF \<notin> set (deviceBeginPrefix @ d)" "LF \<notin> set (deviceEndPrefix @ d)"
    using valid_visible [OF assms, of LF] by (auto simp: visible_def deviceBeginPrefix_def deviceEndPrefix_def)
qed

lemma parse_marks:
  assumes "validDeviceID d"
  shows "parse_managed_line (deviceBeginPrefix @ d) (a, ds) = (d, ds)" "parse_managed_line (deviceEndPrefix @ d) (a, ds) = ([], ds)"
  using assms device_marks [OF assms] by (simp_all add: parse_managed_line_def trimSpace_id)

lemma parse_blank: "parse_managed_line [] (a, ds) = (a, ds)"
proof -
  have "trimSpace [] = []" by (rule trimSpace_id) (auto simp: trimmed_def no_word_at_start_def has_prefix_def)
  then show ?thesis by (simp add: parse_managed_line_def has_prefix_def deviceBeginPrefix_def deviceEndPrefix_def)
qed

lemma parse_ok_line:
  assumes "line_ok l" "validDeviceID d"
  shows "parse_managed_line l (d, ds) = (d, put d (lines_of ds d @ [l]) ds)"
proof -
  have "\<not> has_prefix deviceBeginPrefix l" "\<not> has_prefix deviceEndPrefix l" "\<not> has_prefix ''#'' l" "l \<noteq> []"
    using assms(1) by (cases l; simp add: line_ok_def has_prefix_def deviceBeginPrefix_def deviceEndPrefix_def)+
  then show ?thesis using assms by (auto simp: parse_managed_line_def line_ok_def trimSpace_id validDeviceID_def)
qed

lemma parse_ok_lines:
  assumes "validDeviceID d" "list_all line_ok ls"
  shows "\<exists>ds'. fold parse_managed_line ls (d, ds) = (d, ds')
    \<and> map_of ds' = (if ls = [] then map_of ds else (map_of ds)(d \<mapsto> lines_of ds d @ ls))"
  using assms(2)
proof (induction ls arbitrary: ds)
  case (Cons l ls)
  let ?ds = "put d (lines_of ds d @ [l]) ds"
  obtain ds' where "fold parse_managed_line ls (d, ?ds) = (d, ds')"
      "map_of ds' = (if ls = [] then map_of ?ds else (map_of ?ds)(d \<mapsto> lines_of ?ds d @ ls))" using Cons by auto
  moreover have "lines_of ?ds d = lines_of ds d @ [l]" by (simp add: lines_of_def)
  ultimately show ?case using Cons.prems assms(1) by (auto simp: parse_ok_line fun_eq_iff)
qed simp

lemma parse_device:
  assumes "validDeviceID d" "list_all line_ok (lines_of devices d)" "lines_of devices d \<noteq> []" "map_of ds d = None"
  shows "\<exists>ds'. fold parse_managed_line (device_lines devices d) (a, ds) = ([], ds') \<and> map_of ds' = (map_of ds)(d \<mapsto> lines_of devices d)"
proof -
  have "lines_of ds d = []" using assms(4) by (simp add: lines_of_def)
  then obtain ds' where "fold parse_managed_line (lines_of devices d) (d, ds) = (d, ds')" "map_of ds' = (map_of ds)(d \<mapsto> lines_of devices d)"
    using parse_ok_lines [OF assms(1,2), of ds] assms(3) by auto
  then show ?thesis using assms(1) by (simp add: device_lines_def parse_marks)
qed

lemma parse_devices:
  assumes "wf_devices devices" "distinct ids" "set ids \<subseteq> keys devices" "set ids \<inter> dom (map_of ds) = {}"
  shows "\<exists>ds'. fold parse_managed_line (concat (map (device_lines devices) ids)) ([], ds) = ([], ds')
    \<and> map_of ds' = map_of ds ++ (map_of devices |` set ids)"
  using assms(2-)
proof (induction ids arbitrary: ds)
  case (Cons d ids)
  obtain ls where ls: "map_of devices d = Some ls" using Cons.prems(2) in_keys_Some [of d devices] by auto
  then have d: "validDeviceID d" "lines_of devices d = ls" "ls \<noteq> []" "list_all line_ok ls"
    using assms(1) by (auto simp: wf_devices_def lines_of_def dest!: map_of_SomeD)
  obtain ds1 where ds1: "fold parse_managed_line (device_lines devices d) ([], ds) = ([], ds1)" "map_of ds1 = (map_of ds)(d \<mapsto> ls)"
    using parse_device [of d devices ds "[]"] d Cons.prems(3) by auto
  have disjoint: "set ids \<inter> dom (map_of ds1) = {}" using Cons.prems(1,3) by (auto simp: ds1(2) split: if_splits)
  obtain ds' where ds': "fold parse_managed_line (concat (map (device_lines devices) ids)) ([], ds1) = ([], ds')"
      "map_of ds' = map_of ds1 ++ (map_of devices |` set ids)"
    using Cons.IH [of ds1] Cons.prems(1,2) disjoint by fastforce
  have "map_of ds1 ++ (map_of devices |` set ids) = map_of ds ++ (map_of devices |` set (d # ids))"
    using ls Cons.prems ds1(2) by (intro ext) (auto simp: map_add_def restrict_map_def split: option.splits)
  then show ?case using ds1(1) ds' by auto
qed simp

lemma managed_lines_wf:
  assumes "wf_devices devices"
  shows "\<forall>l \<in> set (managed_lines devices). LF \<notin> set l \<and> \<not> contains_str l endMarker"
proof
  fix l assume "l \<in> set (managed_lines devices)"
  then obtain d where d: "d \<in> keys devices" "l \<in> set (device_lines devices d)" by (auto simp: managed_lines_def)
  then have "validDeviceID d" using assms by (auto simp: wf_devices_def)
  then show "LF \<notin> set l \<and> \<not> contains_str l endMarker"
    using d(2) device_marks [of d] wf_devices_lines [OF assms, of d] by (auto simp: device_lines_def line_ok_def list_all_iff)
qed

lemma split_unlines: "\<forall>l \<in> set ls. LF \<notin> set l \<Longrightarrow> split_on LF (concat (map (\<lambda>l. l @ [LF]) ls)) = ls @ [[]]"
  by (induction ls) (simp_all add: split_on_append_sep)

text \<open>The block is read back as the devices it was rendered from.\<close>

lemma parse_rendered:
  assumes "wf_devices devices"
  shows "map_of (parseManagedDevices (LF # concat (map (\<lambda>l. l @ [LF]) (managed_lines devices)))) = map_of devices"
proof -
  let ?ids = "sort (map fst devices)"
  have lines: "split_on LF (LF # concat (map (\<lambda>l. l @ [LF]) (managed_lines devices))) = [] # managed_lines devices @ [[]]"
    using managed_lines_wf [OF assms] split_unlines by simp
  have "distinct ?ids" "set ?ids = keys devices" using assms by (simp_all add: wf_devices_def wf_map_def)
  then obtain ds where "fold parse_managed_line (managed_lines devices) ([], []) = ([], ds)" "map_of ds = map_of devices |` keys devices"
    using parse_devices [OF assms, of ?ids "[]"] by (auto simp: managed_lines_def)
  moreover have "map_of devices |` keys devices = map_of devices"
    by (intro ext) (auto simp: restrict_map_def map_of_eq_None_iff [symmetric])
  ultimately show ?thesis unfolding parseManagedDevices_def lines by (simp add: parse_blank)
qed

subsection \<open>Rendered entries\<close>

lemma replace_char_chars: "c \<in> set (replace_char x r s) \<Longrightarrow> c \<in> set r \<or> c \<in> set s"
  by (auto simp: replace_char_def split: if_splits)

lemma shellWord_chars: "c \<in> set (shellWord v) \<Longrightarrow> c \<in> set v \<or> c = CHR 0x27 \<or> c = CHR 0x5C"
  by (auto simp: shellWord_def split: if_splits dest!: replace_char_chars)

lemma commandWithBinary_chars:
  "LF \<in> set (commandWithBinary b c f) \<Longrightarrow> LF \<in> set b \<union> set c \<union> set f"
  by (auto simp: commandWithBinary_def trim_prefix_def split: if_splits dest: shellWord_chars in_set_dropD)

definition entry_clean :: "string \<Rightarrow> string \<Rightarrow> KeyEntry \<Rightarrow> bool" where
  "entry_clean b c key \<longleftrightarrow> LF \<notin> set (ke_PublicKey key) \<union> set (ke_ForcedCommand key) \<union> set b \<union> set c
     \<and> \<not> contains_str (RenderEntry b c key) endMarker"

lemma RenderEntry_shape:
  "RenderEntry b c key \<noteq> [] \<Longrightarrow> \<exists>options. RenderEntry b c key = CHR ''c'' # options @ CHR 0x20 # trimSpace (ke_PublicKey key)
     \<and> trimSpace (ke_PublicKey key) \<noteq> [] \<and> (LF \<in> set options \<longrightarrow> LF \<in> set b \<union> set c \<union> set (ke_ForcedCommand key))"
proof -
  assume a: "RenderEntry b c key \<noteq> []"
  define cmd where "cmd = replace_char (CHR 0x22) [CHR 0x5C, CHR 0x22] (replace_char (CHR 0x5C) [CHR 0x5C, CHR 0x5C] (ke_ForcedCommand key))"
  have "LF \<in> set cmd \<Longrightarrow> LF \<in> set (ke_ForcedCommand key)" by (auto simp: cmd_def dest!: replace_char_chars)
  then show ?thesis using a commandWithBinary_chars [of b c cmd]
    by (intro exI [of _ "''ommand='' @ CHR 0x22 # commandWithBinary b c cmd @ CHR 0x22 # '',no-X11-forwarding,no-port-forwarding,no-user-rc''"])
      (auto simp: RenderEntry_def Let_def cmd_def split: if_splits)
qed

lemma RenderEntry_ok:
  assumes "entry_clean b c key" "RenderEntry b c key \<noteq> []"
  shows "line_ok (RenderEntry b c key)"
proof -
  obtain options where o: "RenderEntry b c key = CHR ''c'' # options @ CHR 0x20 # trimSpace (ke_PublicKey key)"
      "trimSpace (ke_PublicKey key) \<noteq> []" "LF \<notin> set options"
    using RenderEntry_shape [OF assms(2)] assms(1) by (auto simp: entry_clean_def)
  have "LF \<notin> set (trimSpace (ke_PublicKey key))"
    using trimSpace_infix [of "ke_PublicKey key"] assms(1) unfolding entry_clean_def by (metis Un_iff set_append)
  moreover have "trimmed (RenderEntry b c key)"
    unfolding o(1) using trimSpace_infix [of "ke_PublicKey key"] o(2) by (intro trimmed_after_space) (simp_all add: visible_def)
  ultimately show ?thesis using assms(1) o by (auto simp: line_ok_def entry_clean_def)
qed

subsection \<open>Blank text\<close>

definition blank :: "string \<Rightarrow> bool" where
  "blank s \<longleftrightarrow> (\<exists>ws. set ws \<subseteq> set white_space \<and> s = concat ws)"

lemma white_space_prefix_free: "\<forall>w \<in> set white_space. \<forall>v \<in> set white_space. has_prefix w v \<longrightarrow> w = v"
  by code_simp

lemma blank_parts:
  "blank []" "w \<in> set white_space \<Longrightarrow> blank s \<Longrightarrow> blank (w @ s)" "blank s \<Longrightarrow> blank t \<Longrightarrow> blank (s @ t)" "blank [LF]"
proof -
  show "blank []" unfolding blank_def by (intro exI [of _ "[]"]) simp
  show "w \<in> set white_space \<Longrightarrow> blank s \<Longrightarrow> blank (w @ s)"
    unfolding blank_def by (metis concat.simps(2) insert_subset list.simps(15))
  show "blank s \<Longrightarrow> blank t \<Longrightarrow> blank (s @ t)" unfolding blank_def by (metis Un_subset_iff concat_append set_append)
  show "blank [LF]" unfolding blank_def by (intro exI [of _ "[[LF]]"]) (simp add: white_space_def)
qed

lemma trim_start_blank: "blank s \<Longrightarrow> trim_start white_space s = []"
proof -
  assume "blank s"
  then obtain ws where "set ws \<subseteq> set white_space" "s = concat ws" by (auto simp: blank_def)
  then show ?thesis
  proof (induction ws arbitrary: s)
    case Nil
    then show ?case by (intro trans [OF trim_start_id]) (auto simp: no_word_at_start_def has_prefix_def)
  next
    case (Cons v ws)
    have "find (\<lambda>w. w \<noteq> [] \<and> has_prefix w (v @ concat ws)) white_space = Some v"
    proof (cases "find (\<lambda>w. w \<noteq> [] \<and> has_prefix w (v @ concat ws)) white_space")
      case None
      then show ?thesis using Cons.prems(1) white_space_words(1) by (auto simp: find_None_iff)
    next
      case (Some w)
      then have w: "w \<in> set white_space" "has_prefix w (v @ concat ws)" by (auto simp: find_Some_iff)
      then have "has_prefix w v \<or> has_prefix v w"
        unfolding has_prefix_iff append_eq_append_conv2 by metis
      then show ?thesis using Some w(1) Cons.prems(1) white_space_prefix_free by auto
    qed
    then show ?case using Cons by (subst trim_start.simps) simp
  qed
qed

lemma trim_start_removes: "\<exists>ps. set ps \<subseteq> set ws \<and> s = concat ps @ trim_start ws s"
proof (induction ws s rule: trim_start.induct)
  case (1 ws s)
  show ?case
  proof (cases "find (\<lambda>w. w \<noteq> [] \<and> has_prefix w s) ws")
    case None
    then have "no_word_at_start ws s" by (auto simp: no_word_at_start_def find_None_iff)
    then show ?thesis by (intro exI [of _ "[]"]) (simp add: trim_start_id)
  next
    case (Some w)
    then have w: "w \<in> set ws" "s = w @ drop (length w) s" by (auto simp: find_Some_iff has_prefix_iff)
    have step: "trim_start ws s = trim_start ws (drop (length w) s)" using Some by (subst trim_start.simps) simp
    from 1 [OF Some] obtain ps where "set ps \<subseteq> set ws" "drop (length w) s = concat ps @ trim_start ws (drop (length w) s)" by blast
    then show ?thesis using w unfolding step by (intro exI [of _ "w # ps"]) auto
  qed
qed

lemma blank_iff: "trimSpace s = [] \<longleftrightarrow> blank s"
proof
  assume empty: "trimSpace s = []"
  define t where "t = trim_start white_space s"
  obtain ps where ps: "set ps \<subseteq> set white_space" "s = concat ps @ t" unfolding t_def using trim_start_removes by blast
  obtain qs where qs: "set qs \<subseteq> set (map rev white_space)" "rev t = concat qs"
    using trim_start_removes [of "map rev white_space" "rev t"] empty unfolding trimSpace_def t_def by auto
  have "t = concat (rev (map rev qs))" using qs(2) by (metis rev_concat rev_map rev_rev_ident)
  moreover have "set (rev (map rev qs)) \<subseteq> set white_space" using qs(1) by auto
  ultimately have "blank t" unfolding blank_def by blast
  moreover have "blank (concat ps)" unfolding blank_def using ps(1) by blast
  ultimately show "blank s" using ps(2) blank_parts(3) by simp
next
  assume "blank s"
  then show "trimSpace s = []"
    using trim_start_blank trim_start_id [of "map rev white_space" "[]"] by (auto simp: trimSpace_def no_word_at_start_def has_prefix_def)
qed

lemma blank_line_feed: "blank (s @ [LF]) \<longleftrightarrow> blank s"
proof
  assume "blank (s @ [LF])"
  then obtain ws where ws: "set ws \<subseteq> set white_space" "s @ [LF] = concat ws" by (auto simp: blank_def)
  then obtain us w where "ws = us @ [w]" by (cases ws rule: rev_cases) auto
  moreover then have "w \<in> set white_space" "w \<noteq> []" "last w = LF"
    using ws white_space_words(1) by (auto, metis last_appendR last_snoc)
  moreover have "\<forall>w \<in> set white_space. last w = LF \<longrightarrow> w = [LF]" by (simp add: white_space_def char_of_def bit_0)
  ultimately show "blank s" using ws unfolding blank_def by (intro exI [of _ us]) auto
qed (simp add: blank_parts)

lemma blank_trim_lines: "blank (trim_lines s) \<longleftrightarrow> blank s"
proof -
  have "blank (t @ replicate n LF) \<longleftrightarrow> blank t" for t n
    by (induction n arbitrary: t) (simp_all add: replicate_append_same [symmetric] blank_line_feed flip: append_assoc)
  moreover obtain n where "s = trim_lines s @ replicate n LF"
  proof -
    have "rev s = takeWhile (\<lambda>c. c = LF) (rev s) @ rev (trim_lines s)" by (simp add: trim_lines_def)
    then have "s = trim_lines s @ rev (takeWhile (\<lambda>c. c = LF) (rev s))" by (metis rev_append rev_rev_ident)
    moreover have "\<forall>c \<in> set (rev (takeWhile (\<lambda>c. c = LF) (rev s))). c = LF" by (auto dest: set_takeWhileD)
    then have "rev (takeWhile (\<lambda>c. c = LF) (rev s)) = replicate (length (rev (takeWhile (\<lambda>c. c = LF) (rev s)))) LF"
      by (rule replicate_length_same [symmetric])
    ultimately show ?thesis using that by metis
  qed
  ultimately show ?thesis by metis
qed

subsection \<open>The file as a map of devices\<close>

definition file_devices :: "string \<Rightarrow> string \<rightharpoonup> string list" where
  "file_devices contents = map_of (parseManagedDevices (snd (splitManagedBlock contents)))"

definition unmanaged :: "string \<Rightarrow> string" where
  "unmanaged contents = fst (splitManagedBlock contents)"

definition kept_base :: "string \<Rightarrow> string" where
  "kept_base base = (if trimSpace base = [] then [LF] else trim_lines base @ [LF])"

definition set_device :: "string \<Rightarrow> string \<Rightarrow> KeySyncPayload \<Rightarrow> (string \<rightharpoonup> string list) \<Rightarrow> (string \<rightharpoonup> string list)" where
  "set_device b c payload m =
     m(kp_DeviceID payload := (case rendered_entries b c payload of [] \<Rightarrow> None | entries \<Rightarrow> Some entries))"

definition payload_clean :: "string \<Rightarrow> string \<Rightarrow> KeySyncPayload \<Rightarrow> bool" where
  "payload_clean b c payload \<longleftrightarrow> validDeviceID (kp_DeviceID payload) \<and> list_all (entry_clean b c) (kp_SSHKeys payload)"

lemma kept_base_idem: "kept_base (kept_base base) = kept_base base"
  by (simp add: kept_base_def blank_iff blank_parts(4) blank_line_feed blank_trim_lines)

lemma kept_base_marker: "\<not> contains_str base beginMarker \<Longrightarrow> \<not> contains_str (kept_base base) beginMarker"
proof -
  assume a: "\<not> contains_str base beginMarker"
  have "\<not> contains_str [] beginMarker" by (simp add: has_prefix_def beginMarker_def)
  moreover have "\<not> contains_str (trim_lines base) beginMarker"
    using a trim_lines_prefix [of base] contains_str_infix [of "trim_lines base" beginMarker "[]"] by (metis append_Nil)
  ultimately show ?thesis
    using contains_str_sep [of beginMarker "[]" "[]"] contains_str_sep [of beginMarker "trim_lines base" "[]"] by (simp add: kept_base_def)
qed

lemma sync_devices_wf:
  assumes "payload_clean b c payload" "wf_devices devices"
  shows "wf_devices (sync_devices (kp_DeviceID payload) (rendered_entries b c payload) devices)
    \<and> map_of (sync_devices (kp_DeviceID payload) (rendered_entries b c payload) devices) = set_device b c payload (map_of devices)"
proof -
  have "list_all line_ok (rendered_entries b c payload)"
    using assms(1) RenderEntry_ok by (auto simp: payload_clean_def rendered_entries_def list_all_iff)
  then show ?thesis using assms wf_devices_put wf_devices_del
    by (auto simp: payload_clean_def sync_devices_def set_device_def split: list.splits)
qed

lemma sync_text_step:
  assumes "payload_clean b c payload" "\<not> contains_str (unmanaged contents) beginMarker"
  shows "unmanaged (sync_text b c payload contents) = kept_base (unmanaged contents)"
    "file_devices (sync_text b c payload contents) = set_device b c payload (file_devices contents)"
proof -
  define devices where "devices = sync_devices (kp_DeviceID payload) (rendered_entries b c payload) (parseManagedDevices (snd (splitManagedBlock contents)))"
  have wf: "wf_devices devices" "map_of devices = set_device b c payload (file_devices contents)"
    using sync_devices_wf [OF assms(1) parse_wf [OF managed_part_open]] by (simp_all add: devices_def file_devices_def)
  have "sync_text b c payload contents = assemble (unmanaged contents) devices"
    by (simp add: sync_text_def unmanaged_def devices_def split: prod.splits)
  moreover have "\<forall>l \<in> set (managed_lines devices). \<not> contains_str l endMarker" using managed_lines_wf [OF wf(1)] by blast
  ultimately have parts: "splitManagedBlock (sync_text b c payload contents)
      = (kept_base (unmanaged contents), LF # concat (map (\<lambda>l. l @ [LF]) (managed_lines devices)))"
    using split_assembled [OF assms(2)] by (simp add: kept_base_def)
  show "unmanaged (sync_text b c payload contents) = kept_base (unmanaged contents)" by (simp add: unmanaged_def parts)
  show "file_devices (sync_text b c payload contents) = set_device b c payload (file_devices contents)"
    using parse_rendered [OF wf(1)] wf(2) by (simp add: file_devices_def [of "sync_text b c payload contents"] parts)
qed


definition sample_key_payload :: "string \<Rightarrow> string \<Rightarrow> KeySyncPayload" where
  "sample_key_payload device key =
     \<lparr>kp_DeviceID = device, kp_SessionID = [], kp_SSHUser = ''u'', kp_AuthorizedKeysPath = None,
      kp_SSHKeys = (if key = [] then [] else [\<lparr>ke_ID = ''k'', ke_PublicKey = key, ke_ForcedCommand = ''agent-remote-attach --device x''\<rparr>])\<rparr>"

abbreviation sample_syncs :: "KeySyncPayload list" where
  "sample_syncs \<equiv> [sample_key_payload ''laptop'' ''ssh-rsa A'', sample_key_payload ''phone'' ''ssh-rsa B'', sample_key_payload ''phone'' []]"


subsection \<open>Line feeds in keys\<close>

lemma sync_text_block:
  "\<exists>before. sync_text b c payload contents = before @ render_block (sync_devices (kp_DeviceID payload)
     (rendered_entries b c payload) (parseManagedDevices (snd (splitManagedBlock contents))))"
  by (cases "splitManagedBlock contents"; cases "trimSpace (fst (splitManagedBlock contents)) = []")
    (simp_all add: sync_text_def assemble_def)

lemma rendered_line_in_block:
  assumes "line \<in> set (rendered_entries b c payload)" "wf_map devices"
  shows "\<exists>u v. render_block (sync_devices (kp_DeviceID payload) (rendered_entries b c payload) devices) = u @ line @ LF # v"
proof -
  let ?d = "kp_DeviceID payload"
  let ?ds = "put ?d (rendered_entries b c payload) devices"
  have ds: "sync_devices ?d (rendered_entries b c payload) devices = ?ds" using assms(1) by (auto simp: sync_devices_def)
  have "line \<in> set (device_lines ?ds ?d)" using assms(1) by (simp add: device_lines_def lines_of_def)
  moreover have "?d \<in> set (sort (map fst ?ds))" using in_keys_Some [of ?d ?ds] by simp
  ultimately have "line \<in> set (concat (map (device_lines ?ds) (sort (map fst ?ds))))" by auto
  then obtain x y where "concat (map (device_lines ?ds) (sort (map fst ?ds))) = x @ line # y" by (meson split_list)
  then show ?thesis unfolding ds render_block_def
    by (intro exI [of _ "concat (map (\<lambda>l. l @ [LF]) (beginMarker # x))"] exI [of _ "concat (map (\<lambda>l. l @ [LF]) (y @ [endMarker]))"]) simp
qed

text \<open>
  C40: nothing rejects a line feed inside a public key. What follows the last line feed of such a key
  becomes a line of its own in the file, without the forced command and the restrictions that
  \<open>RenderEntry\<close> puts before the key.
\<close>

theorem line_feed_escapes_forced_command:
  assumes "key \<in> set (kp_SSHKeys payload)" "trimSpace (ke_PublicKey key) = first @ LF # rest" "LF \<notin> set rest"
  shows "rest \<in> set (split_on LF (sync_text b c payload contents))"
proof -
  have ne: "RenderEntry b c key \<noteq> []" using assms(2) by (simp add: RenderEntry_def)
  then obtain options where line: "RenderEntry b c key = CHR ''c'' # options @ CHR 0x20 # first @ LF # rest"
    using RenderEntry_shape [of b c key] assms(2) by auto
  have "RenderEntry b c key \<in> set (rendered_entries b c payload)"
    using assms(1) ne by (auto simp: rendered_entries_def)
  then obtain u v where "render_block (sync_devices (kp_DeviceID payload) (rendered_entries b c payload)
      (parseManagedDevices (snd (splitManagedBlock contents)))) = u @ RenderEntry b c key @ LF # v"
    using rendered_line_in_block parse_wf [OF managed_part_open] unfolding wf_devices_def by blast
  then obtain u v where "sync_text b c payload contents = u @ RenderEntry b c key @ LF # v"
    using sync_text_block [of b c payload contents] by (metis append.assoc)
  then have "sync_text b c payload contents = (u @ CHR ''c'' # options @ CHR 0x20 # first) @ LF # rest @ LF # v" by (simp add: line)
  then show ?thesis using split_on_append [of LF "u @ CHR ''c'' # options @ CHR 0x20 # first" "rest @ LF # v"]
      split_on_append_sep [OF assms(3), of v] by simp
qed

theorem line_feed_escapes_forced_command_witness:
  "''ssh-rsa B'' \<in> set (split_on LF (sync_text ''agent-remote-attach'' [] (sample_key_payload ''laptop'' (''ssh-rsa A'' @ LF # ''ssh-rsa B'')) []))"
proof -
  let ?p = "sample_key_payload ''laptop'' (''ssh-rsa A'' @ LF # ''ssh-rsa B'')"
  have "trimSpace (ke_PublicKey (hd (kp_SSHKeys ?p))) = ''ssh-rsa A'' @ LF # ''ssh-rsa B''" by code_simp
  then show ?thesis by (intro line_feed_escapes_forced_command [of "hd (kp_SSHKeys ?p)"]) (simp_all add: sample_key_payload_def)
qed

subsection \<open>Replacing the file as a whole\<close>

definition key_calls :: "string \<Rightarrow> nat \<Rightarrow> string \<Rightarrow> call list" where
  "key_calls path n data =
     (let tmp = temp_path (Dir path) (''.authorized_keys-'' @ format_nat n) in
      [MkdirAll (Dir path), ReadFile path, CreateTemp (Dir path) ''.authorized_keys-*'',
       FileChmod tmp 384, WriteTo tmp data, FileSync tmp, FileClose tmp, Rename tmp path, Remove tmp])"

definition answered_done :: "host \<Rightarrow> call list \<Rightarrow> nat list \<Rightarrow> bool" where
  "answered_done h calls positions = list_all (\<lambda>i. h (take i calls) (calls ! i) = Done) positions"

lemmas prog_unfolds = then_p_def before_p_def ask_def must_def return_p_def fail_p_def refuse_def finally_p_def on_error_p_def

lemma writeFileAtomic_keys_rename:
  assumes "Rename x y \<in> set (fst (writeFileAtomic_keys path data h [MkdirAll (Dir path), ReadFile path]))"
  shows "\<exists>n. fst (writeFileAtomic_keys path data h [MkdirAll (Dir path), ReadFile path]) = key_calls path n data
    \<and> answered_done h (key_calls path n data) [3, 4, 5, 6]"
proof (cases "h [MkdirAll (Dir path), ReadFile path] (CreateTemp (Dir path) ''.authorized_keys-*'')")
  case (Instant n)
  then show ?thesis using assms
    by (intro exI [of _ "nat n"])
      (simp add: writeFileAtomic_keys_def prog_unfolds key_calls_def answered_done_def Let_def split: if_splits)
qed (use assms in \<open>simp_all add: writeFileAtomic_keys_def prog_unfolds\<close>)

definition read_keys :: "host \<Rightarrow> string \<Rightarrow> string option" where
  "read_keys h path = (case h [MkdirAll (Dir path)] (ReadFile path) of Content existing \<Rightarrow> Some existing | Absent \<Rightarrow> Some [] | _ \<Rightarrow> None)"

lemma Sync_writes:
  assumes "Rename x y \<in> set (fst (Sync path attachBinary attachConfig payload h []))"
  shows "\<exists>existing. read_keys h path = Some existing
    \<and> Sync path attachBinary attachConfig payload h []
      = writeFileAtomic_keys path (sync_text (if attachBinary = [] then ''agent-remote-attach'' else attachBinary) attachConfig payload existing)
          h [MkdirAll (Dir path), ReadFile path]"
  using assms
  by (cases "h [MkdirAll (Dir path)] (ReadFile path)")
    (auto simp: Sync_def read_keys_def then_p_def ask_def fail_p_def refuse_def Let_def split: if_splits)

text \<open>
  C39: the file is replaced as a whole. Whatever the host answers, \<open>Sync\<close> renames something only
  after it has read the file, written the complete new text for what it read to a new file beside it,
  flushed and closed that file, all without an error; the rename is to the configured path and nothing
  but the removal of the temporary name follows.
\<close>

theorem key_file_replaced_whole:
  assumes "Rename x y \<in> set (fst (Sync path attachBinary attachConfig payload h []))"
  shows "\<exists>existing n. read_keys h path = Some existing
    \<and> fst (Sync path attachBinary attachConfig payload h [])
      = key_calls path n (sync_text (if attachBinary = [] then ''agent-remote-attach'' else attachBinary) attachConfig payload existing)
    \<and> answered_done h (fst (Sync path attachBinary attachConfig payload h [])) [3, 4, 5, 6]"
proof -
  define b where "b = (if attachBinary = [] then ''agent-remote-attach'' else attachBinary)"
  obtain existing where existing: "read_keys h path = Some existing" "Sync path attachBinary attachConfig payload h []
      = writeFileAtomic_keys path (sync_text b attachConfig payload existing) h [MkdirAll (Dir path), ReadFile path]"
    using Sync_writes [OF assms] unfolding b_def by blast
  then obtain n where "fst (Sync path attachBinary attachConfig payload h []) = key_calls path n (sync_text b attachConfig payload existing)"
      "answered_done h (key_calls path n (sync_text b attachConfig payload existing)) [3, 4, 5, 6]"
    using writeFileAtomic_keys_rename assms by metis
  then show ?thesis using existing(1) unfolding b_def by auto
qed

definition sample_key_host :: host where
  "sample_key_host log c = (case c of ReadFile _ \<Rightarrow> Absent | CreateTemp _ _ \<Rightarrow> Instant 7 | _ \<Rightarrow> Done)"

theorem key_file_replaced_whole_witness:
  "\<exists>n. fst (Sync ''/home/u/keys'' [] [] (sample_key_payload ''phone'' []) sample_key_host [])
     = key_calls ''/home/u/keys'' n (sync_text ''agent-remote-attach'' [] (sample_key_payload ''phone'' []) [])"
proof -
  let ?log = "fst (Sync ''/home/u/keys'' [] [] (sample_key_payload ''phone'' []) sample_key_host [])"
  have "validDeviceID ''phone''" by code_simp
  then have "Rename (temp_path (Dir ''/home/u/keys'') (''.authorized_keys-'' @ format_nat 7)) ''/home/u/keys'' \<in> set ?log"
    by (simp add: Sync_def writeFileAtomic_keys_def prog_unfolds sample_key_host_def sample_key_payload_def Let_def)
  moreover have "read_keys sample_key_host ''/home/u/keys'' = Some []" by (simp add: read_keys_def sample_key_host_def)
  ultimately show ?thesis using key_file_replaced_whole by fastforce
qed

subsection \<open>Shell words\<close>

text \<open>
  How a POSIX shell reads one word made of plain characters, single quotes and backslashes; the flag
  says whether a quote is open.
\<close>

fun sh_word :: "bool \<Rightarrow> string \<Rightarrow> string option" where
  "sh_word quoted [] = (if quoted then None else Some [])"
| "sh_word True (c # s) = (if c = CHR 0x27 then sh_word False s else map_option ((#) c) (sh_word True s))"
| "sh_word False (c # s) =
     (if c = CHR 0x27 then sh_word True s
      else if c = CHR 0x5C then (case s of [] \<Rightarrow> None | d # t \<Rightarrow> map_option ((#) d) (sh_word False t))
      else if word_char ''/._-:'' c then map_option ((#) c) (sh_word False s) else None)"

lemma sh_word_plain: "list_all (word_char ''/._-:'') v \<Longrightarrow> sh_word False v = Some v"
  by (induction v) (auto simp: word_char_def Let_def)

lemma sh_word_quoted:
  "sh_word True (replace_char (CHR 0x27) [CHR 0x27, CHR 0x5C, CHR 0x27, CHR 0x27] v @ [CHR 0x27]) = Some v"
  by (induction v) (simp_all add: replace_char_def)

text \<open>
  a shell reads \<open>shellWord\<close> of any text as exactly one word, that text: the paths of the attach
  program and of its configuration cannot be split or add a command.
\<close>

theorem shell_word_read_back: "sh_word False (shellWord v) = Some v"
  using sh_word_plain [of v] sh_word_quoted [of v] by (simp add: shellWord_def)

end
