(* ===== verification/Spec2Isabelle.thy ===== *)
theory Spec2Isabelle
  imports Lifecycle Tool_Sessions Attachments Wireguard Ssh_Keys
begin

text \<open>
  Verification of the agent-remote node: the program that runs on a managed host, takes tasks
  from a control plane, and runs users' coding tools in isolated sessions. All source names below
  are under \<open>src/\<close>.

  \<^bold>\<open>The parts and how they interact.\<close> A worker (\<open>internal/worker\<close>) leases tasks, records their outcome
  in a ledger (\<open>internal/ledger\<close>) and reports it. Tasks that need privileges are sent to the runtime
  helper (\<open>internal/runtimehelper\<close>), which creates and stops sessions; the worker adds the
  identity of the ego-browser bridge to such a request. The broker (\<open>internal/egobrowser\<close>) owns that
  bridge: it holds bindings granted by the control plane, gives permits to the processes of a
  session over a local socket and forwards their frames to a relay. Sessions work in directories
  below managed roots (\<open>internal/toolsessions\<close>, \<open>internal/toolaccounts\<close>, \<open>internal/workspace\<close>), receive
  attachments through a gateway (\<open>internal/claudeattachments\<close>) and skills described by manifests
  (\<open>internal/skillmanager\<close>, \<open>internal/managedskills\<close>).

  \<^bold>\<open>Conventions.\<close> Definitions keep the names of the functions they model; a name that is already
  taken carries a suffix. Go strings and byte slices are \<^typ>\<open>string\<close>, maps are association
  lists with distinct keys, instants and durations are integers in nanoseconds, counters are words
  of their width. Errors are values. The clock, randomness, the control plane, the operating
  system, cryptographic primitives and the result of Go's JSON decoder are arguments, usually
  collected in a record named after the operation. A section of code that holds a mutex is one
  step; what happens between such sections is any sequence of steps. Objects that the code shares
  through pointers live in explicit stores.

  \<^bold>\<open>Theories.\<close>
  \<^item> \<open>Prelude\<close>: the Go types and library functions, association lists, and the generic
    systems: \<open>invariant_system\<close>, \<open>single_use_system\<close>, \<open>counter_system\<close>. Their interpretations on the
    broker, the relay, the ledger and the stop fence carry the properties of runs.
  \<^item> \<open>Effects\<close>: programs that call the host, with the list of their calls, and compositional rules for
    the calls a program can make (\<open>emits\<close>), certainly makes (\<open>achieves\<close>) and returns (\<open>returns\<close>,
    \<open>succeeds\<close>). Hosts are arbitrary functions, so every failure and interference is covered.
  \<^item> \<open>Wire\<close>, \<open>Ego_Contract\<close>, \<open>Json_Keys\<close>: frames (\<open>framing.go\<close>, \<open>bridge.go\<close>, \<open>tunnel.go\<close>), base64, the
    key-wrap transcript, the broker's wire contract, and the duplicate-key check (\<open>json.go\<close>). They
    show round trips, injectivity and equivalence with plain specifications.
  \<^item> \<open>Relay\<close>, \<open>Broker\<close>: the state and operations of \<open>broker.go\<close>. \<open>Broker_Inv\<close>, \<open>Broker_Steps\<close>,
    \<open>Broker_Runs\<close> and \<open>Broker_Props\<close> prove the broker's invariant step by step; \<open>Broker_Claims\<close> and
    \<open>Broker_Ops\<close> draw the properties of all runs and of the single operations.
  \<^item> \<open>Forward\<close>, \<open>Connection\<close>: the steps of \<open>forward\<close> under every interleaving with other sections, and
    the handler of a local connection.
  \<^item> \<open>Ledger\<close>: \<open>ledger.go\<close> and \<open>publish.go\<close> as a refinement of a durable map.
  \<^item> \<open>Worker\<close>, \<open>Worker_Tasks\<close>, \<open>Worker_Runtime\<close>: admission, retries and leases; \<open>executeTask\<close>;
    \<open>callRuntimeHelper\<close> on top of the broker.
  \<^item> \<open>Lifecycle\<close>: the stop fence of the helper (\<open>session_lifecycle*.go\<close>) and \<open>Execute\<close>.
  \<^item> \<open>Paths\<close>: \<open>path/filepath\<close> and the resolvers of paths named by payloads.
  \<^item> \<open>Skill_Manifest\<close>: \<open>validate.go\<close> and \<open>manifest.go\<close>, with the meaning of links as an inductive relation.
  \<^item> \<open>Managed_Skills\<close>, \<open>Tool_Sessions\<close>: \<open>managedskills.go\<close> and \<open>toolsessions.go\<close> as host programs.
  \<^item> \<open>Attachments\<close>: \<open>transfer.go\<close>, the gateway of one attachment stream.
  \<^item> \<open>Wireguard\<close>: \<open>wireguard.go\<close>, with a reader of the rendered configuration for the round trip.
  \<^item> \<open>Ssh_Keys\<close>: \<open>sshkeys.go\<close>; the file as a map of devices that every sync updates at one place, and its
    replacement as a host program.

  \<^bold>\<open>Bounds and fuel.\<close> Loops whose end is not structural are proved to end: \<open>link_loop\<close> and \<open>trim_start\<close> by
  measures; \<open>forward\<close> by a rank that every step lowers once its context ends. \<open>serve_loop\<close> has a
  number of turns, one more than the input is long, which is enough because every turn that
  goes on has consumed a line; \<open>parent_loop\<close> has one turn per segment of the path. The retry loops of
  the source that have a fixed number of attempts keep that number. \<open>register_loop\<close> takes the
  random draws as a list; it is proved to return as soon as one of them is unused.

  \<^bold>\<open>Not modelled.\<close> The HTTP and WebSocket transports and the byte pumps of tunnels, whose content
  is arguments here; the capture, mounting, migration and reclamation of skill trees and the
  driving of systemd, Docker, user accounts and ACLs in the runtime helper, which are sequences of
  kernel operations whose effects are outside the program; the JSON codec, represented by
  what it returns; configuration files; probes that collect facts from the host; the command-line
  programs.
\<close>

end
